(* ===== verification/Sharegres_Prelude.thy ===== *)
theory Sharegres_Prelude
  imports Main "HOL-Library.Word" "HOL-Library.Monad_Syntax"
begin

text \<open>
  What all components of the Sharegres model share.

  \<^item> Bytes and C strings. A byte is a \<^typ>\<open>char\<close> (Isabelle characters have exactly eight
    bits). A NUL-terminated C string that a pointer walks over is the list of the characters
    from the pointer up to, and without, the terminator: incrementing the pointer is \<open>tl\<close>,
    reading the terminator is seeing \<open>[]\<close>.
  \<^item> Failure. A function of the model returns \<open>None\<close> where the C function has undefined
    behaviour (a read past the terminator or outside the initialised part of a block, a NULL
    dereference, a write outside a block) or does not return. A C function that may return NULL
    has a second, inner option.
  \<^item> Memory blocks. The contents of a \<open>malloc\<close>ed block are the list of its initialised bytes,
    a prefix of the block; the size of the block is kept beside it.
  \<^item> The functions of the C library the code calls: \<open>isspace\<close>, \<open>strtoll\<close>, \<open>strtoull\<close>, \<open>atoi\<close>,
    \<open>htonl\<close>/\<open>ntohl\<close>, \<open>htons\<close>/\<open>ntohs\<close>, \<open>memcpy\<close>, \<open>memmove\<close>, \<open>strlen\<close>.
\<close>

section \<open>Collections and congruences\<close>

named_theorems mem_simps \<open>equations of the memory-block operations\<close>
named_theorems buf_simps \<open>equations of the message-buffer operations\<close>
named_theorems nav_simps \<open>equations of the JSON navigator on rendered text\<close>

declare Option.bind_cong [fundef_cong]

type_synonym byte = char
type_synonym cstring = "char list"

abbreviation NUL :: byte where
  "NUL \<equiv> CHR 0x00"

abbreviation QUOTE :: char where
  "QUOTE \<equiv> CHR 0x22"

abbreviation BACKSLASH :: char where
  "BACKSLASH \<equiv> CHR 0x5C"

section \<open>Characters and numbers of the C library\<close>

text \<open>\<open>isspace\<close> of the C locale: space, and the control characters 9 to 13.\<close>

definition isspace :: "char \<Rightarrow> bool" where
  "isspace c \<longleftrightarrow> c \<in> {CHR 0x20, CHR 0x09, CHR 0x0A, CHR 0x0B, CHR 0x0C, CHR 0x0D}"

definition isdigit :: "char \<Rightarrow> bool" where
  "isdigit c \<longleftrightarrow> 48 \<le> (of_char c :: nat) \<and> (of_char c :: nat) \<le> 57"

definition digit_val :: "char \<Rightarrow> nat" where
  "digit_val c = of_char c - 48"

text \<open>The value of the longest digit prefix (base ten), as the \<open>strto*\<close> family reads it.\<close>

fun digits_val :: "nat \<Rightarrow> cstring \<Rightarrow> nat" where
  "digits_val acc [] = acc"
| "digits_val acc (c # cs) =
     (if isdigit c then digits_val (10 * acc + digit_val c) cs else acc)"

text \<open>The sign and the digits after leading white space.\<close>

definition strto_parts :: "cstring \<Rightarrow> bool \<times> nat" where
  "strto_parts s =
     (case dropWhile isspace s of
        [] \<Rightarrow> (False, 0)
      | c # cs \<Rightarrow>
          if c = CHR ''-'' then (True, digits_val 0 cs)
          else if c = CHR ''+'' then (False, digits_val 0 cs)
          else (False, digits_val 0 (c # cs)))"

definition strto_int :: "cstring \<Rightarrow> int" where
  "strto_int s = (case strto_parts s of (neg, n) \<Rightarrow> if neg then - int n else int n)"

text \<open>
  \<open>strtoll\<close> (and, on a 64-bit system, \<open>strtol\<close>) clamps to the range of a signed 64-bit value;
  \<open>atoi\<close> is \<open>(int) strtol\<close>; \<open>strtoull\<close> clamps at the largest unsigned value and negates modulo
  \<open>2 ^ 64\<close> after a minus sign.
\<close>

definition strtoll :: "cstring \<Rightarrow> int" where
  "strtoll s = max (- (2 ^ 63)) (min (2 ^ 63 - 1) (strto_int s))"

definition atoi :: "cstring \<Rightarrow> int" where
  "atoi s = sint (word_of_int (strtoll s) :: 32 word)"

definition strtoull :: "cstring \<Rightarrow> 64 word" where
  "strtoull s =
     (case strto_parts s of
        (neg, n) \<Rightarrow>
          if 2 ^ 64 \<le> n then - 1
          else if neg then - word_of_nat n else word_of_nat n)"

section \<open>Network byte order\<close>

definition htons_bytes :: "16 word \<Rightarrow> byte list" where
  "htons_bytes w = [char_of (unat w div 2 ^ 8), char_of (unat w)]"

definition htonl_bytes :: "32 word \<Rightarrow> byte list" where
  "htonl_bytes w =
     [char_of (unat w div 2 ^ 24), char_of (unat w div 2 ^ 16),
      char_of (unat w div 2 ^ 8), char_of (unat w)]"

fun be_val :: "nat \<Rightarrow> byte list \<Rightarrow> nat" where
  "be_val acc [] = acc"
| "be_val acc (b # bs) = be_val (256 * acc + of_char b) bs"

definition ntohs_bytes :: "byte list \<Rightarrow> 16 word" where
  "ntohs_bytes bs = word_of_nat (be_val 0 bs)"

definition ntohl_bytes :: "byte list \<Rightarrow> 32 word" where
  "ntohl_bytes bs = word_of_nat (be_val 0 bs)"

section \<open>Memory blocks\<close>

text \<open>
  \<open>mem_read off n d\<close> are the \<open>n\<close> bytes at offset \<open>off\<close> of a block with initialised prefix \<open>d\<close>;
  \<open>mem_write cap off bs d\<close> is \<open>memcpy\<close> of \<open>bs\<close> into a block of \<open>cap\<close> bytes;
  \<open>mem_move off n d\<close> is \<open>memmove(data, data + off, n)\<close>, the only form the code uses;
  \<open>c_str_at off d\<close> is the C string that starts at \<open>off\<close>.
\<close>

definition mem_read :: "nat \<Rightarrow> nat \<Rightarrow> byte list \<Rightarrow> byte list option" where
  "mem_read off n d = (if off + n \<le> length d then Some (take n (drop off d)) else None)"

definition mem_write :: "nat \<Rightarrow> nat \<Rightarrow> byte list \<Rightarrow> byte list \<Rightarrow> byte list option" where
  "mem_write cap off bs d =
     (if off \<le> length d \<and> off + length bs \<le> cap
      then Some (take off d @ bs @ drop (off + length bs) d) else None)"

definition mem_move :: "nat \<Rightarrow> nat \<Rightarrow> byte list \<Rightarrow> byte list option" where
  "mem_move off n d =
     (if off + n \<le> length d then Some (take n (drop off d) @ drop n d) else None)"

fun c_str :: "byte list \<Rightarrow> cstring option" where
  "c_str [] = None"
| "c_str (c # cs) = (if c = NUL then Some [] else map_option (Cons c) (c_str cs))"

definition c_str_at :: "nat \<Rightarrow> byte list \<Rightarrow> cstring option" where
  "c_str_at off d = c_str (drop off d)"

section \<open>Lemmas\<close>

lemma div_mod_256: "256 * (n div 256) + n mod 256 = (n :: nat)"
  by simp

lemma four_bytes:
  assumes "(n :: nat) < 2 ^ 32"
  shows "256 * (256 * (256 * (n div 16777216 mod 256) + n div 65536 mod 256)
           + n div 256 mod 256) + n mod 256 = n"
proof -
  have 1: "n div 16777216 mod 256 = n div 65536 div 256"
    using assms by (simp add: div_mult2_eq [symmetric] less_mult_imp_div_less)
  have 2: "n div 65536 = n div 256 div 256"
    by (simp add: div_mult2_eq [symmetric])
  show ?thesis
    unfolding 1 div_mod_256 unfolding 2 div_mod_256 by simp
qed

lemma ntohl_htonl [simp]: "ntohl_bytes (htonl_bytes w) = w"
proof -
  have "unat w < 2 ^ LENGTH(32)" by (rule unsigned_less)
  then have "be_val 0 (htonl_bytes w) = unat w"
    using four_bytes [of "unat w"] by (simp add: htonl_bytes_def)
  then show ?thesis by (simp add: ntohl_bytes_def)
qed

lemma ntohs_htons [simp]: "ntohs_bytes (htons_bytes w) = w"
proof -
  have "unat w < 2 ^ LENGTH(16)" by (rule unsigned_less)
  then have "be_val 0 (htons_bytes w) = unat w"
    by (simp add: htons_bytes_def less_mult_imp_div_less)
  then show ?thesis by (simp add: ntohs_bytes_def)
qed

lemma length_htonl [simp]: "length (htonl_bytes w) = 4"
  by (simp add: htonl_bytes_def)

lemma length_htons [simp]: "length (htons_bytes w) = 2"
  by (simp add: htons_bytes_def)

subsection \<open>Memory blocks\<close>

lemma mem_write_at_len [mem_simps]:
  "n \<le> length d \<Longrightarrow> n + length bs \<le> cap \<Longrightarrow>
     mem_write cap n bs d = Some (take n d @ bs @ drop (n + length bs) d)"
  by (simp add: mem_write_def)

lemma mem_read_middle [mem_simps]:
  "mem_read (length xs) (length ys) (xs @ ys @ zs) = Some ys"
  by (simp add: mem_read_def)

lemma mem_move_prefix [mem_simps]:
  "mem_move (length xs) (length ys) (xs @ ys @ zs) = Some (ys @ drop (length ys) (xs @ ys @ zs))"
  by (simp add: mem_move_def)

lemma c_str_append [simp]: "NUL \<notin> set s \<Longrightarrow> c_str (s @ NUL # rest) = Some s"
  by (induction s) auto

lemma c_str_no_NUL: "c_str d = Some s \<Longrightarrow> NUL \<notin> set s"
  by (induction d arbitrary: s) (auto split: if_splits)

lemma c_str_None_iff: "c_str d = None \<longleftrightarrow> NUL \<notin> set d"
  by (induction d) auto

lemma c_str_Some_split:
  "c_str d = Some s \<Longrightarrow> d = s @ NUL # drop (Suc (length s)) d"
  by (induction d arbitrary: s) (auto split: if_splits)

subsection \<open>White space and digits\<close>

lemma dropWhile_isspace_id: "s = [] \<or> \<not> isspace (hd s) \<Longrightarrow> dropWhile isspace s = s"
  by (cases s) auto

lemma length_dropWhile_le_trans: "length s \<le> n \<Longrightarrow> length (dropWhile P s) \<le> n"
  using length_dropWhile_le le_trans by blast

end
