(* ===== verification/Message.thy ===== *)
theory Message
  imports Sharegres_Prelude
begin

text \<open>
  \<open>src/protocol/message.c\<close> and \<open>message.h\<close>: the growable message buffer, its writing and reading
  primitives, and the backend messages of the PostgreSQL wire protocol. The buffer's block is its
  initialised prefix \<open>mb_data\<close> and its size \<open>mb_cap\<close>; every write is checked against the size and
  every read against the initialised prefix. Sizes (\<open>size_t\<close>) are natural numbers, the integers on
  the wire are words.
\<close>

record MsgBuf =
  mb_data :: "byte list"
  mb_len :: nat
  mb_cap :: nat
  mb_pos :: nat

section \<open>Protocol constants\<close>

abbreviation MSG_QUERY :: byte where "MSG_QUERY \<equiv> CHR ''Q''"
abbreviation MSG_PARSE :: byte where "MSG_PARSE \<equiv> CHR ''P''"
abbreviation MSG_BIND :: byte where "MSG_BIND \<equiv> CHR ''B''"
abbreviation MSG_DESCRIBE :: byte where "MSG_DESCRIBE \<equiv> CHR ''D''"
abbreviation MSG_EXECUTE :: byte where "MSG_EXECUTE \<equiv> CHR ''E''"
abbreviation MSG_SYNC :: byte where "MSG_SYNC \<equiv> CHR ''S''"
abbreviation MSG_CLOSE :: byte where "MSG_CLOSE \<equiv> CHR ''C''"
abbreviation MSG_TERMINATE :: byte where "MSG_TERMINATE \<equiv> CHR ''X''"
abbreviation MSG_COPY_DATA :: byte where "MSG_COPY_DATA \<equiv> CHR ''d''"
abbreviation MSG_COPY_DONE :: byte where "MSG_COPY_DONE \<equiv> CHR ''c''"
abbreviation MSG_COPY_FAIL :: byte where "MSG_COPY_FAIL \<equiv> CHR ''f''"
abbreviation MSG_AUTH_REQUEST :: byte where "MSG_AUTH_REQUEST \<equiv> CHR ''R''"
abbreviation MSG_PARAM_STATUS :: byte where "MSG_PARAM_STATUS \<equiv> CHR ''S''"
abbreviation MSG_BACKEND_KEY :: byte where "MSG_BACKEND_KEY \<equiv> CHR ''K''"
abbreviation MSG_READY_FOR_QUERY :: byte where "MSG_READY_FOR_QUERY \<equiv> CHR ''Z''"
abbreviation MSG_ROW_DESCRIPTION :: byte where "MSG_ROW_DESCRIPTION \<equiv> CHR ''T''"
abbreviation MSG_DATA_ROW :: byte where "MSG_DATA_ROW \<equiv> CHR ''D''"
abbreviation MSG_CMD_COMPLETE :: byte where "MSG_CMD_COMPLETE \<equiv> CHR ''C''"
abbreviation MSG_ERROR_RESPONSE :: byte where "MSG_ERROR_RESPONSE \<equiv> CHR ''E''"
abbreviation MSG_COPY_IN_RESP :: byte where "MSG_COPY_IN_RESP \<equiv> CHR ''G''"
abbreviation MSG_COPY_OUT_RESP :: byte where "MSG_COPY_OUT_RESP \<equiv> CHR ''H''"
abbreviation TXN_IDLE :: byte where "TXN_IDLE \<equiv> CHR ''I''"
abbreviation TXN_IN_TRANSACTION :: byte where "TXN_IN_TRANSACTION \<equiv> CHR ''T''"
abbreviation TXN_FAILED :: byte where "TXN_FAILED \<equiv> CHR ''E''"

definition PG_PROTOCOL_MAJOR :: nat where "PG_PROTOCOL_MAJOR = 3"
definition PG_SSL_REQUEST :: "32 word" where "PG_SSL_REQUEST = 80877103"
definition PG_CANCEL_REQUEST :: "32 word" where "PG_CANCEL_REQUEST = 80877102"
definition AUTH_OK :: "32 word" where "AUTH_OK = 0"

section \<open>The buffer\<close>

definition msgbuf_init :: "nat \<Rightarrow> MsgBuf" where
  "msgbuf_init initial_cap = \<lparr>mb_data = [], mb_len = 0, mb_cap = initial_cap, mb_pos = 0\<rparr>"

definition msgbuf_reset :: "MsgBuf \<Rightarrow> MsgBuf" where
  "msgbuf_reset buf = buf\<lparr>mb_len := 0, mb_pos := 0\<rparr>"

definition msgbuf_free :: "MsgBuf \<Rightarrow> MsgBuf" where
  "msgbuf_free buf = \<lparr>mb_data = [], mb_len = 0, mb_cap = 0, mb_pos = 0\<rparr>"

text \<open>\<open>while (new_cap < need) new_cap *= 2\<close>; it never ends from a capacity of 0.\<close>

partial_function (option) grow_cap :: "nat \<Rightarrow> nat \<Rightarrow> nat option" where
  "grow_cap new_cap need = (if new_cap < need then grow_cap (new_cap * 2) need else Some new_cap)"

definition msgbuf_ensure :: "MsgBuf \<Rightarrow> nat \<Rightarrow> MsgBuf option" where
  "msgbuf_ensure buf additional =
     (if mb_len buf + additional \<le> mb_cap buf then Some buf
      else do {
        new_cap \<leftarrow> grow_cap (mb_cap buf * 2) (mb_len buf + additional);
        Some (buf\<lparr>mb_cap := new_cap\<rparr>)
      })"

text \<open>\<open>memcpy\<close> of \<open>bs\<close> behind the current contents, and the step of \<open>len\<close>.\<close>

definition msgbuf_append :: "MsgBuf \<Rightarrow> byte list \<Rightarrow> MsgBuf option" where
  "msgbuf_append buf bs = do {
     d \<leftarrow> mem_write (mb_cap buf) (mb_len buf) bs (mb_data buf);
     Some (buf\<lparr>mb_data := d, mb_len := mb_len buf + length bs\<rparr>)
   }"

definition msgbuf_put_byte :: "MsgBuf \<Rightarrow> byte \<Rightarrow> MsgBuf option" where
  "msgbuf_put_byte buf val = do { buf \<leftarrow> msgbuf_ensure buf 1; msgbuf_append buf [val] }"

definition msgbuf_put_int16 :: "MsgBuf \<Rightarrow> 16 word \<Rightarrow> MsgBuf option" where
  "msgbuf_put_int16 buf val = do { buf \<leftarrow> msgbuf_ensure buf 2; msgbuf_append buf (htons_bytes val) }"

definition msgbuf_put_int32 :: "MsgBuf \<Rightarrow> 32 word \<Rightarrow> MsgBuf option" where
  "msgbuf_put_int32 buf val = do { buf \<leftarrow> msgbuf_ensure buf 4; msgbuf_append buf (htonl_bytes val) }"

definition msgbuf_put_string :: "MsgBuf \<Rightarrow> cstring \<Rightarrow> MsgBuf option" where
  "msgbuf_put_string buf str =
     (let slen = length str + 1 in do { buf \<leftarrow> msgbuf_ensure buf slen; msgbuf_append buf (str @ [NUL]) })"

definition msgbuf_put_bytes :: "MsgBuf \<Rightarrow> byte list \<Rightarrow> MsgBuf option" where
  "msgbuf_put_bytes buf bs = do { buf \<leftarrow> msgbuf_ensure buf (length bs); msgbuf_append buf bs }"

definition msgbuf_get_byte :: "MsgBuf \<Rightarrow> (byte \<times> MsgBuf) option" where
  "msgbuf_get_byte buf = do {
     bs \<leftarrow> mem_read (mb_pos buf) 1 (mb_data buf);
     Some (hd bs, buf\<lparr>mb_pos := mb_pos buf + 1\<rparr>)
   }"

definition msgbuf_get_int16 :: "MsgBuf \<Rightarrow> (16 word \<times> MsgBuf) option" where
  "msgbuf_get_int16 buf = do {
     bs \<leftarrow> mem_read (mb_pos buf) 2 (mb_data buf);
     Some (ntohs_bytes bs, buf\<lparr>mb_pos := mb_pos buf + 2\<rparr>)
   }"

definition msgbuf_get_int32 :: "MsgBuf \<Rightarrow> (32 word \<times> MsgBuf) option" where
  "msgbuf_get_int32 buf = do {
     bs \<leftarrow> mem_read (mb_pos buf) 4 (mb_data buf);
     Some (ntohl_bytes bs, buf\<lparr>mb_pos := mb_pos buf + 4\<rparr>)
   }"

definition msgbuf_get_string :: "MsgBuf \<Rightarrow> (cstring \<times> MsgBuf) option" where
  "msgbuf_get_string buf = do {
     str \<leftarrow> c_str_at (mb_pos buf) (mb_data buf);
     Some (str, buf\<lparr>mb_pos := mb_pos buf + length str + 1\<rparr>)
   }"

section \<open>Messages\<close>

definition msg_begin :: "MsgBuf \<Rightarrow> byte \<Rightarrow> (MsgBuf \<times> nat) option" where
  "msg_begin buf ty = do {
     buf \<leftarrow> msgbuf_put_byte buf ty;
     let len_offset = mb_len buf;
     buf \<leftarrow> msgbuf_put_int32 buf 0;
     Some (buf, len_offset)
   }"

definition msg_end :: "MsgBuf \<Rightarrow> nat \<Rightarrow> MsgBuf option" where
  "msg_end buf len_offset = do {
     d \<leftarrow> mem_write (mb_cap buf) len_offset (htonl_bytes (word_of_nat (mb_len buf - len_offset))) (mb_data buf);
     Some (buf\<lparr>mb_data := d\<rparr>)
   }"

definition msg_write_auth_ok :: "MsgBuf \<Rightarrow> MsgBuf option" where
  "msg_write_auth_ok buf = do {
     (buf, off) \<leftarrow> msg_begin buf MSG_AUTH_REQUEST;
     buf \<leftarrow> msgbuf_put_int32 buf AUTH_OK;
     msg_end buf off
   }"

definition msg_write_param_status :: "MsgBuf \<Rightarrow> cstring \<Rightarrow> cstring \<Rightarrow> MsgBuf option" where
  "msg_write_param_status buf name val = do {
     (buf, off) \<leftarrow> msg_begin buf MSG_PARAM_STATUS;
     buf \<leftarrow> msgbuf_put_string buf name;
     buf \<leftarrow> msgbuf_put_string buf val;
     msg_end buf off
   }"

definition msg_write_backend_key :: "MsgBuf \<Rightarrow> 32 word \<Rightarrow> 32 word \<Rightarrow> MsgBuf option" where
  "msg_write_backend_key buf pid key = do {
     (buf, off) \<leftarrow> msg_begin buf MSG_BACKEND_KEY;
     buf \<leftarrow> msgbuf_put_int32 buf pid;
     buf \<leftarrow> msgbuf_put_int32 buf key;
     msg_end buf off
   }"

definition msg_write_ready_for_query :: "MsgBuf \<Rightarrow> byte \<Rightarrow> MsgBuf option" where
  "msg_write_ready_for_query buf txn_status = do {
     (buf, off) \<leftarrow> msg_begin buf MSG_READY_FOR_QUERY;
     buf \<leftarrow> msgbuf_put_byte buf txn_status;
     msg_end buf off
   }"

definition msg_write_error :: "MsgBuf \<Rightarrow> cstring \<Rightarrow> cstring \<Rightarrow> cstring \<Rightarrow> MsgBuf option" where
  "msg_write_error buf severity code msg = do {
     (buf, off) \<leftarrow> msg_begin buf MSG_ERROR_RESPONSE;
     buf \<leftarrow> msgbuf_put_byte buf (CHR ''S'');
     buf \<leftarrow> msgbuf_put_string buf severity;
     buf \<leftarrow> msgbuf_put_byte buf (CHR ''C'');
     buf \<leftarrow> msgbuf_put_string buf code;
     buf \<leftarrow> msgbuf_put_byte buf (CHR ''M'');
     buf \<leftarrow> msgbuf_put_string buf msg;
     buf \<leftarrow> msgbuf_put_byte buf NUL;
     msg_end buf off
   }"

definition msg_write_command_complete :: "MsgBuf \<Rightarrow> cstring \<Rightarrow> MsgBuf option" where
  "msg_write_command_complete buf tag = do {
     (buf, off) \<leftarrow> msg_begin buf MSG_CMD_COMPLETE;
     buf \<leftarrow> msgbuf_put_string buf tag;
     msg_end buf off
   }"

section \<open>Growth\<close>

lemma grow_cap_total:
  assumes "0 < c"
  shows "\<exists>n. grow_cap c need = Some n \<and> need \<le> n \<and> c \<le> n"
  using assms
proof (induction "need - c" arbitrary: c rule: less_induct)
  case less
  show ?case
  proof (cases "c < need")
    case True
    with less.prems have "need - c * 2 < need - c" "0 < c * 2" by auto
    from less.hyps [OF this] True show ?thesis by (subst grow_cap.simps) auto
  next
    case False
    then show ?thesis by (subst grow_cap.simps) simp
  qed
qed

lemma grow_cap_bound:
  assumes "grow_cap c need = Some n"
  shows "n < 2 * need \<or> n = c"
  by (rule grow_cap.raw_induct [of "\<lambda>c need n. n < 2 * need \<or> n = c", OF _ assms])
    (fastforce split: if_splits)

lemma grow_cap_0: "0 < need \<Longrightarrow> grow_cap 0 need = None"
proof (rule ccontr)
  assume "0 < need" "grow_cap 0 need \<noteq> None"
  then obtain n where n: "grow_cap 0 need = Some n" by blast
  have "(0 :: nat) = 0 \<longrightarrow> need = 0"
    by (rule grow_cap.raw_induct [of "\<lambda>c need n. c = 0 \<longrightarrow> need = 0", OF _ n])
      (auto split: if_splits)
  with \<open>0 < need\<close> show False by simp
qed

section \<open>Sinks\<close>

text \<open>A computation on a sink appends \<open>xs\<close>: from every well-formed state it returns, in a
  well-formed state whose contents are longer by exactly \<open>xs\<close>.\<close>

definition appends :: "('b \<Rightarrow> bool) \<Rightarrow> ('b \<Rightarrow> byte list) \<Rightarrow> ('b \<Rightarrow> 'b option) \<Rightarrow> byte list \<Rightarrow> bool" where
  "appends ok cont f xs \<longleftrightarrow>
     (\<forall>b. ok b \<longrightarrow> (\<exists>b'. f b = Some b' \<and> ok b' \<and> cont b' = cont b @ xs))"

lemma appendsD:
  assumes "appends ok cont f xs" "ok b"
  obtains b' where "f b = Some b'" "ok b'" "cont b' = cont b @ xs"
  using assms by (auto simp: appends_def)

lemma appends_bind:
  assumes "appends ok cont f xs" "appends ok cont g ys"
  shows "appends ok cont (\<lambda>b. Option.bind (f b) g) (xs @ ys)"
  unfolding appends_def
proof (intro allI impI)
  fix b assume "ok b"
  with assms(1) obtain b1 where b1: "f b = Some b1" "ok b1" "cont b1 = cont b @ xs" by (rule appendsD)
  from assms(2) b1(2) obtain b2 where "g b1 = Some b2" "ok b2" "cont b2 = cont b1 @ ys" by (rule appendsD)
  with b1 show "\<exists>b'. Option.bind (f b) g = Some b' \<and> ok b' \<and> cont b' = cont b @ xs @ ys" by simp
qed

lemma appends_Some: "appends ok cont Some []"
  by (simp add: appends_def)

text \<open>The interface of a byte sink: one operation that appends its argument. What a client gets from
  it is that it may send its data in pieces.\<close>

locale byte_sink =
  fixes ok :: "'b \<Rightarrow> bool" and cont :: "'b \<Rightarrow> byte list" and put :: "'b \<Rightarrow> byte list \<Rightarrow> 'b option"
  assumes put_appends: "appends ok cont (\<lambda>b. put b xs) xs"
begin

lemma put_twice: "appends ok cont (\<lambda>b. Option.bind (put b xs) (\<lambda>b. put b ys)) (xs @ ys)"
  by (intro appends_bind put_appends)

lemma put_total: "ok b \<Longrightarrow> put b xs \<noteq> None"
  using put_appends by (auto elim: appendsD)

lemma put_pieces: "appends ok cont (\<lambda>b. foldr (\<lambda>xs k b. Option.bind (put b xs) k) xss Some b) (concat xss)"
proof (induction xss)
  case Nil
  then show ?case by (simp add: appends_Some)
next
  case (Cons xs xss)
  from appends_bind [OF put_appends this] show ?case by simp
qed

end

section \<open>The buffer as a sink\<close>

definition buf_ok :: "MsgBuf \<Rightarrow> bool" where
  "buf_ok b \<longleftrightarrow> mb_len b \<le> length (mb_data b) \<and> length (mb_data b) \<le> mb_cap b \<and> 0 < mb_cap b"

definition contents :: "MsgBuf \<Rightarrow> byte list" where
  "contents b = take (mb_len b) (mb_data b)"

lemma contents_length: "buf_ok b \<Longrightarrow> length (contents b) = mb_len b"
  by (simp add: contents_def buf_ok_def)

lemma buf_ok_init [simp]: "0 < n \<Longrightarrow> buf_ok (msgbuf_init n)" "contents (msgbuf_init n) = []"
  by (simp_all add: buf_ok_def msgbuf_init_def contents_def)

lemma buf_ok_reset [simp]: "buf_ok b \<Longrightarrow> buf_ok (msgbuf_reset b)" "contents (msgbuf_reset b) = []"
  by (simp_all add: buf_ok_def msgbuf_reset_def contents_def)

lemma ensure_ok:
  assumes "buf_ok b"
  obtains b' where "msgbuf_ensure b n = Some b'" "buf_ok b'" "mb_len b' + n \<le> mb_cap b'"
    "mb_len b' = mb_len b" "mb_data b' = mb_data b" "mb_pos b' = mb_pos b"
proof (cases "mb_len b + n \<le> mb_cap b")
  case True
  with assms show ?thesis by (intro that [of b]) (simp_all add: msgbuf_ensure_def)
next
  case False
  obtain c where c: "grow_cap (mb_cap b * 2) (mb_len b + n) = Some c" "mb_len b + n \<le> c" "mb_cap b * 2 \<le> c"
    using grow_cap_total [of "mb_cap b * 2" "mb_len b + n"] assms by (auto simp: buf_ok_def)
  with False assms show ?thesis
    by (intro that [of "b\<lparr>mb_cap := c\<rparr>"]) (auto simp: msgbuf_ensure_def buf_ok_def)
qed

lemma append_ok:
  assumes "buf_ok b" "mb_len b + length xs \<le> mb_cap b"
  shows "\<exists>b'. msgbuf_append b xs = Some b' \<and> buf_ok b' \<and> contents b' = contents b @ xs"
  using assms
  by (auto simp: msgbuf_append_def mem_write_def buf_ok_def contents_def)

lemma ensure_append:
  assumes "n = length xs"
  shows "appends buf_ok contents (\<lambda>b. Option.bind (msgbuf_ensure b n) (\<lambda>b. msgbuf_append b xs)) xs"
  unfolding appends_def
proof (intro allI impI)
  fix b assume "buf_ok b"
  then obtain b1 where b1: "msgbuf_ensure b n = Some b1" "buf_ok b1" "mb_len b1 + n \<le> mb_cap b1"
    "mb_len b1 = mb_len b" "mb_data b1 = mb_data b" by (rule ensure_ok)
  then show "\<exists>b'. Option.bind (msgbuf_ensure b n) (\<lambda>b. msgbuf_append b xs) = Some b' \<and> buf_ok b' \<and>
      contents b' = contents b @ xs"
    using append_ok [OF b1(2), of xs] assms by (simp add: contents_def)
qed

lemma put_appends [buf_simps]:
  "appends buf_ok contents (\<lambda>b. msgbuf_put_byte b c) [c]"
  "appends buf_ok contents (\<lambda>b. msgbuf_put_int16 b h) (htons_bytes h)"
  "appends buf_ok contents (\<lambda>b. msgbuf_put_int32 b i) (htonl_bytes i)"
  "appends buf_ok contents (\<lambda>b. msgbuf_put_string b s) (s @ [NUL])"
  "appends buf_ok contents (\<lambda>b. msgbuf_put_bytes b xs) xs"
  by (simp_all add: msgbuf_put_byte_def msgbuf_put_int16_def msgbuf_put_int32_def msgbuf_put_string_def
      msgbuf_put_bytes_def ensure_append)

interpretation mb: byte_sink buf_ok contents msgbuf_put_bytes
  by unfold_locales (rule put_appends(5))

section \<open>Frames\<close>

text \<open>A message on the wire: its type, its length (which counts itself), its payload.\<close>

definition frame :: "byte \<Rightarrow> byte list \<Rightarrow> byte list" where
  "frame ty payload = ty # htonl_bytes (word_of_nat (4 + length payload)) @ payload"

lemma msg_begin_ok:
  assumes "buf_ok b"
  shows "\<exists>b'. msg_begin b ty = Some (b', length (contents b) + 1) \<and> buf_ok b' \<and>
    contents b' = contents b @ ty # htonl_bytes 0"
proof -
  obtain b1 where b1: "msgbuf_put_byte b ty = Some b1" "buf_ok b1" "contents b1 = contents b @ [ty]"
    using put_appends(1) assms by (rule appendsD)
  obtain b2 where "msgbuf_put_int32 b1 0 = Some b2" "buf_ok b2" "contents b2 = contents b1 @ htonl_bytes 0"
    using put_appends(3) b1(2) by (rule appendsD)
  with b1 contents_length [OF b1(2)] show ?thesis by (simp add: msg_begin_def)
qed

lemma msg_end_ok:
  assumes "buf_ok b" "contents b = pre @ lenb @ payload" "length lenb = 4"
  shows "\<exists>b'. msg_end b (length pre) = Some b' \<and> buf_ok b' \<and>
    contents b' = pre @ htonl_bytes (word_of_nat (4 + length payload)) @ payload"
proof -
  have len: "mb_len b = length pre + 4 + length payload"
    using contents_length [OF assms(1)] assms(2,3) by simp
  have d: "mb_data b = pre @ lenb @ payload @ drop (mb_len b) (mb_data b)"
    using assms(2) append_take_drop_id [of "mb_len b" "mb_data b"] by (simp add: contents_def)
  obtain rest where rest: "mb_data b = pre @ lenb @ payload @ rest" using d by blast
  show ?thesis
    using assms(1,3) len unfolding msg_end_def
    by (simp add: mem_write_def rest buf_ok_def contents_def)
qed

text \<open>Everything between \<open>msg_begin\<close> and \<open>msg_end\<close> becomes the payload of one frame.\<close>

lemma framed:
  assumes "appends buf_ok contents body p" "\<And>b off. k b off = Option.bind (body b) (\<lambda>b. msg_end b off)"
  shows "appends buf_ok contents (\<lambda>b. Option.bind (msg_begin b ty) (\<lambda>(b, off). k b off)) (frame ty p)"
  unfolding appends_def
proof (intro allI impI)
  fix b assume "buf_ok b"
  then obtain b1 where b1: "msg_begin b ty = Some (b1, length (contents b) + 1)" "buf_ok b1"
      "contents b1 = contents b @ ty # htonl_bytes 0"
    using msg_begin_ok by blast
  from assms(1) b1(2) obtain b2 where b2: "body b1 = Some b2" "buf_ok b2" "contents b2 = contents b1 @ p"
    by (rule appendsD)
  have "contents b2 = (contents b @ [ty]) @ htonl_bytes 0 @ p" using b1(3) b2(3) by simp
  from msg_end_ok [OF b2(2) this] obtain b3 where "msg_end b2 (length (contents b) + 1) = Some b3"
    "buf_ok b3" "contents b3 = (contents b @ [ty]) @ htonl_bytes (word_of_nat (4 + length p)) @ p" by auto
  with b1(1) b2(1) show "\<exists>b'. Option.bind (msg_begin b ty) (\<lambda>(b, off). k b off) = Some b' \<and>
      buf_ok b' \<and> contents b' = contents b @ frame ty p"
    by (simp add: assms(2) frame_def)
qed

lemma msg_write_appends [buf_simps]:
  "appends buf_ok contents msg_write_auth_ok (frame MSG_AUTH_REQUEST (htonl_bytes AUTH_OK))"
  "appends buf_ok contents (\<lambda>b. msg_write_param_status b n v) (frame MSG_PARAM_STATUS ((n @ [NUL]) @ v @ [NUL]))"
  "appends buf_ok contents (\<lambda>b. msg_write_backend_key b i j) (frame MSG_BACKEND_KEY (htonl_bytes i @ htonl_bytes j))"
  "appends buf_ok contents (\<lambda>b. msg_write_ready_for_query b c) (frame MSG_READY_FOR_QUERY [c])"
  "appends buf_ok contents (\<lambda>b. msg_write_error b sev code m)
     (frame MSG_ERROR_RESPONSE ([CHR ''S''] @ (sev @ [NUL]) @ [CHR ''C''] @ (code @ [NUL]) @
        [CHR ''M''] @ (m @ [NUL]) @ [NUL]))"
  "appends buf_ok contents (\<lambda>b. msg_write_command_complete b tag) (frame MSG_CMD_COMPLETE (tag @ [NUL]))"
  unfolding msg_write_auth_ok_def msg_write_param_status_def msg_write_backend_key_def
    msg_write_ready_for_query_def msg_write_error_def msg_write_command_complete_def
  by (rule framed, (rule appends_bind put_appends)+, simp add: Option.bind_assoc)+

section \<open>Reading a stream of frames\<close>

text \<open>How the receiver of a stream cuts it into messages; \<open>None\<close> if it does not end with a whole
  message.\<close>

function parse_frames :: "byte list \<Rightarrow> (byte \<times> byte list) list option" where
  "parse_frames bs =
     (if bs = [] then Some []
      else if length bs < 5 then None
      else
        let n = unat (ntohl_bytes (take 4 (tl bs))) in
        if n < 4 \<or> length bs < 1 + n then None
        else map_option (Cons (hd bs, take (n - 4) (drop 5 bs))) (parse_frames (drop (1 + n) bs)))"
  by pat_completeness auto
termination
  by (relation "measure length") auto

declare parse_frames.simps [simp del]

definition fits :: "byte list \<Rightarrow> bool" where
  "fits payload \<longleftrightarrow> 4 + length payload < 2 ^ 32"

lemma parse_frames_Nil [simp]: "parse_frames [] = Some []"
  by (subst parse_frames.simps) simp

lemma parse_frame:
  assumes "fits p"
  shows "parse_frames (frame ty p @ rest) = map_option (Cons (ty, p)) (parse_frames rest)"
proof -
  have n: "unat (word_of_nat (4 + length p) :: 32 word) = 4 + length p"
    using assms by (subst unsigned_of_nat) (simp add: fits_def take_bit_nat_eq_self)
  let ?bs = "frame ty p @ rest"
  have bs: "?bs \<noteq> []" "\<not> length ?bs < 5" "take 4 (tl ?bs) = htonl_bytes (word_of_nat (4 + length p))"
    "hd ?bs = ty" "length ?bs = 5 + length p + length rest"
    by (simp_all add: frame_def)
  have dr: "drop 5 ?bs = p @ rest" by (simp add: frame_def)
  then have dr': "drop (1 + (4 + length p)) ?bs = rest"
    using drop_drop [of "length p" 5 ?bs] by (simp add: add.commute)
  have n': "unat (ntohl_bytes (take 4 (tl ?bs))) = 4 + length p"
    by (simp only: bs(3) ntohl_htonl n)
  have "parse_frames ?bs = map_option (Cons (hd ?bs, take (4 + length p - 4) (drop 5 ?bs)))
      (parse_frames (drop (1 + (4 + length p)) ?bs))"
    using bs(1,2,5) by (subst parse_frames.simps) (simp only: n' Let_def, simp)
  then show ?thesis by (simp only: bs(4) dr dr') simp
qed

lemma parse_frames_concat:
  "list_all (\<lambda>m. fits (snd m)) ms \<Longrightarrow>
    parse_frames (concat (map (\<lambda>m. frame (fst m) (snd m)) ms) @ rest) = map_option (append ms) (parse_frames rest)"
proof (induction ms)
  case Nil
  have "append [] = (\<lambda>x :: (byte \<times> byte list) list. x)" by (simp add: fun_eq_iff)
  then show ?case by (simp add: option.map_ident)
next
  case (Cons m ms)
  then show ?case by (simp add: parse_frame option.map_comp o_def)
qed

section \<open>Properties\<close>

text \<open>C23: Each of the message writers returns on every well-formed buffer and appends exactly one
  frame to it: type byte, a length that counts itself and the payload but not the type, and the
  fields of the message in order; what was in the buffer stays.\<close>

theorem writers_append_frames:
  "appends buf_ok contents msg_write_auth_ok (frame MSG_AUTH_REQUEST (htonl_bytes 0)) \<and>
   appends buf_ok contents (\<lambda>b. msg_write_param_status b n v) (frame MSG_PARAM_STATUS (n @ NUL # v @ [NUL])) \<and>
   appends buf_ok contents (\<lambda>b. msg_write_backend_key b i j) (frame MSG_BACKEND_KEY (htonl_bytes i @ htonl_bytes j)) \<and>
   appends buf_ok contents (\<lambda>b. msg_write_ready_for_query b c) (frame MSG_READY_FOR_QUERY [c]) \<and>
   appends buf_ok contents (\<lambda>b. msg_write_error b sev code m)
     (frame MSG_ERROR_RESPONSE (CHR ''S'' # sev @ NUL # CHR ''C'' # code @ NUL # CHR ''M'' # m @ [NUL, NUL])) \<and>
   appends buf_ok contents (\<lambda>b. msg_write_command_complete b tag) (frame MSG_CMD_COMPLETE (tag @ [NUL]))"
  using msg_write_appends by (simp add: AUTH_OK_def)



lemma read_back:
  assumes "appends buf_ok contents f xs" "buf_ok b" "f b = Some b'"
  shows "mem_read (mb_len b) (length xs) (mb_data b') = Some xs"
    and "take (length xs) (drop (mb_len b) (mb_data b')) = xs"
    and "drop (mb_len b) (mb_data b') = xs @ drop (length xs) (drop (mb_len b) (mb_data b'))"
proof -
  from assms obtain "buf_ok b'" "contents b' = contents b @ xs" by (auto elim: appendsD)
  then have len: "mb_len b' = mb_len b + length xs" "mb_len b' \<le> length (mb_data b')"
    and c: "take (mb_len b') (mb_data b') = contents b @ xs"
    using contents_length [OF assms(2)] contents_length [of b'] by (auto simp: buf_ok_def contents_def)
  show tk: "take (length xs) (drop (mb_len b) (mb_data b')) = xs"
    using arg_cong [OF c, of "drop (mb_len b)"] len contents_length [OF assms(2)] by (simp add: drop_take)
  then show "mem_read (mb_len b) (length xs) (mb_data b') = Some xs"
    using len by (simp add: mem_read_def)
  show "drop (mb_len b) (mb_data b') = xs @ drop (length xs) (drop (mb_len b) (mb_data b'))"
    using append_take_drop_id [of "length xs" "drop (mb_len b) (mb_data b')"] unfolding tk by simp
qed

text \<open>Reading a value at the position where it was written gives it back, for bytes, 16- and
  32-bit integers in network byte order, and strings without a NUL; the read position moves behind
  it.\<close>

theorem put_get_round_trip:
  assumes "buf_ok b"
  shows "(\<exists>b'. msgbuf_put_byte b c = Some b' \<and>
      msgbuf_get_byte (b'\<lparr>mb_pos := mb_len b\<rparr>) = Some (c, b'\<lparr>mb_pos := mb_len b + 1\<rparr>)) \<and>
    (\<exists>b'. msgbuf_put_int16 b h = Some b' \<and>
      msgbuf_get_int16 (b'\<lparr>mb_pos := mb_len b\<rparr>) = Some (h, b'\<lparr>mb_pos := mb_len b + 2\<rparr>)) \<and>
    (\<exists>b'. msgbuf_put_int32 b i = Some b' \<and>
      msgbuf_get_int32 (b'\<lparr>mb_pos := mb_len b\<rparr>) = Some (i, b'\<lparr>mb_pos := mb_len b + 4\<rparr>)) \<and>
    (NUL \<notin> set s \<longrightarrow> (\<exists>b'. msgbuf_put_string b s = Some b' \<and>
      msgbuf_get_string (b'\<lparr>mb_pos := mb_len b\<rparr>) = Some (s, b'\<lparr>mb_pos := mb_len b + length s + 1\<rparr>)))"
proof -
  obtain b1 where b1: "msgbuf_put_byte b c = Some b1" using put_appends(1) assms by (rule appendsD)
  obtain b2 where b2: "msgbuf_put_int16 b h = Some b2" using put_appends(2) assms by (rule appendsD)
  obtain b3 where b3: "msgbuf_put_int32 b i = Some b3" using put_appends(3) assms by (rule appendsD)
  obtain b4 where b4: "msgbuf_put_string b s = Some b4" using put_appends(4) assms by (rule appendsD)
  have "c_str_at (mb_len b) (mb_data b4) = Some s" if "NUL \<notin> set s"
    unfolding c_str_at_def using that by (subst read_back(3) [OF put_appends(4) assms b4]) simp
  then show ?thesis
    using b1 b2 b3 b4 read_back(1) [OF put_appends(1) assms b1] read_back(1) [OF put_appends(2) assms b2]
      read_back(1) [OF put_appends(3) assms b3]
    by (simp add: msgbuf_get_byte_def msgbuf_get_int16_def msgbuf_get_int32_def msgbuf_get_string_def)
qed

theorem put_get_round_trip_witness:
  "\<exists>b'. msgbuf_put_int32 (msgbuf_init 1) 305419896 = Some b' \<and>
     msgbuf_get_int32 (b'\<lparr>mb_pos := 0\<rparr>) = Some (305419896, b'\<lparr>mb_pos := 4\<rparr>)"
  using put_get_round_trip [of "msgbuf_init 1" NUL 0 305419896 "[]"] by (simp add: msgbuf_init_def buf_ok_def)



end
