(* ===== verification/Externals.thy ===== *)
theory Externals
  imports Sharegres_Prelude
begin

text \<open>
  The code Sharegres calls and does not contain: libpq (the connections to the PostgreSQL
  backends) and the system calls on sockets and on the epoll instance. They are the fields of
  one record \<open>ext\<close> that the definitions of the model take as an argument \<open>E\<close>; the state of the
  outside world has an arbitrary type \<open>'w\<close> that the calls read and change. A connection pointer
  is \<open>None\<close> for NULL. What a proof relies on of these calls is a named predicate on \<open>E\<close>.
\<close>

type_synonym PGconn = "nat option"

text \<open>The code only asks whether a connection is \<open>CONNECTION_OK\<close>; \<open>CONNECTION_BAD\<close> stands for
  every other state.\<close>

datatype ConnStatusType = CONNECTION_OK | CONNECTION_BAD

datatype PGTransactionStatusType =
  PQTRANS_IDLE | PQTRANS_ACTIVE | PQTRANS_INTRANS | PQTRANS_INERROR | PQTRANS_UNKNOWN

datatype ExecStatusType =
    PGRES_EMPTY_QUERY | PGRES_COMMAND_OK | PGRES_TUPLES_OK | PGRES_COPY_OUT | PGRES_COPY_IN
  | PGRES_BAD_RESPONSE | PGRES_NONFATAL_ERROR | PGRES_FATAL_ERROR | PGRES_COPY_BOTH
  | PGRES_SINGLE_TUPLE | PGRES_PIPELINE_SYNC | PGRES_PIPELINE_ABORTED

text \<open>A result object, by what its accessor functions return; a value is \<open>None\<close> for an SQL null.
  libpq answers "is null" for a row or column number out of range.\<close>

record PGfield =
  PQfname :: cstring
  PQftype :: "32 word"
  PQfsize :: int
  PQfmod :: int

record PGresult =
  PQresultStatus :: ExecStatusType
  pg_fields :: "PGfield list"
  pg_rows :: "byte list option list list"
  PQcmdStatus :: cstring
  diag_severity :: "cstring option"
  diag_sqlstate :: "cstring option"
  diag_primary :: "cstring option"
  diag_detail :: "cstring option"

definition PQnfields :: "PGresult \<Rightarrow> nat" where
  "PQnfields res = length (pg_fields res)"

definition PQntuples :: "PGresult \<Rightarrow> nat" where
  "PQntuples res = length (pg_rows res)"

definition pg_value :: "PGresult \<Rightarrow> nat \<Rightarrow> nat \<Rightarrow> byte list option" where
  "pg_value res r c =
     (if r < length (pg_rows res) \<and> c < length (pg_rows res ! r) then pg_rows res ! r ! c else None)"

text \<open>What \<open>send\<close> and \<open>recv\<close> return: a count or the data, would-block, or another error.\<close>

datatype send_result = Sent nat | Send_Again | Send_Error

datatype recv_result = Received "byte list" | Recv_Again | Recv_Error

text \<open>The event masks the code uses.\<close>

datatype ep_event = EPOLLIN | EPOLLOUT | EPOLLERR | EPOLLHUP

datatype ep_op = EPOLL_CTL_ADD | EPOLL_CTL_MOD | EPOLL_CTL_DEL

text \<open>The event handlers that are registered with epoll, by what they are part of: the listener, the
  client socket or the backend connection of a session, or one of its scatter connections. A
  session is named by the address of its structure.\<close>

datatype handler_ptr = HP_Listener | HP_Client nat | HP_Backend nat | HP_Scatter nat nat

record 'w ext =
  PQstatus :: "PGconn \<Rightarrow> 'w \<Rightarrow> ConnStatusType"
  PQconnectdb :: "cstring option \<Rightarrow> 'w \<Rightarrow> PGconn \<times> 'w"
  PQfinish :: "PGconn \<Rightarrow> 'w \<Rightarrow> 'w"
  PQtransactionStatus :: "PGconn \<Rightarrow> 'w \<Rightarrow> PGTransactionStatusType"
  PQerrorMessage :: "PGconn \<Rightarrow> 'w \<Rightarrow> cstring"
  PQsetnonblocking :: "PGconn \<Rightarrow> 'w \<Rightarrow> 'w"
  PQsocket :: "PGconn \<Rightarrow> 'w \<Rightarrow> int"
  PQsendQuery :: "PGconn \<Rightarrow> cstring \<Rightarrow> 'w \<Rightarrow> int \<times> 'w"
  PQflush :: "PGconn \<Rightarrow> 'w \<Rightarrow> 'w"
  PQconsumeInput :: "PGconn \<Rightarrow> 'w \<Rightarrow> int \<times> 'w"
  PQisBusy :: "PGconn \<Rightarrow> 'w \<Rightarrow> bool \<times> 'w"
  PQgetResult :: "PGconn \<Rightarrow> 'w \<Rightarrow> PGresult option \<times> 'w"
  PQputCopyData :: "PGconn \<Rightarrow> byte list \<Rightarrow> int \<Rightarrow> 'w \<Rightarrow> int \<times> 'w"
  PQputCopyEnd :: "PGconn \<Rightarrow> cstring option \<Rightarrow> 'w \<Rightarrow> int \<times> 'w"
  PQgetCopyData :: "PGconn \<Rightarrow> 'w \<Rightarrow> (int \<times> byte list) \<times> 'w"
  sys_send :: "int \<Rightarrow> byte list \<Rightarrow> 'w \<Rightarrow> send_result \<times> 'w"
  sys_recv :: "int \<Rightarrow> nat \<Rightarrow> 'w \<Rightarrow> recv_result \<times> 'w"
  sys_close :: "int \<Rightarrow> 'w \<Rightarrow> 'w"
  fcntl_getfl :: "int \<Rightarrow> 'w \<Rightarrow> int"
  fcntl_setfl :: "int \<Rightarrow> int \<Rightarrow> 'w \<Rightarrow> int \<times> 'w"
  epoll_ctl :: "ep_op \<Rightarrow> int \<Rightarrow> (handler_ptr \<times> ep_event set) option \<Rightarrow> 'w \<Rightarrow> int \<times> 'w"

text \<open>Documented behaviour of libpq that proofs name as a hypothesis: \<open>PQfinish\<close> closes the
  connection it is given and no other one.\<close>

definition finish_is_local :: "'w ext \<Rightarrow> bool" where
  "finish_is_local E \<longleftrightarrow> (\<forall>c d w. d \<noteq> c \<longrightarrow> PQstatus E d (PQfinish E c w) = PQstatus E d w)"

section \<open>A concrete outside world\<close>

text \<open>
  An instance of \<open>ext\<close> on which the examples of the development are evaluated: connections are
  numbered, a new one gets a number that is not in use, some may be dead or inside a
  transaction; sockets deliver scripted chunks of input and record what is sent to them; a
  backend delivers scripted results.
\<close>

record lab =
  lab_open :: "nat list"
  lab_dead :: "nat list"
  lab_txn :: "nat list"
  lab_results :: "(nat \<times> PGresult list) list"
  lab_queries :: "(nat \<times> cstring) list"
  lab_copied :: "(nat \<times> byte list) list"
  lab_input :: "byte list list"
  lab_sent :: "byte list"
  lab_closed :: "int list"

definition lab_zero :: lab where
  "lab_zero = \<lparr>lab_open = [], lab_dead = [], lab_txn = [], lab_results = [], lab_queries = [],
     lab_copied = [], lab_input = [], lab_sent = [], lab_closed = []\<rparr>"

definition lab_get_result :: "PGconn \<Rightarrow> lab \<Rightarrow> PGresult option \<times> lab" where
  "lab_get_result c w =
     (case c of
        None \<Rightarrow> (None, w)
      | Some n \<Rightarrow>
          (case map_of (lab_results w) n of
             Some (r # rs) \<Rightarrow> (Some r, w\<lparr>lab_results := (n, rs) # lab_results w\<rparr>)
           | _ \<Rightarrow> (None, w)))"

definition lab_ext :: "lab ext" where
  "lab_ext = \<lparr>
     PQstatus = (\<lambda>c w. case c of None \<Rightarrow> CONNECTION_BAD
       | Some n \<Rightarrow> if n \<in> set (lab_open w) \<and> n \<notin> set (lab_dead w) then CONNECTION_OK else CONNECTION_BAD),
     PQconnectdb = (\<lambda>ci w. let n = Suc (foldr max (lab_open w) 0) in
       (Some n, w\<lparr>lab_open := n # lab_open w\<rparr>)),
     PQfinish = (\<lambda>c w. case c of None \<Rightarrow> w | Some n \<Rightarrow> w\<lparr>lab_open := removeAll n (lab_open w)\<rparr>),
     PQtransactionStatus = (\<lambda>c w. case c of None \<Rightarrow> PQTRANS_UNKNOWN
       | Some n \<Rightarrow> if n \<in> set (lab_txn w) then PQTRANS_INTRANS else PQTRANS_IDLE),
     PQerrorMessage = (\<lambda>c w. ''connection lost''),
     PQsetnonblocking = (\<lambda>c w. w),
     PQsocket = (\<lambda>c w. case c of None \<Rightarrow> - 1 | Some n \<Rightarrow> 100 + int n),
     PQsendQuery = (\<lambda>c q w. case c of None \<Rightarrow> (0, w)
       | Some n \<Rightarrow> (1, w\<lparr>lab_queries := lab_queries w @ [(n, q)]\<rparr>)),
     PQflush = (\<lambda>c w. w),
     PQconsumeInput = (\<lambda>c w. (1, w)),
     PQisBusy = (\<lambda>c w. (False, w)),
     PQgetResult = lab_get_result,
     PQputCopyData = (\<lambda>c d n w. case c of None \<Rightarrow> (- 1, w)
       | Some k \<Rightarrow> (1, w\<lparr>lab_copied := lab_copied w @ [(k, d)]\<rparr>)),
     PQputCopyEnd = (\<lambda>c m w. (1, w)),
     PQgetCopyData = (\<lambda>c w. ((- 1, []), w)),
     sys_send = (\<lambda>fd d w. (Sent (length d), w\<lparr>lab_sent := lab_sent w @ d\<rparr>)),
     sys_recv = (\<lambda>fd n w. case lab_input w of [] \<Rightarrow> (Recv_Again, w)
       | d # ds \<Rightarrow> (Received (take n d), w\<lparr>lab_input := (if length d \<le> n then ds else drop n d # ds)\<rparr>)),
     sys_close = (\<lambda>fd w. w\<lparr>lab_closed := fd # lab_closed w\<rparr>),
     fcntl_getfl = (\<lambda>fd w. 2),
     fcntl_setfl = (\<lambda>fd fl w. (0, w)),
     epoll_ctl = (\<lambda>op fd ev w. (0, w))\<rparr>"

end
