(* ===== verification/Conn_Pool.thy ===== *)
theory Conn_Pool
  imports Externals "HOL-Library.Sublist"
begin

text \<open>
  \<open>src/pool/conn_pool.c\<close>: the connections to one shard. The array \<open>idle_conns\<close> holds the idle
  connections in its first \<open>idle_count\<close> cells; a connection that is checked out is counted in
  \<open>active_count\<close>. Every access to the array is checked against its length.
\<close>

record ConnPool =
  pool_conninfo :: "cstring option"
  idle_conns :: "PGconn list"
  idle_count :: int
  max_size :: int
  active_count :: int

definition conn_pool_zero :: ConnPool where
  "conn_pool_zero = \<lparr>pool_conninfo = None, idle_conns = [], idle_count = 0, max_size = 0, active_count = 0\<rparr>"

text \<open>\<open>strdup\<close> of a NULL connection string faults.\<close>

definition conn_pool_init :: "cstring option \<Rightarrow> int \<Rightarrow> ConnPool option" where
  "conn_pool_init conninfo maxsz =
     (case conninfo of
        None \<Rightarrow> None
      | Some ci \<Rightarrow> Some \<lparr>pool_conninfo = Some ci, idle_conns = replicate (nat maxsz) None,
          idle_count = 0, max_size = maxsz, active_count = 0\<rparr>)"

fun finish_idle :: "'w ext \<Rightarrow> PGconn list \<Rightarrow> 'w \<Rightarrow> 'w" where
  "finish_idle E [] w = w"
| "finish_idle E (c # cs) w = finish_idle E cs (if c \<noteq> None then PQfinish E c w else w)"

definition conn_pool_destroy :: "'w ext \<Rightarrow> ConnPool \<Rightarrow> 'w \<Rightarrow> (ConnPool \<times> 'w) option" where
  "conn_pool_destroy E pool w =
     (if nat (idle_count pool) \<le> length (idle_conns pool)
      then Some (conn_pool_zero, finish_idle E (take (nat (idle_count pool)) (idle_conns pool)) w)
      else None)"

function conn_pool_acquire :: "'w ext \<Rightarrow> ConnPool \<Rightarrow> 'w \<Rightarrow> (PGconn \<times> ConnPool \<times> 'w) option" where
  "conn_pool_acquire E pool w =
     (if 0 < idle_count pool then
        let i = nat (idle_count pool - 1) in
        if i < length (idle_conns pool) then
          let conn = idle_conns pool ! i;
              pool = pool\<lparr>idle_count := idle_count pool - 1, idle_conns := (idle_conns pool)[i := None]\<rparr>
          in if PQstatus E conn w = CONNECTION_OK
             then Some (conn, pool\<lparr>active_count := active_count pool + 1\<rparr>, w)
             else conn_pool_acquire E pool (PQfinish E conn w)
        else None
      else if max_size pool \<le> active_count pool then Some (None, pool, w)
      else
        let (conn, w) = PQconnectdb E (pool_conninfo pool) w in
        if PQstatus E conn w \<noteq> CONNECTION_OK then Some (None, pool, PQfinish E conn w)
        else Some (conn, pool\<lparr>active_count := active_count pool + 1\<rparr>, w))"
  by pat_completeness auto
termination
  by (relation "measure (\<lambda>(E, pool, w). nat (idle_count pool))") auto

declare conn_pool_acquire.simps [simp del]

definition conn_pool_release :: "'w ext \<Rightarrow> ConnPool \<Rightarrow> PGconn \<Rightarrow> 'w \<Rightarrow> (ConnPool \<times> 'w) option" where
  "conn_pool_release E pool conn w =
     (if conn = None then Some (pool, w)
      else
        let pool = pool\<lparr>active_count := active_count pool - 1\<rparr> in
        if PQstatus E conn w \<noteq> CONNECTION_OK then Some (pool, PQfinish E conn w)
        else if PQtransactionStatus E conn w \<noteq> PQTRANS_IDLE then Some (pool, PQfinish E conn w)
        else if idle_count pool < max_size pool then
          (if 0 \<le> idle_count pool \<and> nat (idle_count pool) < length (idle_conns pool)
           then Some (pool\<lparr>idle_conns := (idle_conns pool)[nat (idle_count pool) := conn],
             idle_count := idle_count pool + 1\<rparr>, w)
           else None)
        else Some (pool, PQfinish E conn w))"

text \<open>The inner loop of the health check moves the cells above \<open>i\<close> down by one.\<close>

definition shift_down :: "nat \<Rightarrow> nat \<Rightarrow> 'a list \<Rightarrow> 'a list" where
  "shift_down i n xs = fold (\<lambda>j a. a[j := a ! (j + 1)]) [i..<n - 1] xs"

fun health_loop :: "'w ext \<Rightarrow> nat \<Rightarrow> ConnPool \<Rightarrow> 'w \<Rightarrow> (ConnPool \<times> 'w) option" where
  "health_loop E 0 pool w = Some (pool, w)"
| "health_loop E (Suc i) pool w =
     (if i < length (idle_conns pool) \<and> nat (idle_count pool) \<le> length (idle_conns pool) then
        let conn = idle_conns pool ! i in
        if PQstatus E conn w \<noteq> CONNECTION_OK then
          health_loop E i
            (pool\<lparr>idle_conns := shift_down i (nat (idle_count pool)) (idle_conns pool),
               idle_count := idle_count pool - 1\<rparr>)
            (PQfinish E conn w)
        else health_loop E i pool w
      else None)"

definition conn_pool_health_check :: "'w ext \<Rightarrow> ConnPool \<Rightarrow> 'w \<Rightarrow> (ConnPool \<times> 'w) option" where
  "conn_pool_health_check E pool w = health_loop E (nat (idle_count pool)) pool w"

section \<open>Invariant\<close>

definition idle_list :: "ConnPool \<Rightarrow> PGconn list" where
  "idle_list pool = take (nat (idle_count pool)) (idle_conns pool)"

definition pool_inv :: "ConnPool \<Rightarrow> bool" where
  "pool_inv pool \<longleftrightarrow>
     0 \<le> idle_count pool \<and> 0 \<le> active_count pool \<and>
     idle_count pool + active_count pool \<le> max_size pool \<and>
     length (idle_conns pool) = nat (max_size pool) \<and>
     list_all (\<lambda>c. c \<noteq> None) (idle_list pool)"

lemma pool_inv_init:
  "0 \<le> maxsz \<Longrightarrow> \<exists>pool. conn_pool_init (Some ci) maxsz = Some pool \<and> pool_inv pool \<and>
     idle_list pool = [] \<and> active_count pool = 0 \<and> max_size pool = maxsz"
  by (simp add: conn_pool_init_def pool_inv_def idle_list_def)

lemma pool_inv_length: "pool_inv pool \<Longrightarrow> length (idle_list pool) = nat (idle_count pool)"
  by (auto simp: pool_inv_def idle_list_def)

lemma idle_list_pop:
  assumes "pool_inv pool" "0 < idle_count pool"
  shows "idle_list pool = take (nat (idle_count pool - 1)) (idle_conns pool) @
      [idle_conns pool ! nat (idle_count pool - 1)]"
proof -
  have "nat (idle_count pool) = Suc (nat (idle_count pool - 1))"
    using assms(2) by simp
  moreover have "nat (idle_count pool - 1) < length (idle_conns pool)"
    using assms by (auto simp: pool_inv_def)
  ultimately show ?thesis
    by (simp add: idle_list_def take_Suc_conv_app_nth)
qed

definition pop_idle :: "ConnPool \<Rightarrow> ConnPool" where
  "pop_idle pool = pool\<lparr>idle_count := idle_count pool - 1,
     idle_conns := (idle_conns pool)[nat (idle_count pool - 1) := None]\<rparr>"

lemma pop_idle_facts:
  assumes "pool_inv pool" "0 < idle_count pool"
  shows "pool_inv (pop_idle pool)"
    and "idle_list (pop_idle pool) = butlast (idle_list pool)"
    and "pool_inv (pop_idle pool\<lparr>active_count := active_count pool + 1\<rparr>)"
proof -
  show il: "idle_list (pop_idle pool) = butlast (idle_list pool)"
    unfolding idle_list_pop [OF assms] by (simp add: idle_list_def pop_idle_def)
  have ok: "list_all (\<lambda>c. c \<noteq> None) (butlast (idle_list pool))"
    using assms(1) by (auto simp: pool_inv_def list_all_iff dest: in_set_butlastD)
  show "pool_inv (pop_idle pool)"
    using assms ok unfolding pool_inv_def il by (simp add: pop_idle_def)
  have "idle_list (pop_idle pool\<lparr>active_count := active_count pool + 1\<rparr>) = butlast (idle_list pool)"
    using il by (simp add: idle_list_def)
  with assms ok show "pool_inv (pop_idle pool\<lparr>active_count := active_count pool + 1\<rparr>)"
    unfolding pool_inv_def by (simp add: pop_idle_def)
qed

lemma acquire_unfold:
  assumes "pool_inv pool"
  shows "conn_pool_acquire E pool w =
    (if idle_list pool = [] then
       if max_size pool \<le> active_count pool then Some (None, pool, w)
       else
         let (conn, w) = PQconnectdb E (pool_conninfo pool) w in
         if PQstatus E conn w \<noteq> CONNECTION_OK then Some (None, pool, PQfinish E conn w)
         else Some (conn, pool\<lparr>active_count := active_count pool + 1\<rparr>, w)
     else
       if PQstatus E (last (idle_list pool)) w = CONNECTION_OK
       then Some (last (idle_list pool), pop_idle pool\<lparr>active_count := active_count pool + 1\<rparr>, w)
       else conn_pool_acquire E (pop_idle pool) (PQfinish E (last (idle_list pool)) w))"
proof (cases "0 < idle_count pool")
  case True
  have ne: "idle_list pool \<noteq> []" "last (idle_list pool) = idle_conns pool ! nat (idle_count pool - 1)"
    using idle_list_pop [OF assms True] by simp_all
  have "nat (idle_count pool - 1) < length (idle_conns pool)"
    using assms True by (auto simp: pool_inv_def)
  then show ?thesis
    using True ne by (subst conn_pool_acquire.simps) (simp add: Let_def pop_idle_def)
next
  case False
  with assms pool_inv_length [OF assms] have "idle_list pool = []" by (simp add: pool_inv_def)
  with False show ?thesis by (subst conn_pool_acquire.simps) simp
qed

text \<open>Documented behaviour of libpq: a NULL connection is not \<open>CONNECTION_OK\<close>.\<close>

definition null_is_bad :: "'w ext \<Rightarrow> bool" where
  "null_is_bad E \<longleftrightarrow> (\<forall>w. PQstatus E None w = CONNECTION_BAD)"

lemma null_is_bad_not_None:
  "null_is_bad E \<Longrightarrow> PQstatus E c w = CONNECTION_OK \<Longrightarrow> c \<noteq> None"
  by (metis ConnStatusType.distinct(1) null_is_bad_def)

lemma pool_inv_active:
  "pool_inv pool \<Longrightarrow> idle_list pool = [] \<Longrightarrow> active_count pool < max_size pool \<Longrightarrow>
    pool_inv (pool\<lparr>active_count := active_count pool + 1\<rparr>)"
  using pool_inv_length [of pool] by (auto simp: pool_inv_def idle_list_def)

text \<open>What acquiring does, on every branch.\<close>

definition acquired :: "'w ext \<Rightarrow> ConnPool \<Rightarrow> PGconn \<Rightarrow> ConnPool \<Rightarrow> 'w \<Rightarrow> bool" where
  "acquired E pool conn pool' w' \<longleftrightarrow>
     pool_inv pool' \<and> max_size pool' = max_size pool \<and> pool_conninfo pool' = pool_conninfo pool \<and>
     prefix (idle_list pool') (idle_list pool) \<and>
     (if conn = None then active_count pool' = active_count pool \<and> idle_list pool' = []
      else active_count pool' = active_count pool + 1 \<and> PQstatus E conn w' = CONNECTION_OK)"

lemma acquire_facts:
  assumes "null_is_bad E" "pool_inv pool"
  shows "\<exists>conn pool' w'. conn_pool_acquire E pool w = Some (conn, pool', w') \<and>
    acquired E pool conn pool' w'"
  using assms(2)
proof (induction "length (idle_list pool)" arbitrary: pool w)
  case 0
  then have nil: "idle_list pool = []" by simp
  obtain c w1 where c: "PQconnectdb E (pool_conninfo pool) w = (c, w1)" by fastforce
  show ?case
    using 0(2) nil pool_inv_active [OF 0(2) nil] null_is_bad_not_None [OF assms(1), of c w1]
    by (subst acquire_unfold [OF 0(2)]) (auto simp: c acquired_def idle_list_def)
next
  case (Suc n)
  then have ne: "idle_list pool \<noteq> []" and pos: "0 < idle_count pool"
    using pool_inv_length [OF Suc(3)] by auto
  note pop = pop_idle_facts [OF Suc(3) pos]
  have pre: "prefix (idle_list (pop_idle pool)) (idle_list pool)"
    using ne by (simp add: pop(2) prefixeq_butlast)
  have fields: "max_size (pop_idle pool) = max_size pool" "pool_conninfo (pop_idle pool) = pool_conninfo pool"
    "active_count (pop_idle pool) = active_count pool" by (simp_all add: pop_idle_def)
  show ?case
  proof (cases "PQstatus E (last (idle_list pool)) w = CONNECTION_OK")
    case True
    have "idle_list (pop_idle pool\<lparr>active_count := active_count pool + 1\<rparr>) = idle_list (pop_idle pool)"
      by (simp add: idle_list_def)
    with True pre pop(3) fields null_is_bad_not_None [OF assms(1) True] ne show ?thesis
      by (subst acquire_unfold [OF Suc(3)]) (auto simp: acquired_def)
  next
    case False
    have "n = length (idle_list (pop_idle pool))" using Suc(2) pop(2) by simp
    from Suc(1) [OF this pop(1), of "PQfinish E (last (idle_list pool)) w"]
    obtain conn pool' w' where r: "conn_pool_acquire E (pop_idle pool) (PQfinish E (last (idle_list pool)) w) =
        Some (conn, pool', w')" "acquired E (pop_idle pool) conn pool' w'" by blast
    from r(2) pre fields have "acquired E pool conn pool' w'"
      by (auto simp: acquired_def dest: prefix_order.order_trans)
    with r(1) False ne show ?thesis by (subst acquire_unfold [OF Suc(3)]) simp
  qed
qed

text \<open>What releasing does: the connection goes back on top of the idle list exactly when it is
  healthy and outside a transaction, and is closed otherwise.\<close>

lemma release_facts:
  assumes "pool_inv pool" "0 < active_count pool" "c \<noteq> None"
  shows "\<exists>pool'. pool_inv pool' \<and> max_size pool' = max_size pool \<and>
    pool_conninfo pool' = pool_conninfo pool \<and> active_count pool' = active_count pool - 1 \<and>
    (if PQstatus E c w = CONNECTION_OK \<and> PQtransactionStatus E c w = PQTRANS_IDLE
     then conn_pool_release E pool c w = Some (pool', w) \<and> idle_list pool' = idle_list pool @ [c]
     else conn_pool_release E pool c w = Some (pool', PQfinish E c w) \<and> idle_list pool' = idle_list pool)"
proof (cases "PQstatus E c w = CONNECTION_OK \<and> PQtransactionStatus E c w = PQTRANS_IDLE")
  case True
  let ?p = "pool\<lparr>active_count := active_count pool - 1,
    idle_conns := (idle_conns pool)[nat (idle_count pool) := c], idle_count := idle_count pool + 1\<rparr>"
  have lt: "nat (idle_count pool) < length (idle_conns pool)" "0 \<le> idle_count pool"
    "idle_count pool < max_size pool"
    using assms by (auto simp: pool_inv_def)
  have il: "idle_list ?p = idle_list pool @ [c]"
    using lt by (simp add: idle_list_def nat_add_distrib take_Suc_conv_app_nth)
  have "pool_inv ?p"
    using assms unfolding pool_inv_def il by (simp add: list_all_iff)
  with True lt il assms(3) show ?thesis
    by (intro exI [of _ ?p]) (auto simp: conn_pool_release_def)
next
  case False
  with assms show ?thesis
    by (intro exI [of _ "pool\<lparr>active_count := active_count pool - 1\<rparr>"])
      (auto simp: conn_pool_release_def pool_inv_def idle_list_def Let_def)
qed

section \<open>Health check\<close>

lemma shift_down_list:
  "i < n \<Longrightarrow> n \<le> length xs \<Longrightarrow>
    shift_down i n xs = take i xs @ drop (Suc i) (take n xs) @ drop (n - 1) xs"
proof (induction "n - 1 - i" arbitrary: i xs)
  case 0
  then have "n = Suc i" by simp
  with 0 show ?case by (simp add: shift_down_def)
next
  case (Suc k)
  then have lt: "Suc i < n" by simp
  then have "[i..<n - 1] = i # [Suc i..<n - 1]" by (simp add: upt_conv_Cons)
  then have "shift_down i n xs = shift_down (Suc i) n (xs[i := xs ! Suc i])"
    by (simp add: shift_down_def)
  also have "\<dots> = take (Suc i) (xs[i := xs ! Suc i]) @ drop (Suc (Suc i)) (take n (xs[i := xs ! Suc i])) @
      drop (n - 1) (xs[i := xs ! Suc i])"
    using Suc.hyps(2) Suc.prems lt by (intro Suc.hyps(1)) auto
  also have "\<dots> = take i xs @ xs ! Suc i # drop (Suc (Suc i)) (take n xs) @ drop (n - 1) xs"
    using Suc.prems lt by (simp add: take_Suc_conv_app_nth drop_take)
  also have "xs ! Suc i # drop (Suc (Suc i)) (take n xs) @ drop (n - 1) xs =
      drop (Suc i) (take n xs) @ drop (n - 1) xs"
    using Suc.prems lt Cons_nth_drop_Suc [of "Suc i" "take n xs"] by simp
  finally show ?case by simp
qed

definition remove_at :: "nat \<Rightarrow> ConnPool \<Rightarrow> ConnPool" where
  "remove_at i pool = pool\<lparr>idle_conns := shift_down i (nat (idle_count pool)) (idle_conns pool),
     idle_count := idle_count pool - 1\<rparr>"

lemma remove_at_facts:
  assumes "pool_inv pool" "i < length (idle_list pool)"
  shows "pool_inv (remove_at i pool)"
    and "idle_list (remove_at i pool) = take i (idle_list pool) @ drop (Suc i) (idle_list pool)"
proof -
  let ?n = "nat (idle_count pool)"
  have n: "i < ?n" "?n \<le> length (idle_conns pool)"
    using assms by (auto simp: pool_inv_def idle_list_def)
  show il: "idle_list (remove_at i pool) = take i (idle_list pool) @ drop (Suc i) (idle_list pool)"
    using n by (auto simp: idle_list_def remove_at_def shift_down_list nat_diff_distrib min_def
      dest: le_antisym)
  have "list_all (\<lambda>c. c \<noteq> None) (idle_list (remove_at i pool))"
    using assms(1) unfolding il pool_inv_def by (auto simp: list_all_iff dest: in_set_takeD in_set_dropD)
  with assms n show "pool_inv (remove_at i pool)"
    unfolding pool_inv_def by (simp add: remove_at_def shift_down_list)
qed

lemma health_loop_Suc:
  assumes "pool_inv pool" "i < length (idle_list pool)"
  shows "health_loop E (Suc i) pool w =
    (if PQstatus E (idle_list pool ! i) w \<noteq> CONNECTION_OK
     then health_loop E i (remove_at i pool) (PQfinish E (idle_list pool ! i) w)
     else health_loop E i pool w)"
  using assms by (auto simp: pool_inv_def idle_list_def Let_def remove_at_def)

lemma remove_at_fields:
  "max_size (remove_at i pool) = max_size pool" "active_count (remove_at i pool) = active_count pool"
  "pool_conninfo (remove_at i pool) = pool_conninfo pool"
  by (simp_all add: remove_at_def)

lemma health_loop_facts:
  assumes "finish_is_local E"
  shows "pool_inv pool \<Longrightarrow> i \<le> length (idle_list pool) \<Longrightarrow> distinct (take i (idle_list pool)) \<Longrightarrow>
    \<exists>pool' w'. health_loop E i pool w = Some (pool', w') \<and> pool_inv pool' \<and>
      max_size pool' = max_size pool \<and> active_count pool' = active_count pool \<and>
      pool_conninfo pool' = pool_conninfo pool \<and>
      idle_list pool' = filter (\<lambda>c. PQstatus E c w = CONNECTION_OK) (take i (idle_list pool)) @
        drop i (idle_list pool) \<and>
      w' = fold (PQfinish E) (filter (\<lambda>c. PQstatus E c w \<noteq> CONNECTION_OK) (rev (take i (idle_list pool)))) w"
proof (induction i arbitrary: pool w)
  case 0
  then show ?case by simp
next
  case (Suc i)
  let ?L = "idle_list pool" and ?c = "idle_list pool ! i"
  have i: "i < length ?L" using Suc.prems by simp
  note step = health_loop_Suc [OF Suc.prems(1) i, of E w]
  have tk: "take (Suc i) ?L = take i ?L @ [?c]" and dr: "drop i ?L = ?c # drop (Suc i) ?L"
    using i by (simp_all add: take_Suc_conv_app_nth Cons_nth_drop_Suc)
  from Suc.prems(3) have d: "distinct (take i ?L)" "?c \<notin> set (take i ?L)" by (auto simp: tk)
  show ?case
  proof (cases "PQstatus E ?c w = CONNECTION_OK")
    case True
    from Suc.IH [OF Suc.prems(1) _ d(1), of w] i step True show ?thesis
      by (auto simp: tk dr)
  next
    case False
    note rem = remove_at_facts [OF Suc.prems(1) i]
    have same: "PQstatus E c (PQfinish E ?c w) = PQstatus E c w" if "c \<in> set (take i ?L)" for c
      using assms that d(2) unfolding finish_is_local_def by metis
    have f: "filter (\<lambda>c. PQstatus E c (PQfinish E ?c w) = CONNECTION_OK) (take i ?L) =
        filter (\<lambda>c. PQstatus E c w = CONNECTION_OK) (take i ?L)"
      "filter (\<lambda>c. PQstatus E c (PQfinish E ?c w) \<noteq> CONNECTION_OK) (rev (take i ?L)) =
        filter (\<lambda>c. PQstatus E c w \<noteq> CONNECTION_OK) (rev (take i ?L))"
      using same by (auto intro!: filter_cong)
    from Suc.IH [OF rem(1), of "PQfinish E ?c w"] i d(1) step False f show ?thesis
      by (simp add: rem(2) remove_at_fields tk)
  qed
qed

lemma health_check_facts:
  assumes "finish_is_local E" "pool_inv pool" "distinct (idle_list pool)"
  shows "\<exists>pool' w'. conn_pool_health_check E pool w = Some (pool', w') \<and> pool_inv pool' \<and>
      max_size pool' = max_size pool \<and> active_count pool' = active_count pool \<and>
      pool_conninfo pool' = pool_conninfo pool \<and>
      idle_list pool' = filter (\<lambda>c. PQstatus E c w = CONNECTION_OK) (idle_list pool) \<and>
      w' = fold (PQfinish E) (filter (\<lambda>c. PQstatus E c w \<noteq> CONNECTION_OK) (rev (idle_list pool))) w"
  using health_loop_facts [OF assms(1,2), of "nat (idle_count pool)" w] assms(3)
    pool_inv_length [OF assms(2)]
  by (simp add: conn_pool_health_check_def)

section \<open>Ownership\<close>

text \<open>
  The pool and its clients as a transition system. A state is the pool, the connections its
  clients hold, and the world; \<open>opn w\<close> is the set of open connections of the world. A step is a
  call of the pool, or any use of a connection that opens and closes none.
\<close>

definition tracks_open :: "'w ext \<Rightarrow> ('w \<Rightarrow> PGconn set) \<Rightarrow> bool" where
  "tracks_open E opn \<longleftrightarrow>
     (\<forall>ci w c w'. PQconnectdb E ci w = (c, w') \<longrightarrow>
        (if c = None then opn w' = opn w else c \<notin> opn w \<and> opn w' = insert c (opn w))) \<and>
     (\<forall>c w. opn (PQfinish E c w) = opn w - {c})"

type_synonym 'w pool_state = "ConnPool \<times> PGconn list \<times> 'w"

inductive pool_step :: "'w ext \<Rightarrow> ('w \<Rightarrow> PGconn set) \<Rightarrow> 'w pool_state \<Rightarrow> 'w pool_state \<Rightarrow> bool"
  for E opn where
  Acquire: "conn_pool_acquire E pool w = Some (c, pool', w') \<Longrightarrow>
     pool_step E opn (pool, held, w) (pool', (if c = None then held else c # held), w')"
| Release: "c \<in> set held \<Longrightarrow> conn_pool_release E pool c w = Some (pool', w') \<Longrightarrow>
     pool_step E opn (pool, held, w) (pool', remove1 c held, w')"
| Health: "conn_pool_health_check E pool w = Some (pool', w') \<Longrightarrow>
     pool_step E opn (pool, held, w) (pool', held, w')"
| Use: "opn w' = opn w \<Longrightarrow> pool_step E opn (pool, held, w) (pool, held, w')"

definition pool_owns :: "('w \<Rightarrow> PGconn set) \<Rightarrow> 'w pool_state \<Rightarrow> bool" where
  "pool_owns opn = (\<lambda>(pool, held, w).
     pool_inv pool \<and> active_count pool = int (length held) \<and> None \<notin> set held \<and>
     distinct (idle_list pool @ held) \<and> opn w = set (idle_list pool @ held))"

lemma pool_owns_None: "pool_owns opn (pool, held, w) \<Longrightarrow> None \<notin> opn w"
  by (auto simp: pool_owns_def pool_inv_def list_all_iff)

lemma opn_fold_finish:
  assumes "tracks_open E opn"
  shows "opn (fold (PQfinish E) cs w) = opn w - set cs"
  using assms by (induction cs arbitrary: w) (auto simp: tracks_open_def)

text \<open>A pool that owns its connections, with the last idle one taken apart.\<close>

lemma owns_last:
  assumes "pool_owns opn (pool, held, w)" "idle_list pool \<noteq> []"
  defines "c \<equiv> last (idle_list pool)"
  shows "pool_inv pool" "0 < idle_count pool" "c \<noteq> None" "distinct (idle_list (pop_idle pool) @ c # held)"
    "opn w = insert c (set (idle_list (pop_idle pool) @ held))" "active_count pool = int (length held)" "None \<notin> set held"
proof -
  have own: "pool_inv pool" "active_count pool = int (length held)" "None \<notin> set held" "distinct (idle_list pool @ held)"
    "opn w = set (idle_list pool @ held)" using assms(1) by (simp_all add: pool_owns_def)
  then show "pool_inv pool" "active_count pool = int (length held)" "None \<notin> set held" by simp_all
  show pos: "0 < idle_count pool" using assms(2) pool_inv_length [OF own(1)] by (cases "idle_list pool") auto
  have L: "idle_list pool = idle_list (pop_idle pool) @ [c]" using assms(2) by (simp add: pop_idle_facts(2) [OF own(1) pos] c_def)
  then have "set (idle_list pool) = insert c (set (idle_list (pop_idle pool)))" by simp
  with own(5) show "opn w = insert c (set (idle_list (pop_idle pool) @ held))" by simp
  show "distinct (idle_list (pop_idle pool) @ c # held)" using own(4) unfolding L by simp
  show "c \<noteq> None" using own(1) assms(2) by (auto simp: c_def pool_inv_def list_all_iff)
qed

lemma acquire_owns:
  assumes "null_is_bad E" "tracks_open E opn" "pool_owns opn (pool, held, w)"
    and "conn_pool_acquire E pool w = Some (c, pool', w')"
  shows "pool_owns opn (pool', (if c = None then held else c # held), w')"
  using assms(3,4)
proof (induction "length (idle_list pool)" arbitrary: pool w)
  case 0
  then have nil: "idle_list pool = []" and inv: "pool_inv pool"
    by (simp_all add: pool_owns_def)
  obtain d w1 where d: "PQconnectdb E (pool_conninfo pool) w = (d, w1)" by fastforce
  have "idle_list (pool\<lparr>active_count := active_count pool + 1\<rparr>) = []"
    using nil by (simp add: idle_list_def)
  moreover have "if d = None then opn w1 = opn w else d \<notin> opn w \<and> opn w1 = insert d (opn w)"
    and "opn (PQfinish E d w1) = opn w1 - {d}"
    using assms(2) d unfolding tracks_open_def by blast+
  ultimately show ?case
    using pool_inv_active [OF inv nil] null_is_bad_not_None [OF assms(1), of d w1] d nil 0
      pool_owns_None [OF 0(2)]
    by (auto simp: acquire_unfold [OF inv] pool_owns_def split: if_splits)
next
  case (Suc n)
  then have ne: "idle_list pool \<noteq> []" by auto
  let ?c = "last (idle_list pool)"
  note own = owns_last [OF Suc.prems(1) ne] and pop = pop_idle_facts [OF owns_last(1,2) [OF Suc.prems(1) ne]]
  have il: "idle_list (pop_idle pool\<lparr>active_count := active_count pool + 1\<rparr>) = idle_list (pop_idle pool)"
    "active_count (pop_idle pool) = active_count pool" by (simp_all add: idle_list_def pop_idle_def)
  show ?case
  proof (cases "PQstatus E ?c w = CONNECTION_OK")
    case True
    then have "c = ?c" "pool' = pop_idle pool\<lparr>active_count := active_count pool + 1\<rparr>" "w' = w"
      using Suc.prems(2) ne by (simp_all add: acquire_unfold [OF own(1)])
    with own pop(3) il show ?thesis by (auto simp: pool_owns_def)
  next
    case False
    then have acq: "conn_pool_acquire E (pop_idle pool) (PQfinish E ?c w) = Some (c, pool', w')"
      using Suc.prems(2) ne by (simp add: acquire_unfold [OF own(1)])
    have "pool_owns opn (pop_idle pool, held, PQfinish E ?c w)"
      using own pop(1) assms(2) il(2) by (auto simp: pool_owns_def tracks_open_def)
    from Suc.hyps(1) [OF _ this acq] Suc.hyps(2) show ?thesis by (simp add: pop(2))
  qed
qed

lemma release_owns:
  assumes "tracks_open E opn" "pool_owns opn (pool, held, w)" "c \<in> set held"
    and "conn_pool_release E pool c w = Some (pool', w')"
  shows "pool_owns opn (pool', remove1 c held, w')"
proof -
  have own: "pool_inv pool" "active_count pool = int (length held)" "None \<notin> set held"
    "distinct (idle_list pool @ held)" "opn w = set (idle_list pool @ held)"
    using assms(2) by (simp_all add: pool_owns_def)
  have pos: "0 < active_count pool" and c: "c \<noteq> None" "c \<notin> set (idle_list pool)"
    using own assms(3) length_pos_if_in_set [of c held] by auto
  have len: "int (length (remove1 c held)) = active_count pool - 1"
    using own(2) assms(3) by (simp add: length_remove1) (metis Suc_pred length_pos_if_in_set of_nat_Suc add_diff_cancel_left')
  have st: "set (remove1 c held) = set held - {c}" using own(4) by (simp add: set_remove1_eq)
  from release_facts [OF own(1) pos c(1), of E w] assms(4) own c len st assms(1,3) show ?thesis
    by (auto simp: pool_owns_def tracks_open_def distinct_remove1 split: if_splits)
qed

lemma health_owns:
  assumes "finish_is_local E" "tracks_open E opn" "pool_owns opn (pool, held, w)"
    and "conn_pool_health_check E pool w = Some (pool', w')"
  shows "pool_owns opn (pool', held, w')"
  using health_check_facts [OF assms(1), of pool w] assms(3,4)
  by (auto simp: pool_owns_def opn_fold_finish [OF assms(2)])

lemma pool_step_owns:
  assumes "null_is_bad E" "finish_is_local E" "tracks_open E opn"
    and "pool_step E opn s t" "pool_owns opn s"
  shows "pool_owns opn t"
  using assms(4,5)
proof (induction rule: pool_step.induct)
  case (Acquire pool w c pool' w' held)
  then show ?case using acquire_owns [OF assms(1,3)] by simp
next
  case (Release c held pool w pool' w')
  then show ?case using release_owns [OF assms(3)] by simp
next
  case (Health pool w pool' w' held)
  then show ?case using health_owns [OF assms(2,3)] by simp
next
  case (Use w' w pool held)
  then show ?case by (simp add: pool_owns_def)
qed

lemma pool_steps_own:
  assumes "null_is_bad E" "finish_is_local E" "tracks_open E opn"
    and "(pool_step E opn)\<^sup>*\<^sup>* s t" "pool_owns opn s"
  shows "pool_owns opn t"
  using assms(4,5) by (induction rule: rtranclp_induct) (auto dest: pool_step_owns [OF assms(1-3)])

lemma lab_hyps:
  "null_is_bad lab_ext" "finish_is_local lab_ext" "tracks_open lab_ext (\<lambda>w. Some ` set (lab_open w))"
proof -
  have fresh: "Suc (foldr max xs 0) \<notin> set xs" for xs :: "nat list"
  proof -
    have "x \<in> set xs \<Longrightarrow> x \<le> foldr max xs 0" for x by (induction xs) auto
    then show ?thesis using Suc_n_not_le_n by blast
  qed
  show "null_is_bad lab_ext" by (simp add: null_is_bad_def lab_ext_def)
  show "finish_is_local lab_ext"
    by (simp add: finish_is_local_def lab_ext_def split: option.splits) blast
  show "tracks_open lab_ext (\<lambda>w. Some ` set (lab_open w))"
    using fresh by (auto simp: tracks_open_def lab_ext_def split: option.splits)
qed

section \<open>Properties\<close>

text \<open>C10: Nothing the clients of a pool do leaks a connection or hands it out twice: after any
  sequence of acquire, release, health check and use, starting from a freshly initialised pool,
  every open connection is either idle in the pool or held by exactly one client, and together
  they are at most \<open>max_size\<close>.\<close>

theorem pool_ownership:
  assumes "null_is_bad E" "finish_is_local E" "tracks_open E opn"
    and "conn_pool_init (Some ci) n = Some pool" "0 \<le> n" "opn w = {}"
    and "(pool_step E opn)\<^sup>*\<^sup>* (pool, [], w) (pool', held, w')"
  shows "opn w' = set (idle_list pool') \<union> set held \<and> distinct (idle_list pool' @ held) \<and>
    int (length (idle_list pool') + length held) \<le> max_size pool' \<and>
    active_count pool' = int (length held)"
proof -
  have "pool_owns opn (pool, [], w)"
    using pool_inv_init [OF assms(5), of ci] assms(4,6) by (auto simp: pool_owns_def)
  from pool_steps_own [OF assms(1,2,3,7) this]
  have own: "pool_owns opn (pool', held, w')" .
  have "int (length (idle_list pool') + length held) \<le> max_size pool'"
    using own pool_inv_length [of pool'] by (auto simp: pool_owns_def pool_inv_def)
  with own show ?thesis by (simp add: pool_owns_def)
qed

definition demo_pool :: ConnPool where
  "demo_pool = \<lparr>pool_conninfo = Some ''h'', idle_conns = [Some 1, Some 2, Some 3, None],
     idle_count = 3, max_size = 4, active_count = 1\<rparr>"

definition demo_world :: lab where
  "demo_world = lab_zero\<lparr>lab_open := [1, 2, 3, 4], lab_dead := [2, 3]\<rparr>"

lemma demo_pool_inv: "pool_inv demo_pool" "distinct (idle_list demo_pool)"
  by (simp_all add: pool_inv_def idle_list_def demo_pool_def)

lemma demo_status:
  "PQstatus lab_ext (Some 4) demo_world = CONNECTION_OK"
  "PQtransactionStatus lab_ext (Some 4) demo_world = PQTRANS_IDLE"
  "filter (\<lambda>c. PQstatus lab_ext c demo_world = CONNECTION_OK) (idle_list demo_pool) = [Some 1]"
  by (simp_all add: lab_ext_def lab_zero_def demo_world_def idle_list_def demo_pool_def)

theorem pool_ownership_witness:
  "conn_pool_init (Some ''h'') 2 =
     Some \<lparr>pool_conninfo = Some ''h'', idle_conns = [None, None], idle_count = 0, max_size = 2, active_count = 0\<rparr> \<and>
   lab_open lab_zero = [] \<and>
   Some ` set (lab_open (lab_zero\<lparr>lab_open := [1]\<rparr>)) = set [] \<union> set [Some 1 :: PGconn]"
proof -
  let ?p = "\<lparr>pool_conninfo = Some ''h'', idle_conns = [None, None], idle_count = 0, max_size = 2, active_count = 0\<rparr>"
  let ?opn = "\<lambda>w. Some ` set (lab_open w)"
  have acq: "conn_pool_acquire lab_ext ?p lab_zero =
      Some (Some 1, ?p\<lparr>active_count := 1\<rparr>, lab_zero\<lparr>lab_open := [1]\<rparr>)"
    by (subst conn_pool_acquire.simps) (simp add: lab_ext_def lab_zero_def)
  have i: "conn_pool_init (Some ''h'') 2 = Some ?p" by (simp add: conn_pool_init_def numeral_2_eq_2)
  from pool_step.Acquire [OF acq, of ?opn "[]"]
  have st: "(pool_step lab_ext ?opn)\<^sup>*\<^sup>* (?p, [], lab_zero) (?p\<lparr>active_count := 1\<rparr>, [Some 1], lab_zero\<lparr>lab_open := [1]\<rparr>)"
    by simp
  have "idle_list (?p\<lparr>active_count := 1\<rparr>) = []" by (simp add: idle_list_def)
  with pool_ownership [OF lab_hyps i _ _ st] i show ?thesis
    by (simp add: lab_zero_def)
qed

text \<open>Acquiring always returns. It hands out only a connection that is \<open>CONNECTION_OK\<close>, and
  then counts it as active; it gives NULL only after it has used up the idle list, and then
  leaves the active count alone. The invariant is kept and what remains idle is a prefix of what
  was idle before.\<close>

theorem acquire_ok:
  assumes "null_is_bad E" "pool_inv pool"
  shows "\<exists>conn pool' w'. conn_pool_acquire E pool w = Some (conn, pool', w') \<and>
    pool_inv pool' \<and> max_size pool' = max_size pool \<and>
    prefix (idle_list pool') (idle_list pool) \<and>
    (if conn = None then active_count pool' = active_count pool \<and> idle_list pool' = []
     else active_count pool' = active_count pool + 1 \<and> PQstatus E conn w' = CONNECTION_OK)"
  using acquire_facts [OF assms, of w] unfolding acquired_def by blast

theorem acquire_ok_witness:
  "pool_inv demo_pool \<and>
   (\<exists>conn pool' w'. conn_pool_acquire lab_ext demo_pool demo_world = Some (conn, pool', w') \<and>
     pool_inv pool' \<and> max_size pool' = 4)"
proof -
  obtain conn pool' w' where "conn_pool_acquire lab_ext demo_pool demo_world = Some (conn, pool', w')"
    "pool_inv pool'" "max_size pool' = max_size demo_pool"
    using acquire_ok [OF lab_hyps(1) demo_pool_inv(1), of demo_world] by blast
  then show ?thesis using demo_pool_inv(1) by (simp add: demo_pool_def)
qed

text \<open>A healthy connection outside a transaction that is given back is the next one handed
  out, and giving it back and taking it again leaves the idle list and the active count as they
  were.\<close>

theorem release_acquire:
  assumes "pool_inv pool" "0 < active_count pool"
    and "PQstatus E (Some c) w = CONNECTION_OK" "PQtransactionStatus E (Some c) w = PQTRANS_IDLE"
  shows "\<exists>pool1 pool2. conn_pool_release E pool (Some c) w = Some (pool1, w) \<and>
    conn_pool_acquire E pool1 w = Some (Some c, pool2, w) \<and>
    idle_list pool2 = idle_list pool \<and> active_count pool2 = active_count pool"
proof -
  from release_facts [OF assms(1,2), of "Some c" E w] assms(3,4)
  obtain p where p: "conn_pool_release E pool (Some c) w = Some (p, w)" "pool_inv p"
    "idle_list p = idle_list pool @ [Some c]" "active_count p = active_count pool - 1" by auto
  have "0 < idle_count p" using pool_inv_length [OF p(2)] p(3) by simp
  from pop_idle_facts(2) [OF p(2) this] p assms(3) show ?thesis
    by (simp add: acquire_unfold [OF p(2)] idle_list_def)
qed

theorem release_acquire_witness:
  "pool_inv demo_pool \<and> 0 < active_count demo_pool \<and>
   (\<exists>pool1 pool2. conn_pool_release lab_ext demo_pool (Some 4) demo_world = Some (pool1, demo_world) \<and>
     conn_pool_acquire lab_ext pool1 demo_world = Some (Some 4, pool2, demo_world))"
proof -
  have "0 < active_count demo_pool" by (simp add: demo_pool_def)
  with release_acquire [OF demo_pool_inv(1) _ demo_status(1,2)] demo_pool_inv(1) show ?thesis by blast
qed

text \<open>The health check keeps exactly the idle connections that are \<open>CONNECTION_OK\<close>, in their
  order, closes every other one once, and changes nothing else of the pool.\<close>

theorem health_check_filters:
  assumes "finish_is_local E" "pool_inv pool" "distinct (idle_list pool)"
  shows "\<exists>pool' w'. conn_pool_health_check E pool w = Some (pool', w') \<and> pool_inv pool' \<and>
    max_size pool' = max_size pool \<and> active_count pool' = active_count pool \<and>
    idle_list pool' = filter (\<lambda>c. PQstatus E c w = CONNECTION_OK) (idle_list pool) \<and>
    w' = fold (PQfinish E) (filter (\<lambda>c. PQstatus E c w \<noteq> CONNECTION_OK) (rev (idle_list pool))) w"
  using health_check_facts [OF assms] by blast

theorem health_check_filters_witness:
  "pool_inv demo_pool \<and> distinct (idle_list demo_pool) \<and>
   (\<exists>pool' w'. conn_pool_health_check lab_ext demo_pool demo_world = Some (pool', w') \<and>
     idle_list pool' = [Some 1])"
  using health_check_filters [OF lab_hyps(2) demo_pool_inv, of demo_world] demo_pool_inv
  unfolding demo_status(3) by blast

end
