(* ===== verification/Shard_Map.thy ===== *)
theory Shard_Map
  imports Conn_Pool "HOL-Library.Monad_Syntax"
begin

text \<open>
  \<open>src/router/shard_map.c\<close> and \<open>src/pool/health_check.c\<close>: the shards, the sharding rules of the
  tables and the lookup of the shard of a key. A pointer to a shard is its index in the array of
  the map; a lookup gives \<open>Some None\<close> for NULL and \<open>None\<close> where the C code would read outside an
  array or through a NULL pointer. Keys and range bounds are 64-bit words.
\<close>

unbundle bit_operations_syntax

datatype ShardMethod = SHARD_RANGE | SHARD_HASH

record Shard =
  shard_name :: "cstring option"
  shard_conninfo :: "cstring option"
  key_range_start :: "64 word"
  key_range_end :: "64 word"
  shard_pool :: ConnPool

record TableRule =
  rule_table_name :: "cstring option"
  shard_column :: "cstring option"
  rule_method :: ShardMethod
  broadcast :: bool
  rule_shard_count :: int
  rule_shards :: "nat list"

record ShardMap =
  map_shards :: "Shard list"
  map_shard_count :: int
  table_rules :: "TableRule list"
  rule_count :: int
  pool_size :: int

section \<open>The code\<close>

fun init_pools :: "nat \<Rightarrow> Shard list \<Rightarrow> int \<Rightarrow> Shard list option" where
  "init_pools 0 shards psize = Some shards"
| "init_pools (Suc n) [] psize = None"
| "init_pools (Suc n) (s # shards) psize = do {
     pool \<leftarrow> conn_pool_init (shard_conninfo s) psize;
     rest \<leftarrow> init_pools n shards psize;
     Some (s\<lparr>shard_pool := pool\<rparr> # rest)
   }"

definition shard_map_init :: "ShardMap \<Rightarrow> (ShardMap \<times> int) option" where
  "shard_map_init m = do {
     shards \<leftarrow> init_pools (nat (map_shard_count m)) (map_shards m) (pool_size m);
     Some (m\<lparr>map_shards := shards\<rparr>, 0)
   }"

fun destroy_pools :: "'w ext \<Rightarrow> nat \<Rightarrow> Shard list \<Rightarrow> 'w \<Rightarrow> 'w option" where
  "destroy_pools E 0 shards w = Some w"
| "destroy_pools E (Suc n) [] w = None"
| "destroy_pools E (Suc n) (s # shards) w = do {
     (pool, w) \<leftarrow> conn_pool_destroy E (shard_pool s) w;
     destroy_pools E n shards w
   }"

text \<open>Besides freeing memory, destroying the map closes the idle connections of every pool.\<close>

definition shard_map_destroy :: "'w ext \<Rightarrow> ShardMap \<Rightarrow> 'w \<Rightarrow> 'w option" where
  "shard_map_destroy E m w = destroy_pools E (nat (map_shard_count m)) (map_shards m) w"

fun find_rule_loop :: "nat \<Rightarrow> TableRule list \<Rightarrow> cstring \<Rightarrow> TableRule option option" where
  "find_rule_loop 0 rules name = Some None"
| "find_rule_loop (Suc n) [] name = None"
| "find_rule_loop (Suc n) (r # rules) name = do {
     tn \<leftarrow> rule_table_name r;
     if tn = name then Some (Some r) else find_rule_loop n rules name
   }"

definition shard_map_find_rule :: "ShardMap \<Rightarrow> cstring option \<Rightarrow> TableRule option option" where
  "shard_map_find_rule m name =
     (case name of
        None \<Rightarrow> Some None
      | Some tn \<Rightarrow> find_rule_loop (nat (rule_count m)) (table_rules m) tn)"

fun find_range :: "Shard list \<Rightarrow> nat \<Rightarrow> nat list \<Rightarrow> 64 word \<Rightarrow> nat option option" where
  "find_range shards 0 ptrs ukey = Some None"
| "find_range shards (Suc n) [] ukey = None"
| "find_range shards (Suc n) (i # ptrs) ukey =
     (if i < length shards then
        let s = shards ! i in
        if key_range_start s \<le> ukey \<and> ukey < key_range_end s then Some (Some i)
        else find_range shards n ptrs ukey
      else None)"

text \<open>\<open>rule->shards[idx]\<close>, with the cast of a 64-bit value to \<open>int\<close>.\<close>

definition shard_at :: "TableRule \<Rightarrow> int \<Rightarrow> nat option option" where
  "shard_at rule idx =
     (if 0 \<le> idx \<and> nat idx < length (rule_shards rule) then Some (Some (rule_shards rule ! nat idx)) else None)"

definition int_of_uint64 :: "64 word \<Rightarrow> int" where
  "int_of_uint64 u = signed_take_bit 31 (uint u)"

definition shard_map_find_by_int :: "ShardMap \<Rightarrow> TableRule option \<Rightarrow> int \<Rightarrow> nat option option" where
  "shard_map_find_by_int m rule key =
     (case rule of
        None \<Rightarrow> Some None
      | Some r \<Rightarrow>
          if rule_shard_count r = 0 then Some None
          else
            (case rule_method r of
               SHARD_RANGE \<Rightarrow>
                 (let ukey = word_of_int key in do {
                    s \<leftarrow> find_range (map_shards m) (nat (rule_shard_count r)) (rule_shards r) ukey;
                    (case s of Some i \<Rightarrow> Some (Some i) | None \<Rightarrow> shard_at r 0)
                  })
             | SHARD_HASH \<Rightarrow>
                 shard_at r (int_of_uint64 (word_of_int key mod word_of_int (rule_shard_count r)))))"

text \<open>\<open>(uint64_t)*p\<close> for a signed \<open>char\<close>: the bytes from 128 on are sign-extended.\<close>

definition char_to_uint64 :: "byte \<Rightarrow> 64 word" where
  "char_to_uint64 c = word_of_int (if of_char c < (128 :: int) then of_char c else of_char c - 256)"

definition hash_step :: "byte \<Rightarrow> 64 word \<Rightarrow> 64 word" where
  "hash_step c hash = (push_bit 5 hash + hash) + char_to_uint64 c"

definition str_hash :: "cstring \<Rightarrow> 64 word" where
  "str_hash key = fold hash_step key 5381"

definition shard_map_find_by_str :: "ShardMap \<Rightarrow> TableRule option \<Rightarrow> cstring option \<Rightarrow> nat option option" where
  "shard_map_find_by_str m rule key =
     (case (rule, key) of
        (Some r, Some k) \<Rightarrow>
          if rule_shard_count r = 0 then Some None
          else
            (let hash = str_hash k in
             case rule_method r of
               SHARD_RANGE \<Rightarrow> do {
                 s \<leftarrow> find_range (map_shards m) (nat (rule_shard_count r)) (rule_shards r) hash;
                 (case s of Some i \<Rightarrow> Some (Some i) | None \<Rightarrow> shard_at r 0)
               }
             | SHARD_HASH \<Rightarrow> shard_at r (int_of_uint64 (hash mod word_of_int (rule_shard_count r))))
      | _ \<Rightarrow> Some None)"

definition shard_map_get_all :: "TableRule \<Rightarrow> nat list \<times> int" where
  "shard_map_get_all rule = (rule_shards rule, rule_shard_count rule)"

fun health_pools :: "'w ext \<Rightarrow> nat \<Rightarrow> Shard list \<Rightarrow> 'w \<Rightarrow> (Shard list \<times> 'w) option" where
  "health_pools E 0 shards w = Some (shards, w)"
| "health_pools E (Suc n) [] w = None"
| "health_pools E (Suc n) (s # shards) w = do {
     (pool, w) \<leftarrow> conn_pool_health_check E (shard_pool s) w;
     (rest, w) \<leftarrow> health_pools E n shards w;
     Some (s\<lparr>shard_pool := pool\<rparr> # rest, w)
   }"

definition health_check_all :: "'w ext \<Rightarrow> ShardMap option \<Rightarrow> 'w \<Rightarrow> (ShardMap option \<times> 'w) option" where
  "health_check_all E m w =
     (case m of
        None \<Rightarrow> Some (None, w)
      | Some mp \<Rightarrow>
          if map_shard_count mp = 0 then Some (Some mp, w)
          else do {
            (shards, w) \<leftarrow> health_pools E (nat (map_shard_count mp)) (map_shards mp) w;
            Some (Some (mp\<lparr>map_shards := shards\<rparr>), w)
          })"

section \<open>Well-formed maps\<close>

definition rule_ok :: "ShardMap \<Rightarrow> TableRule \<Rightarrow> bool" where
  "rule_ok m r \<longleftrightarrow>
     rule_table_name r \<noteq> None \<and> rule_shard_count r = int (length (rule_shards r)) \<and>
     length (rule_shards r) < 2 ^ 31 \<and> list_all (\<lambda>i. i < length (map_shards m)) (rule_shards r)"

definition map_ok :: "ShardMap \<Rightarrow> bool" where
  "map_ok m \<longleftrightarrow>
     map_shard_count m = int (length (map_shards m)) \<and> rule_count m = int (length (table_rules m)) \<and>
     list_all (rule_ok m) (table_rules m)"

lemma find_rule_loop_find:
  "list_all (\<lambda>r. rule_table_name r \<noteq> None) rules \<Longrightarrow>
    find_rule_loop (length rules) rules name = Some (find (\<lambda>r. rule_table_name r = Some name) rules)"
  by (induction rules) auto

lemma find_rule_map_ok:
  assumes "map_ok m"
  shows "shard_map_find_rule m name =
    Some (Option.bind name (\<lambda>tn. find (\<lambda>r. rule_table_name r = Some tn) (table_rules m)))"
proof -
  have "list_all (\<lambda>r. rule_table_name r \<noteq> None) (table_rules m)"
    using assms by (auto simp: map_ok_def rule_ok_def list_all_iff)
  with assms show ?thesis
    by (cases name) (simp_all add: shard_map_find_rule_def map_ok_def find_rule_loop_find)
qed

lemma find_rule_rule_ok:
  assumes "map_ok m" "shard_map_find_rule m name = Some (Some r)"
  shows "rule_ok m r" "rule_table_name r = name" "r \<in> set (table_rules m)"
proof -
  obtain tn where tn: "name = Some tn" "find (\<lambda>r. rule_table_name r = Some tn) (table_rules m) = Some r"
    using assms find_rule_map_ok [OF assms(1), of name] by (auto simp: bind_eq_Some_conv)
  then show "rule_table_name r = name" "r \<in> set (table_rules m)"
    by (auto simp: find_Some_iff)
  then show "rule_ok m r" using assms(1) by (simp add: map_ok_def list_all_iff)
qed

section \<open>Which shard a key goes to\<close>

definition in_range :: "ShardMap \<Rightarrow> 64 word \<Rightarrow> nat \<Rightarrow> bool" where
  "in_range m u i \<longleftrightarrow> key_range_start (map_shards m ! i) \<le> u \<and> u < key_range_end (map_shards m ! i)"

text \<open>The specification: by range, the first shard of the rule whose range holds the key, or the
  first shard of the rule; by hash, the shard at the remainder of the key.\<close>

definition shard_of :: "ShardMap \<Rightarrow> TableRule \<Rightarrow> 64 word \<Rightarrow> nat option" where
  "shard_of m r u =
     (if rule_shards r = [] then None
      else
        (case rule_method r of
           SHARD_RANGE \<Rightarrow>
             (case find (in_range m u) (rule_shards r) of Some i \<Rightarrow> Some i | None \<Rightarrow> Some (hd (rule_shards r)))
         | SHARD_HASH \<Rightarrow> Some (rule_shards r ! (unat u mod length (rule_shards r)))))"

lemma find_range_find:
  "list_all (\<lambda>i. i < length (map_shards m)) ptrs \<Longrightarrow>
    find_range (map_shards m) (length ptrs) ptrs u = Some (find (in_range m u) ptrs)"
  by (induction ptrs) (auto simp: in_range_def Let_def)

lemma hash_index:
  assumes "0 < n" "n < 2 ^ 31"
  shows "int_of_uint64 (u mod of_nat n) = int (unat u mod n)"
proof -
  have n: "unat (of_nat n :: 64 word) = n"
    using assms by (simp add: unsigned_of_nat take_bit_nat_eq_self_iff)
  then have "uint (u mod of_nat n) = int (unat u mod n)"
    by (metis uint_nat unat_mod_distrib)
  moreover have "unat u mod n < 2 ^ 31" using assms mod_less_divisor [of n "unat u"] by linarith
  ultimately show ?thesis
    by (simp add: int_of_uint64_def signed_take_bit_int_eq_self_iff)
qed

lemma range_or_first:
  assumes "rule_ok m r" "rule_shards r \<noteq> []" "rule_method r = SHARD_RANGE"
  shows "(do {
      s \<leftarrow> find_range (map_shards m) (nat (rule_shard_count r)) (rule_shards r) u;
      (case s of Some i \<Rightarrow> Some (Some i) | None \<Rightarrow> shard_at r 0) }) = Some (shard_of m r u)"
  using assms
  by (auto simp: rule_ok_def find_range_find shard_of_def shard_at_def hd_conv_nth split: option.splits)

lemma hash_shard:
  assumes "rule_ok m r" "rule_shards r \<noteq> []" "rule_method r = SHARD_HASH"
  shows "shard_at r (int_of_uint64 (u mod word_of_int (rule_shard_count r))) = Some (shard_of m r u)"
  using assms by (simp add: rule_ok_def hash_index shard_of_def shard_at_def)

lemma find_by_int_shard_of:
  "rule_ok m r \<Longrightarrow> shard_map_find_by_int m (Some r) key = Some (shard_of m r (word_of_int key))"
  unfolding shard_map_find_by_int_def
  by (cases "rule_shards r = []"; cases "rule_method r")
    (simp_all add: range_or_first hash_shard, simp_all add: rule_ok_def shard_of_def)

lemma find_by_str_shard_of:
  "rule_ok m r \<Longrightarrow> shard_map_find_by_str m (Some r) (Some key) = Some (shard_of m r (str_hash key))"
  unfolding shard_map_find_by_str_def
  by (cases "rule_shards r = []"; cases "rule_method r")
    (simp_all add: range_or_first hash_shard, simp_all add: rule_ok_def shard_of_def)

lemma shard_of_member: "rule_shards r \<noteq> [] \<Longrightarrow> \<exists>i \<in> set (rule_shards r). shard_of m r u = Some i"
  by (auto simp: shard_of_def find_Some_iff split: ShardMethod.splits option.splits)

text \<open>The contract of a shard lookup, for any kind of key: \<open>ukey\<close> is the 64-bit number the key
  stands for.\<close>

locale shard_lookup =
  fixes lookup :: "ShardMap \<Rightarrow> TableRule \<Rightarrow> 'k \<Rightarrow> nat option option"
    and ukey :: "'k \<Rightarrow> 64 word"
  assumes lookup_spec: "rule_ok m r \<Longrightarrow> lookup m r k = Some (shard_of m r (ukey k))"
begin

lemma lookup_total:
  assumes "rule_ok m r" "rule_shards r \<noteq> []"
  shows "\<exists>i \<in> set (rule_shards r). lookup m r k = Some (Some i)"
  using lookup_spec [OF assms(1)] shard_of_member [OF assms(2)] by simp

lemma lookup_range:
  assumes "rule_ok m r" "rule_method r = SHARD_RANGE" "i \<in> set (rule_shards r)" "in_range m (ukey k) i"
    and "\<And>j. j \<in> set (rule_shards r) \<Longrightarrow> in_range m (ukey k) j \<Longrightarrow> j = i"
  shows "lookup m r k = Some (Some i)"
proof (cases "find (in_range m (ukey k)) (rule_shards r)")
  case None
  with assms(3,4) show ?thesis by (simp add: find_None_iff)
next
  case (Some j)
  then have "j \<in> set (rule_shards r)" "in_range m (ukey k) j" by (auto simp: find_Some_iff)
  with assms(5) Some assms(2,3) show ?thesis
    by (auto simp: lookup_spec [OF assms(1)] shard_of_def)
qed

lemma lookup_hash:
  assumes "rule_ok m r" "rule_method r = SHARD_HASH" "rule_shards r \<noteq> []"
  shows "lookup m r k = Some (Some (rule_shards r ! (unat (ukey k) mod length (rule_shards r))))"
  using assms by (simp add: lookup_spec shard_of_def)

end

interpretation by_int: shard_lookup "\<lambda>m r. shard_map_find_by_int m (Some r)" word_of_int
  by unfold_locales (rule find_by_int_shard_of)

interpretation by_str: shard_lookup "\<lambda>m r k. shard_map_find_by_str m (Some r) (Some k)" str_hash
  by unfold_locales (rule find_by_str_shard_of)

section \<open>The string hash\<close>

lemma hash_step_33: "hash_step c h = 33 * h + char_to_uint64 c"
proof -
  have "push_bit 5 h = 32 * h" by (simp add: push_bit_eq_mult)
  then show ?thesis by (simp add: hash_step_def algebra_simps)
qed

text \<open>The polynomial the loop computes, by Horner's rule.\<close>

fun poly33 :: "cstring \<Rightarrow> 64 word" where
  "poly33 [] = 0"
| "poly33 (c # cs) = char_to_uint64 c * 33 ^ length cs + poly33 cs"

lemma fold_hash: "fold hash_step cs h = 33 ^ length cs * h + poly33 cs"
  by (induction cs arbitrary: h) (simp_all add: hash_step_33 algebra_simps)

section \<open>Pools of the map\<close>

definition pools_ok :: "ShardMap \<Rightarrow> bool" where
  "pools_ok m \<longleftrightarrow> list_all (\<lambda>s. pool_inv (shard_pool s) \<and> max_size (shard_pool s) = pool_size m \<and>
     distinct (idle_list (shard_pool s))) (map_shards m)"

lemma init_pools_ok:
  "list_all (\<lambda>s. shard_conninfo s \<noteq> None) shards \<Longrightarrow> 0 \<le> psize \<Longrightarrow>
    \<exists>shards'. init_pools (length shards) shards psize = Some shards' \<and>
      map shard_conninfo shards' = map shard_conninfo shards \<and>
      map shard_name shards' = map shard_name shards \<and>
      map key_range_start shards' = map key_range_start shards \<and>
      map key_range_end shards' = map key_range_end shards \<and>
      list_all (\<lambda>s. pool_inv (shard_pool s) \<and> max_size (shard_pool s) = psize \<and>
        idle_list (shard_pool s) = [] \<and> pool_conninfo (shard_pool s) = shard_conninfo s) shards'"
proof (induction shards)
  case Nil
  then show ?case by simp
next
  case (Cons s shards)
  then obtain ci where ci: "shard_conninfo s = Some ci" by auto
  from Cons obtain rest where "init_pools (length shards) shards psize = Some rest"
    "map shard_conninfo rest = map shard_conninfo shards" "map shard_name rest = map shard_name shards"
    "map key_range_start rest = map key_range_start shards" "map key_range_end rest = map key_range_end shards"
    "list_all (\<lambda>s. pool_inv (shard_pool s) \<and> max_size (shard_pool s) = psize \<and>
        idle_list (shard_pool s) = [] \<and> pool_conninfo (shard_pool s) = shard_conninfo s) rest" by auto
  with ci Cons(3) show ?case
    by (simp add: conn_pool_init_def pool_inv_def idle_list_def)
qed

lemma health_pools_ok:
  assumes "finish_is_local E"
  shows "list_all (\<lambda>s. pool_inv (shard_pool s) \<and> max_size (shard_pool s) = n \<and>
      distinct (idle_list (shard_pool s))) shards \<Longrightarrow>
    \<exists>shards' w'. health_pools E (length shards) shards w = Some (shards', w') \<and>
      length shards' = length shards \<and>
      list_all (\<lambda>s. pool_inv (shard_pool s) \<and> max_size (shard_pool s) = n \<and>
        distinct (idle_list (shard_pool s))) shards' \<and>
      map (\<lambda>s. active_count (shard_pool s)) shards' = map (\<lambda>s. active_count (shard_pool s)) shards"
proof (induction shards arbitrary: w)
  case Nil
  then show ?case by simp
next
  case (Cons s shards)
  from Cons.prems health_check_facts [OF assms, of "shard_pool s" w]
  obtain pool w1 where p: "conn_pool_health_check E (shard_pool s) w = Some (pool, w1)" "pool_inv pool"
    "max_size pool = n" "active_count pool = active_count (shard_pool s)" "distinct (idle_list pool)"
    by auto
  obtain rest w2 where "health_pools E (length shards) shards w1 = Some (rest, w2)"
    "length rest = length shards"
    "list_all (\<lambda>s. pool_inv (shard_pool s) \<and> max_size (shard_pool s) = n \<and>
        distinct (idle_list (shard_pool s))) rest"
    "map (\<lambda>s. active_count (shard_pool s)) rest = map (\<lambda>s. active_count (shard_pool s)) shards"
    using Cons.IH [of w1] Cons.prems by auto
  with p show ?case by simp
qed

section \<open>Properties\<close>

text \<open>C21: When the ranges of a rule's shards that hold a key are unique, an integer key is routed to
  the shard whose range \<open>[start, end)\<close> holds it, wherever that shard stands in the list.\<close>

theorem range_lookup:
  assumes "rule_ok m r" "rule_method r = SHARD_RANGE" "i \<in> set (rule_shards r)"
    and "in_range m (word_of_int key) i"
    and "list_all (\<lambda>j. in_range m (word_of_int key) j \<longrightarrow> j = i) (rule_shards r)"
  shows "shard_map_find_by_int m (Some r) key = Some (Some i)"
  using by_int.lookup_range [OF assms(1-4)] assms(5) by (simp add: list_all_iff)

definition demo_shard :: "cstring \<Rightarrow> 64 word \<Rightarrow> 64 word \<Rightarrow> Shard" where
  "demo_shard n lo hi = \<lparr>shard_name = Some n, shard_conninfo = Some n, key_range_start = lo,
     key_range_end = hi, shard_pool = conn_pool_zero\<rparr>"

definition demo_rule :: "ShardMethod \<Rightarrow> TableRule" where
  "demo_rule meth = \<lparr>rule_table_name = Some ''users'', shard_column = Some ''user_id'',
     rule_method = meth, broadcast = False, rule_shard_count = 3, rule_shards = [0, 1, 2]\<rparr>"

definition demo_map :: "ShardMethod \<Rightarrow> ShardMap" where
  "demo_map meth = \<lparr>
     map_shards = [demo_shard ''s0'' 0 1000, demo_shard ''s1'' 1000 2000, demo_shard ''s2'' 2000 3000],
     map_shard_count = 3, table_rules = [demo_rule meth], rule_count = 1, pool_size = 4\<rparr>"

lemma demo_map_ok: "map_ok (demo_map meth)" "rule_ok (demo_map meth) (demo_rule meth)"
  by (simp_all add: map_ok_def rule_ok_def demo_map_def demo_rule_def)

theorem range_lookup_witness:
  "shard_map_find_by_int (demo_map SHARD_RANGE) (Some (demo_rule SHARD_RANGE)) 1500 = Some (Some 1)"
  by (rule range_lookup [OF demo_map_ok(2)])
    (simp_all add: demo_map_def demo_rule_def demo_shard_def in_range_def)

text \<open>Hash sharding of an integer key takes the key modulo \<open>2 ^ 64\<close> and then modulo the number of
  shards of the rule; in particular a key that is not negative goes to the shard number
  \<open>key mod shard_count\<close> of the rule.\<close>

theorem hash_lookup:
  assumes "rule_ok m r" "rule_method r = SHARD_HASH" "rule_shards r \<noteq> []"
  shows "shard_map_find_by_int m (Some r) key =
    Some (Some (rule_shards r ! (nat (key mod 2 ^ 64) mod length (rule_shards r))))"
  using by_int.lookup_hash [OF assms, of key]
  by (simp add: unsigned_of_int take_bit_eq_mod unat_eq_nat_uint)

theorem hash_lookup_witness:
  "shard_map_find_by_int (demo_map SHARD_HASH) (Some (demo_rule SHARD_HASH)) (- 1) = Some (Some 0) \<and>
   shard_map_find_by_int (demo_map SHARD_HASH) (Some (demo_rule SHARD_HASH)) 7 = Some (Some 1)"
  using hash_lookup [OF demo_map_ok(2), of SHARD_HASH] by (simp add: demo_rule_def)

text \<open>C38: The string hash is the polynomial in 33 of the sign-extended bytes on the seed 5381, modulo
  \<open>2 ^ 64\<close>, and a string key is looked up as the number its hash is.\<close>

theorem string_lookup:
  "str_hash key = 5381 * 33 ^ length key + poly33 key \<and>
   (rule_ok m r \<longrightarrow>
      shard_map_find_by_str m (Some r) (Some key) =
        shard_map_find_by_int m (Some r) (uint (5381 * 33 ^ length key + poly33 key)))"
proof -
  have "str_hash key = 5381 * 33 ^ length key + poly33 key"
    by (simp add: str_hash_def fold_hash)
  then show ?thesis
    by (metis find_by_int_shard_of find_by_str_shard_of word_of_int_uint)
qed

theorem string_lookup_witness:
  "str_hash ''ab'' = 5381 * 33 ^ 2 + (97 * 33 + 98) \<and>
   shard_map_find_by_str (demo_map SHARD_HASH) (Some (demo_rule SHARD_HASH)) (Some ''ab'') = Some (Some 2)"
proof -
  have "shard_map_find_by_int (demo_map SHARD_HASH) (Some (demo_rule SHARD_HASH)) 5863208 = Some (Some 2)"
    using by_int.lookup_hash [OF demo_map_ok(2), of SHARD_HASH 5863208] by (simp add: demo_rule_def)
  then show ?thesis
    using string_lookup [of "''ab''" "demo_map SHARD_HASH" "demo_rule SHARD_HASH"]
    by (simp add: char_to_uint64_def demo_map_ok)
qed

text \<open>A health check of all shards keeps every pool within its invariant, keeps the counts of
  the connections in use, and leaves the rules and the other fields of the map as they are.\<close>

theorem health_check_all_ok:
  assumes "finish_is_local E" "map_ok m" "pools_ok m"
  shows "\<exists>m' w'. health_check_all E (Some m) w = Some (Some m', w') \<and> pools_ok m' \<and>
    table_rules m' = table_rules m \<and> map_shard_count m' = map_shard_count m \<and>
    map (\<lambda>s. active_count (shard_pool s)) (map_shards m') =
      map (\<lambda>s. active_count (shard_pool s)) (map_shards m)"
proof -
  have ok: "list_all (\<lambda>s. pool_inv (shard_pool s) \<and> max_size (shard_pool s) = pool_size m \<and>
      distinct (idle_list (shard_pool s))) (map_shards m)"
    using assms(3) by (simp add: pools_ok_def)
  obtain shards w' where h: "health_pools E (length (map_shards m)) (map_shards m) w = Some (shards, w')"
    "list_all (\<lambda>s. pool_inv (shard_pool s) \<and> max_size (shard_pool s) = pool_size m \<and>
      distinct (idle_list (shard_pool s))) shards"
    "map (\<lambda>s. active_count (shard_pool s)) shards = map (\<lambda>s. active_count (shard_pool s)) (map_shards m)"
    using health_pools_ok [OF assms(1) ok, of w] by blast
  have n: "map_shard_count m = int (length (map_shards m))" using assms(2) by (simp add: map_ok_def)
  show ?thesis
  proof (cases "map_shards m = []")
    case True
    with n assms(3) show ?thesis by (simp add: health_check_all_def)
  next
    case False
    with n h show ?thesis by (simp add: health_check_all_def pools_ok_def)
  qed
qed

theorem health_check_all_ok_witness:
  "map_ok ((demo_map SHARD_HASH)\<lparr>map_shards := [(demo_shard ''s0'' 0 9)\<lparr>shard_pool := demo_pool\<rparr>],
     map_shard_count := 1, table_rules := [], rule_count := 0\<rparr>) \<and>
   (\<exists>m' w'. health_check_all lab_ext (Some ((demo_map SHARD_HASH)\<lparr>
       map_shards := [(demo_shard ''s0'' 0 9)\<lparr>shard_pool := demo_pool\<rparr>],
       map_shard_count := 1, table_rules := [], rule_count := 0\<rparr>)) demo_world = Some (Some m', w') \<and>
     pools_ok m' \<and> map (\<lambda>s. active_count (shard_pool s)) (map_shards m') = [1])"
proof -
  let ?m = "(demo_map SHARD_HASH)\<lparr>map_shards := [(demo_shard ''s0'' 0 9)\<lparr>shard_pool := demo_pool\<rparr>],
     map_shard_count := 1, table_rules := [], rule_count := 0\<rparr>"
  have ok: "map_ok ?m" by (simp add: map_ok_def)
  have "max_size demo_pool = 4" "active_count demo_pool = 1" by (simp_all add: demo_pool_def)
  then have "pools_ok ?m" "map (\<lambda>s. active_count (shard_pool s)) (map_shards ?m) = [1]"
    using demo_pool_inv by (simp_all add: pools_ok_def demo_map_def)
  with health_check_all_ok [OF lab_hyps(2) ok, of demo_world] ok show ?thesis by auto
qed

end
