(* ===== verification/Timer.thy ===== *)
theory Timer
  imports Sharegres_Prelude
begin

text \<open>
  \<open>src/event/timer.c\<close>: periodic timers on the monotonic clock. The queue is the list of the slots in
  use (\<open>count\<close> is its length, at most 32). The clock \<open>clk\<close> and what a callback does (\<open>run\<close>) are
  arguments; both act on a state of an arbitrary type. Times are integers, and the division of C
  rounds toward zero.
\<close>

record timespec =
  tv_sec :: int
  tv_nsec :: int

record 'cb Timer =
  interval_ms :: int
  timer_callback :: 'cb
  next_fire :: timespec
  timer_active :: bool

type_synonym 'cb TimerQueue = "'cb Timer list"

definition MAX_TIMERS :: nat where "MAX_TIMERS = 32"

section \<open>The code\<close>

function carry_seconds :: "timespec \<Rightarrow> timespec" where
  "carry_seconds ts =
     (if 1000000000 \<le> tv_nsec ts
      then carry_seconds (ts\<lparr>tv_sec := tv_sec ts + 1, tv_nsec := tv_nsec ts - 1000000000\<rparr>) else ts)"
  by pat_completeness auto
termination
  by (relation "measure (\<lambda>ts. nat (tv_nsec ts))") auto

declare carry_seconds.simps [simp del]

definition timespec_add_ms :: "timespec \<Rightarrow> int \<Rightarrow> timespec" where
  "timespec_add_ms ts ms = carry_seconds (ts\<lparr>tv_nsec := tv_nsec ts + ms * 1000000\<rparr>)"

text \<open>Division rounding toward zero.\<close>

definition quot :: "int \<Rightarrow> int \<Rightarrow> int" where
  "quot a b = (if 0 \<le> a then a div b else - (- a div b))"

definition timespec_diff_ms :: "timespec \<Rightarrow> timespec \<Rightarrow> int" where
  "timespec_diff_ms a b = (tv_sec a - tv_sec b) * 1000 + quot (tv_nsec a - tv_nsec b) 1000000"

definition timer_queue_init :: "'cb TimerQueue" where
  "timer_queue_init = []"

definition timer_add ::
    "('s \<Rightarrow> timespec \<times> 's) \<Rightarrow> 'cb TimerQueue \<Rightarrow> int \<Rightarrow> 'cb \<Rightarrow> 's \<Rightarrow> 'cb TimerQueue \<times> int \<times> 's" where
  "timer_add clk tq interval cb s =
     (if MAX_TIMERS \<le> length tq then (tq, - 1, s)
      else
        let (now, s) = clk s in
        (tq @ [\<lparr>interval_ms = interval, timer_callback = cb, next_fire = timespec_add_ms now interval,
           timer_active = True\<rparr>], int (length tq), s))"

definition timer_remove :: "'cb TimerQueue \<Rightarrow> int \<Rightarrow> 'cb TimerQueue" where
  "timer_remove tq tid =
     (if 0 \<le> tid \<and> tid < int (length tq) then tq[nat tid := (tq ! nat tid)\<lparr>timer_active := False\<rparr>] else tq)"

fun next_timeout :: "timespec \<Rightarrow> 'cb TimerQueue \<Rightarrow> int \<Rightarrow> int" where
  "next_timeout now [] min_ms = min_ms"
| "next_timeout now (t # tq) min_ms =
     (if \<not> timer_active t then next_timeout now tq min_ms
      else
        let diff = timespec_diff_ms (next_fire t) now in
        if diff \<le> 0 then 0
        else next_timeout now tq (if diff < min_ms then diff else min_ms))"

definition timer_next_timeout_ms :: "('s \<Rightarrow> timespec \<times> 's) \<Rightarrow> 'cb TimerQueue \<Rightarrow> 's \<Rightarrow> int \<times> 's" where
  "timer_next_timeout_ms clk tq s =
     (if tq = [] then (1000, s) else let (now, s) = clk s in (next_timeout now tq 1000, s))"

fun process_expired ::
    "('s \<Rightarrow> timespec \<times> 's) \<Rightarrow> ('cb \<Rightarrow> 's \<Rightarrow> 's option) \<Rightarrow> timespec \<Rightarrow> 'cb TimerQueue \<Rightarrow> 's \<Rightarrow>
      ('cb TimerQueue \<times> 's) option" where
  "process_expired clk run now [] s = Some ([], s)"
| "process_expired clk run now (t # tq) s =
     (if timer_active t \<and> timespec_diff_ms (next_fire t) now \<le> 0 then do {
        s \<leftarrow> run (timer_callback t) s;
        let (now', s) = clk s;
        (tq, s) \<leftarrow> process_expired clk run now tq s;
        Some (t\<lparr>next_fire := timespec_add_ms now' (interval_ms t)\<rparr> # tq, s)
      }
      else do {
        (tq, s) \<leftarrow> process_expired clk run now tq s;
        Some (t # tq, s)
      })"

definition timer_process_expired ::
    "('s \<Rightarrow> timespec \<times> 's) \<Rightarrow> ('cb \<Rightarrow> 's \<Rightarrow> 's option) \<Rightarrow> 'cb TimerQueue \<Rightarrow> 's \<Rightarrow> ('cb TimerQueue \<times> 's) option" where
  "timer_process_expired clk run tq s = (let (now, s) = clk s in process_expired clk run now tq s)"

section \<open>Time\<close>

definition nanos :: "timespec \<Rightarrow> int" where
  "nanos ts = tv_sec ts * 1000000000 + tv_nsec ts"

definition normalised :: "timespec \<Rightarrow> bool" where
  "normalised ts \<longleftrightarrow> 0 \<le> tv_nsec ts \<and> tv_nsec ts < 1000000000"

lemma carry_seconds_ok:
  "0 \<le> tv_nsec ts \<Longrightarrow> normalised (carry_seconds ts) \<and> nanos (carry_seconds ts) = nanos ts"
proof (induction ts rule: carry_seconds.induct)
  case (1 ts)
  show ?case
  proof (cases "1000000000 \<le> tv_nsec ts")
    case True
    with 1 show ?thesis by (subst (1 2) carry_seconds.simps) (auto simp: nanos_def)
  next
    case False
    with 1(2) show ?thesis by (subst (1 2) carry_seconds.simps) (simp add: normalised_def)
  qed
qed

lemma add_ms_ok:
  assumes "normalised ts" "0 \<le> ms"
  shows "normalised (timespec_add_ms ts ms)" "nanos (timespec_add_ms ts ms) = nanos ts + ms * 1000000"
  using carry_seconds_ok [of "ts\<lparr>tv_nsec := tv_nsec ts + ms * 1000000\<rparr>"] assms
  by (simp_all add: timespec_add_ms_def normalised_def nanos_def)

lemma quot_bounds:
  "a \<le> 1000000 * quot a 1000000 + 999999" "1000000 * quot a 1000000 \<le> a + 999999"
  "0 \<le> a \<Longrightarrow> 1000000 * quot a 1000000 \<le> a" "a \<le> 0 \<Longrightarrow> a \<le> 1000000 * quot a 1000000"
proof -
  have "quot a 1000000 = (if 0 \<le> a then a div 1000000 else - (- a div 1000000))" by (simp add: quot_def)
  then show "a \<le> 1000000 * quot a 1000000 + 999999" "1000000 * quot a 1000000 \<le> a + 999999"
    "0 \<le> a \<Longrightarrow> 1000000 * quot a 1000000 \<le> a" "a \<le> 0 \<Longrightarrow> a \<le> 1000000 * quot a 1000000"
    by (auto split: if_splits)
qed

lemma diff_ms_bounds:
  "nanos a - nanos b - 1000000 < timespec_diff_ms a b * 1000000"
  "timespec_diff_ms a b * 1000000 < nanos a - nanos b + 1000000"
  using quot_bounds(1,2) [of "tv_nsec a - tv_nsec b"]
  by (simp_all add: timespec_diff_ms_def nanos_def algebra_simps)

lemma diff_ms_expired:
  assumes "normalised a" "normalised b" "nanos a \<le> nanos b"
  shows "timespec_diff_ms a b \<le> 0"
proof (cases "tv_nsec a - tv_nsec b \<le> 0")
  case True
  have "tv_sec a - tv_sec b \<le> 0"
    using assms by (simp add: normalised_def nanos_def)
  moreover have "quot (tv_nsec a - tv_nsec b) 1000000 \<le> 0"
    using True by (simp add: quot_def) (simp add: pos_imp_zdiv_nonneg_iff)
  ultimately show ?thesis by (simp add: timespec_diff_ms_def)
next
  case False
  with assms(3) have "tv_sec a - tv_sec b \<le> - 1" by (simp add: nanos_def)
  moreover have "quot (tv_nsec a - tv_nsec b) 1000000 < 1000"
    using False assms quot_bounds(3) [of "tv_nsec a - tv_nsec b"] by (simp add: normalised_def)
  ultimately show ?thesis by (simp add: timespec_diff_ms_def)
qed

section \<open>Timeouts and expiry\<close>

definition due :: "timespec \<Rightarrow> 'cb Timer \<Rightarrow> bool" where
  "due now t \<longleftrightarrow> timer_active t \<and> timespec_diff_ms (next_fire t) now \<le> 0"

text \<open>The time in ms until the earliest active timer, or \<open>m\<close> if that is less.\<close>

fun earliest :: "timespec \<Rightarrow> 'cb TimerQueue \<Rightarrow> int \<Rightarrow> int" where
  "earliest now [] m = m"
| "earliest now (t # tq) m =
     (if timer_active t then min (timespec_diff_ms (next_fire t) now) (earliest now tq m) else earliest now tq m)"

lemma earliest_min: "earliest now tq (min d m) = min d (earliest now tq m)"
  by (induction tq) auto

lemma next_timeout_earliest:
  "0 < m \<Longrightarrow> next_timeout now tq m = (if list_ex (due now) tq then 0 else earliest now tq m)"
proof (induction tq arbitrary: m)
  case Nil
  then show ?case by simp
next
  case (Cons t tq)
  let ?d = "timespec_diff_ms (next_fire t) now"
  have "next_timeout now (t # tq) m =
      (if \<not> timer_active t then next_timeout now tq m else if ?d \<le> 0 then 0 else next_timeout now tq (min ?d m))"
    by (simp add: Let_def min_def)
  with Cons.IH [of m] Cons.IH [of "min ?d m"] Cons.prems show ?case
    by (auto simp: due_def earliest_min)
qed

lemma earliest_bounds:
  "earliest now tq m \<le> m"
  "t \<in> set tq \<Longrightarrow> timer_active t \<Longrightarrow> earliest now tq m \<le> timespec_diff_ms (next_fire t) now"
  "0 < m \<Longrightarrow> \<not> list_ex (due now) tq \<Longrightarrow> 0 < earliest now tq m"
  by (induction tq) (auto simp: due_def min_le_iff_disj)

text \<open>A pass of the queue while the clock stands still, for callbacks that return.\<close>

lemma process_expired_fold:
  "process_expired (\<lambda>s. (now', s)) (\<lambda>cb s. Some (f cb s)) now tq s =
     Some (map (\<lambda>t. if due now t then t\<lparr>next_fire := timespec_add_ms now' (interval_ms t)\<rparr> else t) tq,
       fold f (map timer_callback (filter (due now) tq)) s)"
  by (induction tq arbitrary: s) (auto simp: due_def)

section \<open>Properties\<close>

text \<open>Adding milliseconds to a normalised time is exact and keeps it normalised.\<close>

theorem add_ms_exact:
  assumes "normalised ts" "0 \<le> ms"
  shows "normalised (timespec_add_ms ts ms) \<and> nanos (timespec_add_ms ts ms) = nanos ts + ms * 1000000"
  using add_ms_ok [OF assms] by simp

theorem add_ms_exact_witness:
  "timespec_add_ms \<lparr>tv_sec = 5, tv_nsec = 999000000\<rparr> 2500 = \<lparr>tv_sec = 8, tv_nsec = 499000000\<rparr> \<and>
   normalised \<lparr>tv_sec = 8, tv_nsec = 499000000\<rparr>"
proof -
  have "timespec_add_ms \<lparr>tv_sec = 5, tv_nsec = 999000000\<rparr> 2500 = \<lparr>tv_sec = 8, tv_nsec = 499000000\<rparr>"
    by (simp add: timespec_add_ms_def carry_seconds.simps)
  with add_ms_exact [of "\<lparr>tv_sec = 5, tv_nsec = 999000000\<rparr>" 2500] show ?thesis
    by (simp add: normalised_def)
qed

text \<open>A timer never fires a millisecond or more before its time, and one whose time has come is
  seen as expired: the difference in whole milliseconds, which rounds toward zero part by part, is
  not positive at or after the time, and positive from one millisecond before it on.\<close>

theorem expiry_precision:
  assumes "normalised fire" "normalised now"
  shows "(nanos fire \<le> nanos now \<longrightarrow> timespec_diff_ms fire now \<le> 0) \<and>
    (timespec_diff_ms fire now \<le> 0 \<longrightarrow> nanos fire < nanos now + 1000000)"
  using diff_ms_expired [OF assms] diff_ms_bounds(1) [of fire now] by auto

theorem expiry_precision_witness:
  "timespec_diff_ms \<lparr>tv_sec = 1, tv_nsec = 0\<rparr> \<lparr>tv_sec = 1, tv_nsec = 0\<rparr> \<le> 0"
  using expiry_precision [of "\<lparr>tv_sec = 1, tv_nsec = 0\<rparr>" "\<lparr>tv_sec = 1, tv_nsec = 0\<rparr>"]
  by (simp add: normalised_def)

text \<open>The timeout the event loop waits with is between 0 and 1000 ms; it is 0 exactly when an
  active timer is due, and it never passes the time of an active timer.\<close>

theorem timeout_bounds:
  "let (ms, s') = timer_next_timeout_ms clk tq s; now = fst (clk s) in
   0 \<le> ms \<and> ms \<le> 1000 \<and> (ms = 0 \<longleftrightarrow> list_ex (due now) tq) \<and>
   (ms \<noteq> 0 \<longrightarrow> list_all (\<lambda>t. timer_active t \<longrightarrow> ms \<le> timespec_diff_ms (next_fire t) now) tq)"
proof -
  obtain now s' where c: "clk s = (now, s')" by fastforce
  have "0 < earliest now tq 1000" if "\<not> list_ex (due now) tq"
    using that by (intro earliest_bounds(3)) simp_all
  with earliest_bounds(1) [of now tq 1000] earliest_bounds(2) [of _ tq now 1000] show ?thesis
    by (auto simp: timer_next_timeout_ms_def c next_timeout_earliest list_all_iff)
qed

theorem timeout_bounds_witness:
  "fst (timer_next_timeout_ms (\<lambda>s. (\<lparr>tv_sec = 1, tv_nsec = 0\<rparr>, s))
     [\<lparr>interval_ms = 30000, timer_callback = (), next_fire = \<lparr>tv_sec = 1, tv_nsec = 0\<rparr>, timer_active = True\<rparr>] ()) = 0"
  using timeout_bounds [of "\<lambda>s. (\<lparr>tv_sec = 1, tv_nsec = 0\<rparr>, s)"
     "[\<lparr>interval_ms = 30000, timer_callback = (), next_fire = \<lparr>tv_sec = 1, tv_nsec = 0\<rparr>, timer_active = True\<rparr>]" "()"]
  by (auto simp: due_def timespec_diff_ms_def quot_def split: prod.splits)


text \<open>A queue takes 32 timers in its life, since a removed timer keeps its slot: adding gives the
  next slot number while there is room, and -1 without a change after that; removing never makes
  room.\<close>

theorem timer_slots:
  "(let (tq', i, s') = timer_add clk tq ms cb s in
      if length tq < 32 then i = int (length tq) \<and> length tq' = Suc (length tq) \<and> take (length tq) tq' = tq
      else i = - 1 \<and> tq' = tq \<and> s' = s) \<and>
   length (timer_remove tq i) = length tq"
  by (auto simp: timer_add_def MAX_TIMERS_def timer_remove_def split: prod.splits)

end
