(* ===== verification/Event_Loop.thy ===== *)
theory Event_Loop
  imports Externals Timer
begin

text \<open>
  \<open>src/event/event_loop.c\<close>: registration of handlers with epoll, and the loop that waits, calls the
  handlers of the events it got and then the timers that are due. What a handler does, what the
  wait returns, the clock and the timer callbacks are arguments of the loop; they act on a state of
  an arbitrary type. A signal that asks the process to stop is taken to arrive during a wait.
\<close>

datatype Callback = On_Accept | On_Client_Readable | On_Client_Writable | On_Backend_Readable | On_Scatter_Readable

record EventHandler =
  ev_fd :: int
  ev_events :: "ep_event set"
  ev_callback :: "Callback option"

definition event_handler_zero :: EventHandler where
  "event_handler_zero = \<lparr>ev_fd = 0, ev_events = {}, ev_callback = None\<rparr>"

record 'cb EventLoop =
  epfd :: int
  running :: bool
  loop_timers :: "'cb TimerQueue"

section \<open>The code\<close>

text \<open>The argument is what \<open>epoll_create1\<close> returned.\<close>

definition event_loop_init :: "int \<Rightarrow> 'cb EventLoop \<Rightarrow> 'cb EventLoop \<times> int" where
  "event_loop_init fd loop =
     (let loop = loop\<lparr>epfd := fd\<rparr> in
      if fd < 0 then (loop, - 1) else (loop\<lparr>running := False, loop_timers := timer_queue_init\<rparr>, 0))"

definition event_loop_destroy :: "'w ext \<Rightarrow> 'cb EventLoop \<Rightarrow> 'w \<Rightarrow> 'cb EventLoop \<times> 'w" where
  "event_loop_destroy E loop w =
     (if 0 \<le> epfd loop then (loop\<lparr>epfd := - 1\<rparr>, sys_close E (epfd loop) w) else (loop, w))"

definition event_loop_stop :: "'cb EventLoop \<Rightarrow> 'cb EventLoop" where
  "event_loop_stop loop = loop\<lparr>running := False\<rparr>"

definition event_loop_add ::
    "'w ext \<Rightarrow> handler_ptr \<Rightarrow> EventHandler \<Rightarrow> ep_event set \<Rightarrow> 'w \<Rightarrow> EventHandler \<times> int \<times> 'w" where
  "event_loop_add E ptr handler events w =
     (let handler = handler\<lparr>ev_events := events\<rparr>;
          (rc, w) = epoll_ctl E EPOLL_CTL_ADD (ev_fd handler) (Some (ptr, events)) w
      in (handler, if rc < 0 then - 1 else 0, w))"

definition event_loop_mod ::
    "'w ext \<Rightarrow> handler_ptr \<Rightarrow> EventHandler \<Rightarrow> ep_event set \<Rightarrow> 'w \<Rightarrow> EventHandler \<times> int \<times> 'w" where
  "event_loop_mod E ptr handler events w =
     (let handler = handler\<lparr>ev_events := events\<rparr>;
          (rc, w) = epoll_ctl E EPOLL_CTL_MOD (ev_fd handler) (Some (ptr, events)) w
      in (handler, if rc < 0 then - 1 else 0, w))"

definition event_loop_del :: "'w ext \<Rightarrow> EventHandler \<Rightarrow> 'w \<Rightarrow> int \<times> 'w" where
  "event_loop_del E handler w =
     (let (rc, w) = epoll_ctl E EPOLL_CTL_DEL (ev_fd handler) None w in (if rc < 0 then - 1 else 0, w))"

datatype wait_result =
    Wait_Intr
  | Wait_Error
  | Wait_Events "(handler_ptr option \<times> ep_event set) list"

text \<open>One batch of events; \<open>None\<close> is a NULL \<open>data.ptr\<close>. The handler's own callback pointer is read by
  \<open>dispatch\<close>.\<close>

fun dispatch_all ::
    "(handler_ptr \<Rightarrow> ep_event set \<Rightarrow> 's \<Rightarrow> 's option) \<Rightarrow> (handler_ptr option \<times> ep_event set) list \<Rightarrow> 's \<Rightarrow> 's option" where
  "dispatch_all dispatch [] s = Some s"
| "dispatch_all dispatch ((h, evs) # es) s = do {
     s \<leftarrow> (case h of None \<Rightarrow> Some s | Some ptr \<Rightarrow> dispatch ptr evs s);
     dispatch_all dispatch es s
   }"

partial_function (option) run_loop ::
    "(int \<Rightarrow> 's \<Rightarrow> wait_result \<times> 's) \<Rightarrow> ('s \<Rightarrow> bool) \<Rightarrow> (handler_ptr \<Rightarrow> ep_event set \<Rightarrow> 's \<Rightarrow> 's option) \<Rightarrow>
     ('s \<Rightarrow> timespec \<times> 's) \<Rightarrow> ('cb \<Rightarrow> 's \<Rightarrow> 's option) \<Rightarrow> 'cb EventLoop \<Rightarrow> 's \<Rightarrow> ('cb EventLoop \<times> 's) option" where
  "run_loop wait signalled dispatch clk run loop s =
     (if \<not> running loop then Some (loop, s)
      else
        let (timeout_ms, s) = timer_next_timeout_ms clk (loop_timers loop) s;
            (r, s) = wait timeout_ms s;
            loop = (if signalled s then event_loop_stop loop else loop)
        in
          (case r of
             Wait_Intr \<Rightarrow> run_loop wait signalled dispatch clk run loop s
           | Wait_Error \<Rightarrow> Some (loop, s)
           | Wait_Events es \<Rightarrow> do {
               s \<leftarrow> dispatch_all dispatch es s;
               (tq, s) \<leftarrow> timer_process_expired clk run (loop_timers loop) s;
               run_loop wait signalled dispatch clk run (loop\<lparr>loop_timers := tq\<rparr>) s
             }))"

definition event_loop_run ::
    "(int \<Rightarrow> 's \<Rightarrow> wait_result \<times> 's) \<Rightarrow> ('s \<Rightarrow> bool) \<Rightarrow> (handler_ptr \<Rightarrow> ep_event set \<Rightarrow> 's \<Rightarrow> 's option) \<Rightarrow>
     ('s \<Rightarrow> timespec \<times> 's) \<Rightarrow> ('cb \<Rightarrow> 's \<Rightarrow> 's option) \<Rightarrow> 'cb EventLoop \<Rightarrow> 's \<Rightarrow> ('cb EventLoop \<times> 's) option" where
  "event_loop_run wait signalled dispatch clk run loop s =
     run_loop wait signalled dispatch clk run (loop\<lparr>running := True\<rparr>) s"

section \<open>Batches\<close>

lemma dispatch_all_append:
  "dispatch_all d (es @ fs) s = Option.bind (dispatch_all d es s) (dispatch_all d fs)"
proof (induction es arbitrary: s)
  case Nil
  then show ?case by simp
next
  case (Cons e es)
  then have "dispatch_all d (es @ fs) = (\<lambda>s. Option.bind (dispatch_all d es s) (dispatch_all d fs))" by blast
  then show ?case by (cases e) (simp add: Option.bind_assoc)
qed

text \<open>The contract between the loop and its handlers: an invariant of the state that every handler,
  every timer callback, the wait and the clock keep. The loop then keeps it.\<close>

locale loop_handlers =
  fixes wait :: "int \<Rightarrow> 's \<Rightarrow> wait_result \<times> 's"
    and dispatch :: "handler_ptr \<Rightarrow> ep_event set \<Rightarrow> 's \<Rightarrow> 's option"
    and clk :: "'s \<Rightarrow> timespec \<times> 's"
    and run :: "'cb \<Rightarrow> 's \<Rightarrow> 's option"
    and I :: "'s \<Rightarrow> bool"
  assumes wait_inv: "I s \<Longrightarrow> I (snd (wait ms s))"
    and dispatch_inv: "I s \<Longrightarrow> dispatch ptr evs s = Some s' \<Longrightarrow> I s'"
    and clk_inv: "I s \<Longrightarrow> I (snd (clk s))"
    and run_inv: "I s \<Longrightarrow> run cb s = Some s' \<Longrightarrow> I s'"
begin

lemma dispatch_all_inv: "I s \<Longrightarrow> dispatch_all dispatch es s = Some s' \<Longrightarrow> I s'"
proof (induction es arbitrary: s)
  case Nil
  then show ?case by simp
next
  case (Cons e es)
  obtain h evs where e: "e = (h, evs)" by fastforce
  from Cons.prems(2) e obtain s1 where
    "(case h of None \<Rightarrow> Some s | Some ptr \<Rightarrow> dispatch ptr evs s) = Some s1"
    and s1: "dispatch_all dispatch es s1 = Some s'" by (auto simp: bind_eq_Some_conv)
  then have "I s1" using Cons.prems(1) dispatch_inv by (auto split: option.splits)
  from Cons.IH [OF this s1] show ?case .
qed

lemma process_expired_inv:
  "I s \<Longrightarrow> process_expired clk run now tq s = Some (tq', s') \<Longrightarrow> I s' \<and> length tq' = length tq"
proof (induction tq arbitrary: s tq')
  case Nil
  then show ?case by simp
next
  case (Cons t tq)
  show ?case
  proof (cases "timer_active t \<and> timespec_diff_ms (next_fire t) now \<le> 0")
    case True
    with Cons.prems(2) obtain s1 where s1: "run (timer_callback t) s = Some s1"
      by (auto simp: bind_eq_Some_conv)
    obtain now' s2 where s2: "clk s1 = (now', s2)" by fastforce
    from True Cons.prems(2) s1 s2 obtain tq1 where
      *: "run (timer_callback t) s = Some s1" "clk s1 = (now', s2)"
        "process_expired clk run now tq s2 = Some (tq1, s')" "length tq' = Suc (length tq1)"
      by (auto simp: bind_eq_Some_conv)
    have "I s2" using clk_inv [OF run_inv [OF Cons.prems(1) *(1)]] *(2) by simp
    from Cons.IH [OF this *(3)] *(4) show ?thesis by simp
  next
    case False
    with Cons.prems(2) obtain tq1 where
      "process_expired clk run now tq s = Some (tq1, s')" "length tq' = Suc (length tq1)"
      by (auto simp: bind_eq_Some_conv split: if_splits)
    with Cons.IH [OF Cons.prems(1)] show ?thesis by simp
  qed
qed

lemma timers_inv:
  "I s \<Longrightarrow> timer_process_expired clk run tq s = Some (tq', s') \<Longrightarrow> I s' \<and> length tq' = length tq"
  using process_expired_inv [of "snd (clk s)" "fst (clk s)" tq tq' s'] clk_inv
  by (simp add: timer_process_expired_def split: prod.splits)

lemma timeout_inv: "I s \<Longrightarrow> I (snd (timer_next_timeout_ms clk tq s))"
  using clk_inv [of s] by (auto simp: timer_next_timeout_ms_def split: prod.splits)

lemma run_loop_inv:
  assumes "run_loop wait signalled dispatch clk run loop s = Some (loop', s')" "I s"
  shows "I s'"
proof -
  define P where "P = (\<lambda>w' (sg :: 's \<Rightarrow> bool) d' c' r' (l :: 'cb EventLoop) s (res :: 'cb EventLoop \<times> 's).
    w' = wait \<longrightarrow> d' = dispatch \<longrightarrow> c' = clk \<longrightarrow> r' = run \<longrightarrow> I s \<longrightarrow> I (snd res))"
  have "P wait signalled dispatch clk run loop s (loop', s')"
  proof (rule run_loop.raw_induct [of P, OF _ assms(1)], goal_cases)
    case (1 f w' sg d' c' r' l s res)
    show ?case
      unfolding P_def
    proof (intro impI)
      assume eqs: "w' = wait" "d' = dispatch" "c' = clk" "r' = run" and I: "I s"
      obtain ms s1 where s1: "timer_next_timeout_ms clk (loop_timers l) s = (ms, s1)" by fastforce
      obtain r s2 where s2: "wait ms s1 = (r, s2)" by fastforce
      have I2: "I s2" using wait_inv [of s1 ms] timeout_inv [OF I, of "loop_timers l"] s1 s2 by simp
      have IH: "I (snd y)" if "f wait sg dispatch clk run l2 s3 = Some y" "I s3" for l2 s3 y
        using 1(1) [OF that(1)] that(2) by (simp add: P_def)
      show "I (snd res)"
      proof (cases "running l")
        case False
        with 1(2) I show ?thesis by auto
      next
        case True
        let ?l = "if sg s2 then event_loop_stop l else l"
        show ?thesis
        proof (cases r)
          case Wait_Intr
          with True 1(2) s1 s2 have "f wait sg dispatch clk run ?l s2 = Some res" by (simp add: eqs)
          from IH [OF this I2] show ?thesis .
        next
          case Wait_Error
          with True 1(2) s1 s2 have "res = (?l, s2)" by (simp add: eqs)
          with I2 show ?thesis by simp
        next
          case (Wait_Events es)
          with True 1(2) s1 s2 obtain s3 tq s4 where
            *: "dispatch_all dispatch es s2 = Some s3"
              "timer_process_expired clk run (loop_timers ?l) s3 = Some (tq, s4)"
              "f wait sg dispatch clk run (?l\<lparr>loop_timers := tq\<rparr>) s4 = Some res"
            by (auto simp: eqs bind_eq_Some_conv Let_def)
          from timers_inv [OF dispatch_all_inv [OF I2 *(1)] *(2)] IH [OF *(3)] show ?thesis by simp
        qed
      qed
    qed
  qed
  with assms(2) show ?thesis by (simp add: P_def)
qed

end

section \<open>Properties\<close>



text \<open>A failing \<open>epoll_wait\<close> ends the loop at once, without handling events or timers; an
  interrupted one makes the loop wait again.\<close>

theorem wait_failure:
  assumes "running loop" "timer_next_timeout_ms clk (loop_timers loop) s = (ms, s1)" "\<not> signalled s2"
  shows "(wait ms s1 = (Wait_Error, s2) \<longrightarrow>
      run_loop wait signalled dispatch clk run loop s = Some (loop, s2)) \<and>
    (wait ms s1 = (Wait_Intr, s2) \<longrightarrow>
      run_loop wait signalled dispatch clk run loop s = run_loop wait signalled dispatch clk run loop s2)"
  using assms by (auto simp: run_loop.simps [of _ _ _ _ _ loop s])

theorem wait_failure_witness:
  "run_loop (\<lambda>ms s. (Wait_Error, s)) (\<lambda>s. False) (\<lambda>ptr evs s. None) (\<lambda>s. (\<lparr>tv_sec = 1, tv_nsec = 0\<rparr>, s))
     (\<lambda>cb s. None) \<lparr>epfd = 3, running = True, loop_timers = [] :: unit TimerQueue\<rparr> (7 :: nat) =
   Some (\<lparr>epfd = 3, running = True, loop_timers = []\<rparr>, 7)"
  using wait_failure [of "\<lparr>epfd = 3, running = True, loop_timers = [] :: unit TimerQueue\<rparr>"
      "\<lambda>s :: nat. (\<lparr>tv_sec = 1, tv_nsec = 0\<rparr>, s)" 7 1000 7 "\<lambda>s. False" 7 "\<lambda>ms s. (Wait_Error, s)"
      "\<lambda>ptr evs s. None" "\<lambda>cb s. None"]
  by (simp add: timer_next_timeout_ms_def)

end
