(* ===== verification/Json_Util.thy ===== *)
theory Json_Util
  imports Sharegres_Prelude
begin

text \<open>
  The JSON navigator of \<open>src/parser/json_util.c\<close>, which walks over the text of a libpg_query
  parse tree without building it. A pointer into the text is the rest of the text from there.
  The last sections relate the navigator to JSON trees: a tree, its compact rendering, what it
  means that a pointer points at a tree, and that each navigator function computes on such
  pointers what the corresponding operation computes on the tree.
\<close>

section \<open>The navigator\<close>

definition json_skip_whitespace :: "cstring \<Rightarrow> cstring" where
  "json_skip_whitespace p = dropWhile isspace p"

text \<open>The loop of \<open>skip_string\<close> and \<open>json_get_string\<close>: up to the closing quote, or to the end.
  A backslash before the terminator makes the pointer jump over the terminator.\<close>

fun string_body :: "cstring \<Rightarrow> cstring option" where
  "string_body [] = Some []"
| "string_body (c # cs) =
     (if c = QUOTE then Some (c # cs)
      else if c = BACKSLASH then (case cs of [] \<Rightarrow> None | d # ds \<Rightarrow> string_body ds)
      else string_body cs)"

definition skip_char :: "char \<Rightarrow> cstring \<Rightarrow> cstring" where
  "skip_char c p = (if p \<noteq> [] \<and> hd p = c then tl p else p)"

definition skip_string :: "cstring \<Rightarrow> cstring option" where
  "skip_string p =
     (if p = [] \<or> hd p \<noteq> QUOTE then Some p
      else do {
        r \<leftarrow> string_body (tl p);
        Some (skip_char QUOTE r)
      })"

lemma string_body_length: "string_body p = Some r \<Longrightarrow> length r \<le> length p"
  by (induction p rule: string_body.induct) (auto split: if_splits list.splits)

lemma skip_char_length: "length (skip_char c p) \<le> length p"
  by (simp add: skip_char_def)

lemma skip_string_length:
  "skip_string p = Some r \<Longrightarrow> p \<noteq> [] \<Longrightarrow> hd p = QUOTE \<Longrightarrow> length r < length p"
  using skip_char_length string_body_length
  by (cases p) (fastforce simp: skip_string_def bind_eq_Some_conv intro: le_less_trans)+

lemma skip_ws_length: "length (json_skip_whitespace p) \<le> length p"
  by (simp add: json_skip_whitespace_def length_dropWhile_le)

text \<open>The two loops of \<open>json_skip_value\<close> over an object (\<open>{\<close>, \<open>}\<close>) and an array (\<open>[\<close>, \<open>]\<close>).\<close>

function skip_nested :: "char \<Rightarrow> char \<Rightarrow> nat \<Rightarrow> cstring \<Rightarrow> cstring option" where
  "skip_nested op cl depth p =
     (if p = [] \<or> depth = 0 then Some p
      else if hd p = op then skip_nested op cl (depth + 1) (tl p)
      else if hd p = cl then skip_nested op cl (depth - 1) (tl p)
      else if hd p = QUOTE then do {
        q \<leftarrow> skip_string p;
        skip_nested op cl depth q
      }
      else skip_nested op cl depth (tl p))"
  by pat_completeness auto
termination
  by (relation "measure (\<lambda>(op, cl, depth, p). length p)") (auto dest: skip_string_length)

declare skip_nested.simps [simp del]

definition is_scalar_char :: "char \<Rightarrow> bool" where
  "is_scalar_char c \<longleftrightarrow> c \<noteq> CHR '','' \<and> c \<noteq> CHR ''}'' \<and> c \<noteq> CHR '']'' \<and> \<not> isspace c"

definition json_skip_value :: "cstring \<Rightarrow> cstring option" where
  "json_skip_value p =
     (let p = json_skip_whitespace p in
      if p \<noteq> [] \<and> hd p = QUOTE then skip_string p
      else if p \<noteq> [] \<and> hd p = CHR ''{'' then skip_nested (CHR ''{'') (CHR ''}'') 1 (tl p)
      else if p \<noteq> [] \<and> hd p = CHR ''['' then skip_nested (CHR ''['') (CHR '']'') 1 (tl p)
      else Some (dropWhile is_scalar_char p))"

text \<open>\<open>strncmp(json + 1, key, keylen) == 0 \<and> json[1 + keylen] == '"'\<close> at a quote.\<close>

definition key_matches :: "cstring \<Rightarrow> cstring \<Rightarrow> bool" where
  "key_matches json key \<longleftrightarrow>
     take (length key) (tl json) = key \<and>
     (case drop (length key) (tl json) of [] \<Rightarrow> False | c # _ \<Rightarrow> c = QUOTE)"

lemma skip_nested_length: "skip_nested op cl d p = Some r \<Longrightarrow> length r \<le> length p"
proof (induction op cl d p arbitrary: r rule: skip_nested.induct)
  case (1 op cl d p)
  show ?case
  proof (cases "p = [] \<or> d = 0")
    case True
    with "1.prems" show ?thesis by (auto simp: skip_nested.simps [of op cl d p])
  next
    case False
    have tl: "length (tl p) \<le> length p" by simp
    consider (op) "hd p = op" | (cl) "hd p \<noteq> op" "hd p = cl"
      | (quote) "hd p \<noteq> op" "hd p \<noteq> cl" "hd p = QUOTE"
      | (other) "hd p \<noteq> op" "hd p \<noteq> cl" "hd p \<noteq> QUOTE"
      by blast
    then show ?thesis
    proof cases
      case op
      with False "1.prems" have "skip_nested op cl (d + 1) (tl p) = Some r"
        by (simp add: skip_nested.simps [of op cl d p])
      with "1.IH"(1) False op tl show ?thesis by (meson le_trans)
    next
      case cl
      with False "1.prems" have "skip_nested op cl (d - 1) (tl p) = Some r"
        by (simp add: skip_nested.simps [of op cl d p])
      with "1.IH"(2) False cl tl show ?thesis by (meson le_trans)
    next
      case quote
      with False "1.prems" obtain q where q: "skip_string p = Some q"
        and r: "skip_nested op cl d q = Some r"
        by (auto simp: skip_nested.simps [of op cl d p] bind_eq_Some_conv)
      have "length r \<le> length q"
        using "1.IH"(3) [OF False quote q r] .
      then show ?thesis
        using skip_string_length [OF q] False quote by simp
    next
      case other
      with False "1.prems" have "skip_nested op cl d (tl p) = Some r"
        by (simp add: skip_nested.simps [of op cl d p])
      with "1.IH"(4) False other tl show ?thesis by (meson le_trans)
    qed
  qed
qed

lemma json_skip_value_length: "json_skip_value p = Some r \<Longrightarrow> length r \<le> length p"
proof -
  assume h: "json_skip_value p = Some r"
  let ?p = "json_skip_whitespace p"
  have "length r \<le> length ?p"
    using h skip_nested_length [of _ _ 1 "tl ?p" r] skip_string_length [of ?p r]
      length_dropWhile_le [of is_scalar_char ?p]
    by (auto simp: json_skip_value_def Let_def split: if_splits) fastforce+
  then show ?thesis using skip_ws_length [of p] by simp
qed

text \<open>The member loop of \<open>json_find_key\<close>.\<close>

function find_key_loop :: "cstring \<Rightarrow> cstring \<Rightarrow> cstring option option" where
  "find_key_loop json key =
     (if json = [] \<or> hd json = CHR ''}'' then Some None
      else
        let json = json_skip_whitespace json in
        if json = [] \<or> hd json \<noteq> QUOTE then Some None
        else if key_matches json key then
          (let json = json_skip_whitespace (drop (2 + length key) json) in
           Some (Some (json_skip_whitespace (skip_char (CHR '':'') json))))
        else do {
          json' \<leftarrow> skip_string json;
          json'' \<leftarrow> json_skip_value
            (json_skip_whitespace (skip_char (CHR '':'') (json_skip_whitespace json')));
          find_key_loop (skip_char (CHR '','') (json_skip_whitespace json'')) key
        })"
  by pat_completeness auto
termination
proof (relation "measure (\<lambda>(json, key). length json)", goal_cases)
  case 1
  show ?case by simp
next
  case (2 json key json1 json' json'')
  have "length (json_skip_whitespace json'') \<le> length json''"
    by (rule skip_ws_length)
  moreover have "length json'' \<le> length json'"
    using json_skip_value_length [OF 2(6)] skip_ws_length skip_char_length
    by (metis (no_types, lifting) le_trans)
  moreover have "length json' < length json1"
    using 2(3,5) by (auto intro: skip_string_length)
  moreover have "length json1 \<le> length json"
    using 2(2) skip_ws_length by simp
  ultimately show ?case
    using skip_char_length [of "CHR '',''" "json_skip_whitespace json''"] by simp
qed

declare find_key_loop.simps [simp del]

definition json_find_key :: "cstring option \<Rightarrow> cstring \<Rightarrow> cstring option option" where
  "json_find_key json key =
     (case json of
        None \<Rightarrow> Some None
      | Some p \<Rightarrow>
          let p = json_skip_whitespace p in
          if p = [] \<or> hd p \<noteq> CHR ''{'' then Some None else find_key_loop (tl p) key)"

definition json_get_string :: "cstring option \<Rightarrow> cstring option option" where
  "json_get_string json =
     (case json of
        None \<Rightarrow> Some None
      | Some p \<Rightarrow>
          let p = json_skip_whitespace p in
          if p = [] \<or> hd p \<noteq> QUOTE then Some None
          else do {
            r \<leftarrow> string_body (tl p);
            Some (Some (take (length (tl p) - length r) (tl p)))
          })"

definition json_get_int :: "cstring option \<Rightarrow> int" where
  "json_get_int json = (case json of None \<Rightarrow> 0 | Some p \<Rightarrow> strtoll (json_skip_whitespace p))"

definition json_starts_with_key :: "cstring option \<Rightarrow> cstring \<Rightarrow> bool" where
  "json_starts_with_key json key =
     (case json of
        None \<Rightarrow> False
      | Some p \<Rightarrow>
          let p = json_skip_whitespace p in
          if p = [] \<or> hd p \<noteq> CHR ''{'' then False
          else
            let q = json_skip_whitespace (tl p) in
            if q = [] \<or> hd q \<noteq> QUOTE then False else key_matches q key)"

text \<open>
  \<open>json_find_key_recursive\<close> with its two loops. The loops call the function and the function
  enters the loops, so the three are one function with the place as its first argument.
  The array loop makes no progress on a misplaced closing brace, hence a partial function.
\<close>

datatype nav_place = At_Value | In_Object | In_Array

partial_function (option)
  find_recursive :: "nav_place \<Rightarrow> cstring \<Rightarrow> cstring \<Rightarrow> cstring option option" where
  "find_recursive pl p key =
     (case pl of
        At_Value \<Rightarrow>
          (let json = json_skip_whitespace p in
           if json \<noteq> [] \<and> hd json = CHR ''{'' then do {
             val \<leftarrow> json_find_key (Some json) key;
             (case val of
                Some v \<Rightarrow> Some (Some v)
              | None \<Rightarrow> find_recursive In_Object (tl json) key)
           }
           else if json \<noteq> [] \<and> hd json = CHR ''['' then find_recursive In_Array (tl json) key
           else Some None)
      | In_Object \<Rightarrow>
          (if p = [] \<or> hd p = CHR ''}'' then Some None
           else
             let q = json_skip_whitespace p in
             if q \<noteq> [] \<and> hd q = QUOTE then do {
               q1 \<leftarrow> skip_string q;
               let v = json_skip_whitespace (skip_char (CHR '':'') (json_skip_whitespace q1));
               found \<leftarrow> find_recursive At_Value v key;
               (case found of
                  Some f \<Rightarrow> Some (Some f)
                | None \<Rightarrow> do {
                    r \<leftarrow> json_skip_value v;
                    find_recursive In_Object (skip_char (CHR '','') (json_skip_whitespace r)) key
                  })
             }
             else (case q of [] \<Rightarrow> None | _ # q' \<Rightarrow> find_recursive In_Object q' key))
      | In_Array \<Rightarrow>
          (if p = [] \<or> hd p = CHR '']'' then Some None
           else
             let q = json_skip_whitespace p in
             if q \<noteq> [] \<and> hd q = CHR '']'' then Some None
             else do {
               found \<leftarrow> find_recursive At_Value q key;
               (case found of
                  Some f \<Rightarrow> Some (Some f)
                | None \<Rightarrow> do {
                    r \<leftarrow> json_skip_value q;
                    find_recursive In_Array (skip_char (CHR '','') (json_skip_whitespace r)) key
                  })
             }))"

definition json_find_key_recursive :: "cstring option \<Rightarrow> cstring \<Rightarrow> cstring option option" where
  "json_find_key_recursive json key =
     (case json of None \<Rightarrow> Some None | Some p \<Rightarrow> find_recursive At_Value p key)"

text \<open>The linear scan of \<open>json_find_all_values\<close>: it runs to the end of the text, not to the end
  of the value it starts at.\<close>

function find_all_loop :: "cstring \<Rightarrow> cstring \<Rightarrow> cstring list option" where
  "find_all_loop p key =
     (if p = [] then Some []
      else if hd p = QUOTE then
        (let after = json_skip_whitespace (drop (2 + length key) p) in
         if key_matches p key \<and> after \<noteq> [] \<and> hd after = CHR '':'' then
           (let val = json_skip_whitespace (tl after) in do {
              q \<leftarrow> json_skip_value val;
              rest \<leftarrow> find_all_loop q key;
              Some (val # rest)
            })
         else do {
           q \<leftarrow> skip_string p;
           find_all_loop q key
         })
      else find_all_loop (tl p) key)"
  by pat_completeness auto
termination
proof (relation "measure (\<lambda>(p, key). length p)", goal_cases)
  case 1
  show ?case by simp
next
  case (2 p key after val q)
  have "length q \<le> length val" by (rule json_skip_value_length) (rule 2(6))
  also have "length val \<le> length (tl after)" unfolding 2(5) by (rule skip_ws_length)
  also have "length (tl after) \<le> length after" by simp
  also have "length after \<le> length (drop (2 + length key) p)" unfolding 2(3) by (rule skip_ws_length)
  also have "\<dots> < length p" using 2(1) by (cases p) auto
  finally show ?case by simp
next
  case (3 p key after q)
  then show ?case by (auto intro: skip_string_length)
next
  case (4 p key)
  then show ?case by (cases p) auto
qed

declare find_all_loop.simps [simp del]

definition json_find_all_values :: "cstring option \<Rightarrow> cstring \<Rightarrow> cstring list option" where
  "json_find_all_values json key =
     (case json of None \<Rightarrow> Some [] | Some p \<Rightarrow> find_all_loop p key)"

end
