(* ===== verification/Json_Tree.thy ===== *)
theory Json_Tree
  imports Json_Util
begin

text \<open>
  JSON trees and their compact text, the form libpg_query writes: no white space, members
  separated by commas. \<open>points_at v p\<close> says that the pointer \<open>p\<close> stands at the text of the
  well-formed tree \<open>v\<close> inside a document. The navigator of \<open>Json_Util\<close> is shown to compute on
  such pointers what \<open>obj_lookup\<close> and \<open>tree_find\<close> compute on trees.
\<close>

section \<open>Trees and their text\<close>

text \<open>Strings and keys hold the text between the quotes, escapes included.\<close>

datatype json =
    JAtom cstring
  | JStr cstring
  | JArr "json list"
  | JObj "(cstring \<times> json) list"

fun commas :: "cstring list \<Rightarrow> cstring" where
  "commas [] = []"
| "commas [x] = x"
| "commas (x # y # zs) = x @ CHR '','' # commas (y # zs)"

fun render :: "json \<Rightarrow> cstring" where
  "render (JAtom a) = a"
| "render (JStr s) = QUOTE # s @ [QUOTE]"
| "render (JArr vs) = CHR ''['' # commas (map render vs) @ [CHR '']'']"
| "render (JObj kvs) =
     CHR ''{'' # commas (map (\<lambda>(k, v). QUOTE # k @ QUOTE # CHR '':'' # render v) kvs) @ [CHR ''}'']"

abbreviation items :: "json list \<Rightarrow> cstring" where
  "items vs \<equiv> commas (map render vs)"

definition json_member :: "cstring \<times> json \<Rightarrow> cstring" where
  "json_member kv = QUOTE # fst kv @ QUOTE # CHR '':'' # render (snd kv)"

abbreviation members :: "(cstring \<times> json) list \<Rightarrow> cstring" where
  "members kvs \<equiv> commas (map json_member kvs)"

lemma render_JObj: "render (JObj kvs) = CHR ''{'' # members kvs @ [CHR ''}'']"
proof -
  have "json_member = (\<lambda>(k, v). QUOTE # k @ QUOTE # CHR '':'' # render v)"
    by (simp add: fun_eq_iff json_member_def)
  then show ?thesis by simp
qed

text \<open>The body of a string: every backslash escapes a character, no bare quote.\<close>

fun body_ok :: "cstring \<Rightarrow> bool" where
  "body_ok [] = True"
| "body_ok (c # cs) =
     (if c = BACKSLASH then (case cs of [] \<Rightarrow> False | d # ds \<Rightarrow> body_ok ds)
      else c \<noteq> QUOTE \<and> body_ok cs)"

definition atom_char :: "char \<Rightarrow> bool" where
  "atom_char c \<longleftrightarrow> is_scalar_char c \<and> c \<noteq> QUOTE \<and> c \<noteq> CHR ''{'' \<and> c \<noteq> CHR ''[''"

fun wf_json :: "json \<Rightarrow> bool" where
  "wf_json (JAtom a) \<longleftrightarrow> a \<noteq> [] \<and> list_all atom_char a"
| "wf_json (JStr s) \<longleftrightarrow> body_ok s"
| "wf_json (JArr vs) \<longleftrightarrow> list_all wf_json vs"
| "wf_json (JObj kvs) \<longleftrightarrow> list_all (\<lambda>kv. body_ok (fst kv) \<and> wf_json (snd kv)) kvs"

text \<open>A search key of the code: no quote and no backslash in it.\<close>

definition plain_key :: "cstring \<Rightarrow> bool" where
  "plain_key key \<longleftrightarrow> list_all (\<lambda>c. c \<noteq> QUOTE \<and> c \<noteq> BACKSLASH) key"

definition delimited :: "cstring \<Rightarrow> bool" where
  "delimited rest \<longleftrightarrow> rest = [] \<or> hd rest \<in> {CHR '','', CHR ''}'', CHR '']''}"

definition stands_at :: "json \<Rightarrow> cstring \<Rightarrow> bool" where
  "stands_at v p \<longleftrightarrow> wf_json v \<and> (\<exists>rest. p = render v @ rest \<and> delimited rest)"

text \<open>The linear scan runs through the rest of the document, so a pointer into a document also
  says that the scan gets through what follows.\<close>

definition scannable :: "cstring \<Rightarrow> bool" where
  "scannable t \<longleftrightarrow> (\<forall>key. plain_key key \<longrightarrow> find_all_loop t key \<noteq> None)"

definition points_at :: "json \<Rightarrow> cstring \<Rightarrow> bool" where
  "points_at v p \<longleftrightarrow>
     wf_json v \<and> (\<exists>rest. p = render v @ rest \<and> delimited rest \<and> scannable rest)"

text \<open>The abstract operations: a member of an object, and the first occurrence of a key in a
  tree, an object's own members before its values, both in the order of the text.\<close>

fun obj_lookup :: "cstring \<Rightarrow> json \<Rightarrow> json option" where
  "obj_lookup key (JObj kvs) = map_of kvs key"
| "obj_lookup key _ = None"

fun tree_find :: "cstring \<Rightarrow> json \<Rightarrow> json option"
  and tree_find_members :: "cstring \<Rightarrow> (cstring \<times> json) list \<Rightarrow> json option"
  and tree_find_items :: "cstring \<Rightarrow> json list \<Rightarrow> json option" where
  "tree_find key (JObj kvs) =
     (case map_of kvs key of Some v \<Rightarrow> Some v | None \<Rightarrow> tree_find_members key kvs)"
| "tree_find key (JArr vs) = tree_find_items key vs"
| "tree_find key (JStr s) = None"
| "tree_find key (JAtom a) = None"
| "tree_find_members key [] = None"
| "tree_find_members key (kv # kvs) =
     (case tree_find key (snd kv) of Some v \<Rightarrow> Some v | None \<Rightarrow> tree_find_members key kvs)"
| "tree_find_items key [] = None"
| "tree_find_items key (v # vs) =
     (case tree_find key v of Some u \<Rightarrow> Some u | None \<Rightarrow> tree_find_items key vs)"

text \<open>All values of a key in the order of the text, without descending into a value found.\<close>

fun tree_all :: "cstring \<Rightarrow> json \<Rightarrow> json list"
  and tree_all_members :: "cstring \<Rightarrow> (cstring \<times> json) list \<Rightarrow> json list"
  and tree_all_items :: "cstring \<Rightarrow> json list \<Rightarrow> json list" where
  "tree_all key (JObj kvs) = tree_all_members key kvs"
| "tree_all key (JArr vs) = tree_all_items key vs"
| "tree_all key (JStr s) = []"
| "tree_all key (JAtom a) = []"
| "tree_all_members key [] = []"
| "tree_all_members key (kv # kvs) =
     (if fst kv = key then [snd kv] else tree_all key (snd kv)) @ tree_all_members key kvs"
| "tree_all_items key [] = []"
| "tree_all_items key (v # vs) = tree_all key v @ tree_all_items key vs"

section \<open>Scanning rendered text\<close>

lemma string_body_closed [nav_simps]:
  "body_ok s \<Longrightarrow> string_body (s @ QUOTE # rest) = Some (QUOTE # rest)"
  by (induction s rule: body_ok.induct) (auto split: list.splits if_splits)

lemma skip_string_closed [nav_simps]:
  "body_ok s \<Longrightarrow> skip_string (QUOTE # s @ QUOTE # rest) = Some rest"
  by (simp add: skip_string_def string_body_closed skip_char_def)

lemma skip_ws_nonspace [nav_simps]:
  "\<not> isspace c \<Longrightarrow> json_skip_whitespace (c # cs) = c # cs"
  by (simp add: json_skip_whitespace_def)

lemma not_isspace_punct [simp]:
  "\<not> isspace QUOTE" "\<not> isspace (CHR ''{'')" "\<not> isspace (CHR ''['')" "\<not> isspace (CHR '','')"
  "\<not> isspace (CHR ''}'')" "\<not> isspace (CHR '']'')" "\<not> isspace (CHR '':'')"
  by (simp_all add: isspace_def)

lemma delimited_skip_ws: "delimited rest \<Longrightarrow> json_skip_whitespace rest = rest"
  by (cases rest) (auto simp: delimited_def nav_simps json_skip_whitespace_def)

text \<open>Text that leaves the depth of a bracket scan unchanged.\<close>

definition neutral :: "char \<Rightarrow> char \<Rightarrow> cstring \<Rightarrow> bool" where
  "neutral op cl t \<longleftrightarrow>
     (\<forall>d rest. 0 < d \<longrightarrow> skip_nested op cl d (t @ rest) = skip_nested op cl d rest)"

lemma neutral_Nil: "neutral op cl []"
  by (simp add: neutral_def)

lemma neutral_append: "neutral op cl s \<Longrightarrow> neutral op cl t \<Longrightarrow> neutral op cl (s @ t)"
  by (simp add: neutral_def)

lemma neutral_char: "c \<noteq> op \<Longrightarrow> c \<noteq> cl \<Longrightarrow> c \<noteq> QUOTE \<Longrightarrow> neutral op cl [c]"
  unfolding neutral_def by (subst skip_nested.simps) simp

lemma neutral_Cons:
  "c \<noteq> op \<Longrightarrow> c \<noteq> cl \<Longrightarrow> c \<noteq> QUOTE \<Longrightarrow> neutral op cl t \<Longrightarrow> neutral op cl (c # t)"
  using neutral_append [OF neutral_char] by fastforce

lemma neutral_string:
  assumes "body_ok s" "op \<noteq> QUOTE" "cl \<noteq> QUOTE"
  shows "neutral op cl (QUOTE # s @ [QUOTE])"
  unfolding neutral_def using assms
  by (auto simp: skip_nested.simps [of op cl _ "QUOTE # _"] skip_string_closed)

lemma neutral_brackets:
  assumes "neutral op cl t" "op \<noteq> cl"
  shows "neutral op cl (op # t @ [cl])"
proof -
  have "skip_nested op cl d (op # t @ cl # rest) = skip_nested op cl d rest" if "0 < d" for d rest
  proof -
    have "skip_nested op cl d (op # t @ cl # rest) = skip_nested op cl (d + 1) (t @ cl # rest)"
      using that by (subst skip_nested.simps) simp
    also have "\<dots> = skip_nested op cl (d + 1) (cl # rest)"
      using assms(1) by (simp add: neutral_def)
    also have "\<dots> = skip_nested op cl d rest"
      using assms(2) by (subst skip_nested.simps) simp
    finally show ?thesis .
  qed
  then show ?thesis by (simp add: neutral_def)
qed

lemma neutral_atoms:
  "list_all atom_char a \<Longrightarrow> op \<in> {CHR ''{'', CHR ''[''} \<Longrightarrow> cl \<in> {CHR ''}'', CHR '']''} \<Longrightarrow>
     neutral op cl a"
  by (induction a) (auto simp: neutral_Nil atom_char_def is_scalar_char_def intro!: neutral_Cons)

lemma neutral_commas:
  assumes "\<And>t. t \<in> set ts \<Longrightarrow> neutral op cl t"
    and "op \<noteq> CHR '',''" "cl \<noteq> CHR '',''"
  shows "neutral op cl (commas ts)"
  using assms
  by (induction ts rule: commas.induct)
     (auto simp: neutral_Nil intro!: neutral_append neutral_Cons)

definition bracket_pair :: "char \<Rightarrow> char \<Rightarrow> bool" where
  "bracket_pair op cl \<longleftrightarrow> (op, cl) \<in> {(CHR ''{'', CHR ''}''), (CHR ''['', CHR '']'')}"

lemma neutral_enclosed:
  assumes "bracket_pair op cl" "bracket_pair a b" "neutral op cl t"
  shows "neutral op cl (a # t @ [b])"
proof (cases "op = a")
  case True
  with assms show ?thesis
    by (auto simp: bracket_pair_def intro: neutral_brackets)
next
  case False
  with assms have "a \<noteq> op" "a \<noteq> cl" "a \<noteq> QUOTE" "b \<noteq> op" "b \<noteq> cl" "b \<noteq> QUOTE"
    by (auto simp: bracket_pair_def)
  with assms(3) show ?thesis
    by (intro neutral_Cons neutral_append neutral_Nil)
qed

lemma neutral_member:
  assumes "bracket_pair op cl" "body_ok (fst kv)" "neutral op cl (render (snd kv))"
  shows "neutral op cl (json_member kv)"
proof -
  have "neutral op cl ((QUOTE # fst kv @ [QUOTE]) @ CHR '':'' # render (snd kv))"
    using assms
    by (intro neutral_append neutral_string neutral_Cons) (auto simp: bracket_pair_def)
  then show ?thesis by (simp add: json_member_def)
qed

lemma neutral_render:
  "wf_json v \<Longrightarrow> bracket_pair op cl \<Longrightarrow> neutral op cl (render v)"
proof (induction v rule: render.induct)
  case (1 a)
  then show ?case by (auto simp: bracket_pair_def intro: neutral_atoms)
next
  case (2 s)
  then show ?case by (auto simp: bracket_pair_def intro: neutral_string)
next
  case (3 vs)
  then have "neutral op cl (items vs)"
    by (auto simp: list_all_iff bracket_pair_def intro!: neutral_commas)
  with 3(3) show ?case
    by (auto simp: bracket_pair_def intro!: neutral_enclosed)
next
  case (4 kvs)
  have "neutral op cl (json_member kv)" if kv: "kv \<in> set kvs" for kv
  proof (rule neutral_member [OF 4(3)])
    show ok: "body_ok (fst kv)" using 4(2) kv by (auto simp: list_all_iff)
    show "neutral op cl (render (snd kv))"
      using 4(1) [OF kv, of "fst kv" "snd kv"] 4(2,3) kv by (auto simp: list_all_iff)
  qed
  then have "neutral op cl (members kvs)"
    using 4(3) by (auto simp: bracket_pair_def intro!: neutral_commas)
  with 4(3) show ?case
    unfolding render_JObj by (auto simp: bracket_pair_def intro!: neutral_enclosed)
qed

lemma skip_nested_close:
  assumes "neutral op cl t" "op \<noteq> cl"
  shows "skip_nested op cl (Suc 0) (t @ cl # rest) = Some rest"
proof -
  have "skip_nested op cl (Suc 0) (t @ cl # rest) = skip_nested op cl (Suc 0) (cl # rest)"
    using assms(1) by (simp add: neutral_def)
  also have "\<dots> = Some rest"
    using assms(2) by (simp add: skip_nested.simps [of op cl "Suc 0"] skip_nested.simps [of op cl 0])
  finally show ?thesis .
qed

lemma render_first:
  assumes "wf_json v"
  obtains c cs where "render v = c # cs" "\<not> isspace c"
    "c \<noteq> CHR '',''" "c \<noteq> CHR ''}''" "c \<noteq> CHR '']''"
proof (cases v)
  case (JAtom a)
  with assms that show ?thesis
    by (cases a) (auto simp: atom_char_def is_scalar_char_def)
qed (use assms that in auto)

lemma skip_ws_render [nav_simps]:
  "wf_json v \<Longrightarrow> json_skip_whitespace (render v @ rest) = render v @ rest"
  by (erule render_first) (simp add: skip_ws_nonspace)

lemma json_skip_value_render [nav_simps]:
  assumes "wf_json v" "delimited rest"
  shows "json_skip_value (render v @ rest) = Some rest"
proof (cases v)
  case (JAtom a)
  have "dropWhile is_scalar_char (a @ rest) = rest"
    using assms JAtom
    by (cases rest) (auto simp: dropWhile_append list_all_iff atom_char_def delimited_def
        is_scalar_char_def)
  moreover obtain c cs where "a = c # cs" "atom_char c"
    using assms(1) JAtom by (cases a) auto
  ultimately show ?thesis
    using JAtom by (auto simp: json_skip_value_def Let_def skip_ws_nonspace atom_char_def
        is_scalar_char_def)
next
  case (JStr s)
  with assms show ?thesis
    by (simp add: json_skip_value_def skip_ws_nonspace skip_string_closed)
next
  case (JArr vs)
  have "neutral (CHR ''['') (CHR '']'') t" if "t \<in> set (map render vs)" for t
    using that assms(1) JArr neutral_render by (auto simp: bracket_pair_def list_all_iff)
  then have "neutral (CHR ''['') (CHR '']'') (items vs)"
    by (auto intro: neutral_commas)
  then show ?thesis
    using JArr by (simp add: json_skip_value_def skip_ws_nonspace skip_nested_close)
next
  case (JObj kvs)
  have "neutral (CHR ''{'') (CHR ''}'') t" if "t \<in> set (map json_member kvs)" for t
    using that assms(1) JObj neutral_render
    by (auto simp: bracket_pair_def list_all_iff intro!: neutral_member)
  then have "neutral (CHR ''{'') (CHR ''}'') (members kvs)"
    by (auto intro: neutral_commas)
  then show ?thesis
    using JObj unfolding JObj render_JObj
    by (simp add: json_skip_value_def skip_ws_nonspace skip_nested_close)
qed

section \<open>Members and items\<close>

text \<open>What follows a member of an object, and an item of an array.\<close>

definition after_member :: "(cstring \<times> json) list \<Rightarrow> cstring \<Rightarrow> cstring" where
  "after_member kvs rest =
     (if kvs = [] then CHR ''}'' # rest else CHR '','' # members kvs @ CHR ''}'' # rest)"

definition after_item :: "json list \<Rightarrow> cstring \<Rightarrow> cstring" where
  "after_item vs rest =
     (if vs = [] then CHR '']'' # rest else CHR '','' # items vs @ CHR '']'' # rest)"

lemma members_Cons: "members (kv # kvs) @ CHR ''}'' # rest = json_member kv @ after_member kvs rest"
  by (cases kvs) (auto simp: after_member_def)

lemma items_Cons: "items (v # vs) @ CHR '']'' # rest = render v @ after_item vs rest"
  by (cases vs) (auto simp: after_item_def)

lemma delimited_after [simp]: "delimited (after_member kvs rest)" "delimited (after_item vs rest)"
  by (simp_all add: delimited_def after_member_def after_item_def)

lemma json_member_first: "\<exists>cs. members (kv # kvs) = QUOTE # cs"
  by (cases kvs) (auto simp: json_member_def)

lemma skip_comma_after_member:
  "skip_char (CHR '','') (json_skip_whitespace (after_member kvs rest)) = members kvs @ CHR ''}'' # rest"
  by (auto simp: after_member_def skip_ws_nonspace skip_char_def)

lemma skip_comma_after_item:
  "skip_char (CHR '','') (json_skip_whitespace (after_item vs rest)) = items vs @ CHR '']'' # rest"
  by (auto simp: after_item_def skip_ws_nonspace skip_char_def)

lemma key_matches_iff:
  "body_ok k \<Longrightarrow> plain_key key \<Longrightarrow> key_matches (QUOTE # k @ QUOTE # t) key \<longleftrightarrow> k = key"
proof (induction key arbitrary: k)
  case Nil
  then show ?case by (cases k) (auto simp: key_matches_def)
next
  case outer: (Cons c cs)
  show ?case
  proof (cases k)
    case Nil
    with outer.prems show ?thesis by (auto simp: key_matches_def plain_key_def)
  next
    case (Cons d ds)
    show ?thesis
    proof (cases "d = c")
      case True
      with outer.prems Cons have "body_ok ds" "plain_key cs" by (auto simp: plain_key_def)
      then have "key_matches (QUOTE # ds @ QUOTE # t) cs \<longleftrightarrow> ds = cs" by (rule outer.IH)
      with Cons True show ?thesis by (simp add: key_matches_def)
    next
      case False
      with Cons show ?thesis by (simp add: key_matches_def)
    qed
  qed
qed

text \<open>The two steps of a member loop: past the key to the value, and past the value.\<close>

lemma member_text:
  "members (kv # kvs) @ CHR ''}'' # rest =
     QUOTE # fst kv @ QUOTE # CHR '':'' # render (snd kv) @ after_member kvs rest"
  unfolding members_Cons by (simp add: json_member_def)

lemma skip_char_same [nav_simps]: "skip_char c (c # cs) = cs"
  by (simp add: skip_char_def)

lemma drop_key [nav_simps]: "drop (2 + length k) (QUOTE # k @ QUOTE # t) = t"
  by simp

lemma points_atI:
  "wf_json v \<Longrightarrow> delimited rest \<Longrightarrow> scannable rest \<Longrightarrow> points_at v (render v @ rest)"
  by (auto simp: points_at_def)

lemma points_at_stands: "points_at v p \<Longrightarrow> stands_at v p"
  by (auto simp: points_at_def stands_at_def)

section \<open>The linear scan\<close>

lemma find_all_char [nav_simps]: "c \<noteq> QUOTE \<Longrightarrow> find_all_loop (c # t) key = find_all_loop t key"
  by (subst find_all_loop.simps) simp

lemma find_all_chars: "QUOTE \<notin> set a \<Longrightarrow> find_all_loop (a @ t) key = find_all_loop t key"
  by (induction a) (auto simp: find_all_char)

lemma find_all_string:
  assumes "body_ok s" "delimited t" "plain_key key"
  shows "find_all_loop (QUOTE # s @ QUOTE # t) key = find_all_loop t key"
proof -
  have "\<not> (t \<noteq> [] \<and> hd t = CHR '':'')"
    using assms(2) by (auto simp: delimited_def)
  with assms show ?thesis
    by (cases "s = key"; subst find_all_loop.simps)
      (auto simp: Let_def nav_simps key_matches_iff delimited_skip_ws)
qed

lemma find_all_member:
  assumes "body_ok k" "wf_json v" "plain_key key"
  shows "find_all_loop (QUOTE # k @ QUOTE # CHR '':'' # render v @ after_member kvs rest) key =
    (if k = key
     then map_option (Cons (render v @ after_member kvs rest)) (find_all_loop (after_member kvs rest) key)
     else find_all_loop (render v @ after_member kvs rest) key)"
  using assms
  by (cases "k = key"; subst find_all_loop.simps)
    (auto simp: Let_def nav_simps key_matches_iff map_conv_bind_option comp_def)

lemma find_all_after_member:
  "find_all_loop (after_member kvs rest) key = find_all_loop (members kvs @ CHR ''}'' # rest) key"
  by (simp add: after_member_def find_all_char)

lemma find_all_after_item:
  "find_all_loop (after_item vs rest) key = find_all_loop (items vs @ CHR '']'' # rest) key"
  by (simp add: after_item_def find_all_char)

lemma stands_at_render: "wf_json v \<Longrightarrow> delimited rest \<Longrightarrow> stands_at v (render v @ rest)"
  by (auto simp: stands_at_def)

lemma find_all_correct:
  shows "wf_json v \<Longrightarrow> delimited rest \<Longrightarrow> plain_key key \<Longrightarrow> find_all_loop rest key = Some rs \<Longrightarrow>
      \<exists>qs. find_all_loop (render v @ rest) key = Some (qs @ rs) \<and>
        list_all2 stands_at (tree_all key v) qs"
    and "list_all (\<lambda>kv. body_ok (fst kv) \<and> wf_json (snd kv)) kvs \<Longrightarrow> plain_key key \<Longrightarrow>
      find_all_loop rest key = Some rs \<Longrightarrow>
      \<exists>qs. find_all_loop (members kvs @ CHR ''}'' # rest) key = Some (qs @ rs) \<and>
        list_all2 stands_at (tree_all_members key kvs) qs"
    and "list_all wf_json vs \<Longrightarrow> plain_key key \<Longrightarrow> find_all_loop rest key = Some rs \<Longrightarrow>
      \<exists>qs. find_all_loop (items vs @ CHR '']'' # rest) key = Some (qs @ rs) \<and>
        list_all2 stands_at (tree_all_items key vs) qs"
proof (induction key v and key kvs and key vs arbitrary: rest rs and rest rs and rest rs
    rule: tree_all_tree_all_members_tree_all_items.induct)
  case (1 key kvs)
  then show ?case unfolding render_JObj by (simp add: find_all_char)
next
  case (2 key vs)
  then show ?case by (simp add: find_all_char)
next
  case (3 key s)
  then show ?case by (simp add: find_all_string)
next
  case (4 key a)
  then have "QUOTE \<notin> set a" by (auto simp: list_all_iff atom_char_def)
  with 4 show ?case by (simp add: find_all_chars)
next
  case (5 key)
  then show ?case by (simp add: find_all_char)
next
  case (6 key kv kvs)
  obtain qs where qs: "find_all_loop (after_member kvs rest) key = Some (qs @ rs)"
      "list_all2 stands_at (tree_all_members key kvs) qs"
    unfolding find_all_after_member using "6.IH"(2) [of rest rs] "6.prems" by auto
  show ?case
  proof (cases "fst kv = key")
    case True
    with "6.prems" qs show ?thesis
      unfolding member_text
      by (intro exI [of _ "(render (snd kv) @ after_member kvs rest) # qs"])
        (simp add: find_all_member stands_at_render)
  next
    case False
    obtain qs' where "find_all_loop (render (snd kv) @ after_member kvs rest) key =
        Some (qs' @ qs @ rs)" "list_all2 stands_at (tree_all key (snd kv)) qs'"
      using "6.IH"(1) [of "after_member kvs rest" "qs @ rs"] "6.prems" False qs(1) by auto
    with "6.prems" False qs show ?thesis
      unfolding member_text
      by (intro exI [of _ "qs' @ qs"]) (simp add: find_all_member list_all2_appendI)
  qed
next
  case (7 key)
  then show ?case by (simp add: find_all_char)
next
  case (8 key v vs)
  obtain qs where qs: "find_all_loop (after_item vs rest) key = Some (qs @ rs)"
      "list_all2 stands_at (tree_all_items key vs) qs"
    unfolding find_all_after_item using "8.IH"(2) [of rest rs] "8.prems" by auto
  obtain qs' where "find_all_loop (render v @ after_item vs rest) key = Some (qs' @ qs @ rs)"
      "list_all2 stands_at (tree_all key v) qs'"
    using "8.IH"(1) [of "after_item vs rest" "qs @ rs"] "8.prems" qs(1) by auto
  with qs show ?case
    unfolding items_Cons by (intro exI [of _ "qs' @ qs"]) (simp add: list_all2_appendI)
qed

lemma scannable_after [intro]:
  "list_all (\<lambda>kv. body_ok (fst kv) \<and> wf_json (snd kv)) kvs \<Longrightarrow> scannable rest \<Longrightarrow>
     scannable (after_member kvs rest)"
  "list_all wf_json vs \<Longrightarrow> scannable rest \<Longrightarrow> scannable (after_item vs rest)"
  unfolding scannable_def find_all_after_member find_all_after_item
  using find_all_correct(2) [of kvs _ rest] find_all_correct(3) [of vs _ rest] by fastforce+

lemma scannable_Nil [simp]: "scannable []"
  by (simp add: scannable_def find_all_loop.simps)

section \<open>The navigator on trees\<close>

lemma find_key_loop_members:
  assumes "list_all (\<lambda>kv. body_ok (fst kv) \<and> wf_json (snd kv)) kvs" "plain_key key"
    and "scannable rest"
  shows "\<exists>r. find_key_loop (members kvs @ CHR ''}'' # rest) key = Some r \<and>
           rel_option points_at (map_of kvs key) r"
  using assms(1)
proof (induction kvs)
  case Nil
  show ?case by (simp add: find_key_loop.simps)
next
  case (Cons kv kvs)
  let ?text = "QUOTE # fst kv @ QUOTE # CHR '':'' # render (snd kv) @ after_member kvs rest"
  from Cons.prems have ok: "body_ok (fst kv)" "wf_json (snd kv)" by simp_all
  show ?case
  proof (cases "fst kv = key")
    case True
    then have "find_key_loop ?text key = Some (Some (render (snd kv) @ after_member kvs rest))"
      using ok key_matches_iff [OF ok(1) assms(2)]
      by (subst find_key_loop.simps) (simp add: nav_simps)
    then show ?thesis
      unfolding member_text using True ok Cons.prems assms(3)
      by (cases kv) (simp add: points_atI scannable_after)
  next
    case False
    then have "find_key_loop ?text key = find_key_loop (members kvs @ CHR ''}'' # rest) key"
      using ok key_matches_iff [OF ok(1) assms(2)]
      by (subst find_key_loop.simps) (simp add: nav_simps skip_comma_after_member)
    with Cons.IH Cons.prems False show ?thesis
      unfolding member_text by (cases kv) simp
  qed
qed

lemma json_find_key_correct:
  assumes "points_at v p" "plain_key key"
  shows "\<exists>r. json_find_key (Some p) key = Some r \<and> rel_option points_at (obj_lookup key v) r"
proof -
  from assms(1) obtain rest where wf: "wf_json v" and p: "p = render v @ rest"
    and rest: "scannable rest" by (auto simp: points_at_def)
  show ?thesis
  proof (cases v)
    case (JObj kvs)
    with wf find_key_loop_members [OF _ assms(2) rest, of kvs] show ?thesis
      unfolding p JObj render_JObj
      by (simp add: json_find_key_def skip_ws_nonspace)
  next
    case (JAtom a)
    with wf obtain c cs where "a = c # cs" "atom_char c" by (cases a) auto
    with JAtom show ?thesis
      by (auto simp: p json_find_key_def skip_ws_nonspace atom_char_def is_scalar_char_def)
  qed (simp_all add: p json_find_key_def skip_ws_nonspace)
qed

text \<open>The three cases of the recursive search, one per place.\<close>

lemma find_recursive_value:
  assumes "points_at v p" "plain_key key"
    and members: "\<And>kvs rest. v = JObj kvs \<Longrightarrow> map_of kvs key = None \<Longrightarrow> scannable rest \<Longrightarrow>
      \<exists>r. find_recursive In_Object (members kvs @ CHR ''}'' # rest) key = Some r \<and>
        rel_option points_at (tree_find_members key kvs) r"
    and items: "\<And>vs rest. v = JArr vs \<Longrightarrow> scannable rest \<Longrightarrow>
      \<exists>r. find_recursive In_Array (items vs @ CHR '']'' # rest) key = Some r \<and>
        rel_option points_at (tree_find_items key vs) r"
  shows "\<exists>r. find_recursive At_Value p key = Some r \<and> rel_option points_at (tree_find key v) r"
proof -
  from assms(1) obtain rest where wf: "wf_json v" and p: "p = render v @ rest"
    and rest: "scannable rest" by (auto simp: points_at_def)
  show ?thesis
  proof (cases v)
    case (JObj kvs)
    have p': "p = CHR ''{'' # members kvs @ CHR ''}'' # rest"
      unfolding p JObj render_JObj by simp
    from json_find_key_correct [OF assms(1,2)] obtain r0 where
      r0: "json_find_key (Some p) key = Some r0" "rel_option points_at (map_of kvs key) r0"
      using JObj by auto
    show ?thesis
    proof (cases "map_of kvs key")
      case None
      with r0 have "find_recursive At_Value p key =
          find_recursive In_Object (members kvs @ CHR ''}'' # rest) key"
        unfolding p' by (subst find_recursive.simps) (simp add: nav_simps)
      with members [OF JObj None rest] None JObj show ?thesis by simp
    next
      case (Some u)
      with r0 obtain q where q: "r0 = Some q" "points_at u q" by (auto simp: option_rel_Some1)
      with r0 have "find_recursive At_Value p key = Some (Some q)"
        unfolding p' by (subst find_recursive.simps) (simp add: nav_simps)
      with q Some JObj show ?thesis by simp
    qed
  next
    case (JArr vs)
    then have "find_recursive At_Value p key =
        find_recursive In_Array (items vs @ CHR '']'' # rest) key"
      by (subst find_recursive.simps) (simp add: p nav_simps)
    with items [OF JArr rest] JArr show ?thesis by simp
  next
    case (JAtom a)
    with wf obtain c cs where "a = c # cs" "atom_char c" by (cases a) auto
    with JAtom show ?thesis
      by (subst find_recursive.simps)
        (auto simp: p skip_ws_nonspace atom_char_def is_scalar_char_def)
  next
    case (JStr s)
    then show ?thesis by (subst find_recursive.simps) (simp add: p nav_simps)
  qed
qed

lemma find_recursive_member:
  assumes "body_ok (fst kv)" "wf_json (snd kv)"
    and v: "\<exists>r. find_recursive At_Value (render (snd kv) @ after_member kvs rest) key = Some r \<and>
        rel_option points_at (tree_find key (snd kv)) r"
    and more: "tree_find key (snd kv) = None \<Longrightarrow>
      \<exists>r. find_recursive In_Object (members kvs @ CHR ''}'' # rest) key = Some r \<and>
        rel_option points_at (tree_find_members key kvs) r"
  shows "\<exists>r. find_recursive In_Object (members (kv # kvs) @ CHR ''}'' # rest) key = Some r \<and>
        rel_option points_at (tree_find_members key (kv # kvs)) r"
proof -
  from v obtain r0 where r0: "find_recursive At_Value (render (snd kv) @ after_member kvs rest) key = Some r0"
      "rel_option points_at (tree_find key (snd kv)) r0" by blast
  have "find_recursive In_Object (members (kv # kvs) @ CHR ''}'' # rest) key =
      (case r0 of Some f \<Rightarrow> Some (Some f)
       | None \<Rightarrow> find_recursive In_Object (members kvs @ CHR ''}'' # rest) key)"
    unfolding member_text using assms(1,2) r0(1)
    by (subst find_recursive.simps)
      (simp add: nav_simps skip_comma_after_member split: option.split)
  with r0(2) more show ?thesis
    by (cases r0) (auto simp: option_rel_Some2)
qed

lemma find_recursive_item:
  assumes "wf_json v"
    and v: "\<exists>r. find_recursive At_Value (render v @ after_item vs rest) key = Some r \<and>
        rel_option points_at (tree_find key v) r"
    and more: "tree_find key v = None \<Longrightarrow>
      \<exists>r. find_recursive In_Array (items vs @ CHR '']'' # rest) key = Some r \<and>
        rel_option points_at (tree_find_items key vs) r"
  shows "\<exists>r. find_recursive In_Array (items (v # vs) @ CHR '']'' # rest) key = Some r \<and>
        rel_option points_at (tree_find_items key (v # vs)) r"
proof -
  from v obtain r0 where r0: "find_recursive At_Value (render v @ after_item vs rest) key = Some r0"
      "rel_option points_at (tree_find key v) r0" by blast
  have first: "render v \<noteq> []" "hd (render v @ t) \<noteq> CHR '']''" for t
    using assms(1) by (auto elim!: render_first)
  have "find_recursive In_Array (items (v # vs) @ CHR '']'' # rest) key =
      (case r0 of Some f \<Rightarrow> Some (Some f)
       | None \<Rightarrow> find_recursive In_Array (items vs @ CHR '']'' # rest) key)"
    unfolding items_Cons using assms(1) r0(1) first
    by (subst find_recursive.simps)
      (simp add: nav_simps skip_comma_after_item split: option.split)
  with r0(2) more show ?thesis
    by (cases r0) (auto simp: option_rel_Some2)
qed

lemma find_recursive_correct:
  shows "points_at v p \<Longrightarrow> plain_key key \<Longrightarrow>
      \<exists>r. find_recursive At_Value p key = Some r \<and> rel_option points_at (tree_find key v) r"
    and "list_all (\<lambda>kv. body_ok (fst kv) \<and> wf_json (snd kv)) kvs \<Longrightarrow> plain_key key \<Longrightarrow> scannable rest \<Longrightarrow>
      \<exists>r. find_recursive In_Object (members kvs @ CHR ''}'' # rest) key = Some r \<and>
        rel_option points_at (tree_find_members key kvs) r"
    and "list_all wf_json vs \<Longrightarrow> plain_key key \<Longrightarrow> scannable rest \<Longrightarrow>
      \<exists>r. find_recursive In_Array (items vs @ CHR '']'' # rest) key = Some r \<and>
        rel_option points_at (tree_find_items key vs) r"
proof (induction key v and key kvs and key vs arbitrary: p and rest and rest
    rule: tree_find_tree_find_members_tree_find_items.induct)
  case (1 key kvs)
  then have "list_all (\<lambda>kv. body_ok (fst kv) \<and> wf_json (snd kv)) kvs"
    by (simp add: points_at_def)
  with 1 show ?case by (intro find_recursive_value) auto
next
  case (2 key vs)
  then have "list_all wf_json vs" by (simp add: points_at_def)
  with 2 show ?case by (intro find_recursive_value) auto
next
  case (5 key)
  show ?case by (subst find_recursive.simps) simp
next
  case (6 key kv kvs)
  then show ?case by (intro find_recursive_member) (simp_all add: points_atI scannable_after)
next
  case (7 key)
  show ?case by (subst find_recursive.simps) simp
next
  case (8 key v vs)
  then show ?case by (intro find_recursive_item) (simp_all add: points_atI scannable_after)
qed (rule find_recursive_value; simp)+

lemma json_find_key_recursive_correct:
  "points_at v p \<Longrightarrow> plain_key key \<Longrightarrow>
     \<exists>r. json_find_key_recursive (Some p) key = Some r \<and>
       rel_option points_at (tree_find key v) r"
  unfolding json_find_key_recursive_def by (simp add: find_recursive_correct(1))

lemma json_get_string_correct:
  "stands_at v p \<Longrightarrow>
     json_get_string (Some p) = Some (case v of JStr s \<Rightarrow> Some s | _ \<Rightarrow> None)"
proof (cases v)
  case (JStr s)
  then show "stands_at v p \<Longrightarrow> ?thesis"
    by (auto simp: stands_at_def json_get_string_def nav_simps)
next
  case (JAtom a)
  then show "stands_at v p \<Longrightarrow> ?thesis"
    by (cases a) (auto simp: stands_at_def json_get_string_def nav_simps atom_char_def is_scalar_char_def)
qed (auto simp: stands_at_def json_get_string_def nav_simps)

lemma json_starts_with_key_correct:
  assumes "points_at v p" "plain_key key"
  shows "json_starts_with_key (Some p) key \<longleftrightarrow> (\<exists>u kvs. v = JObj ((key, u) # kvs))"
proof -
  from assms(1) obtain rest where wf: "wf_json v" and p: "p = render v @ rest"
    by (auto simp: points_at_def)
  show ?thesis
  proof (cases v)
    case (JObj kvs)
    show ?thesis
    proof (cases kvs)
      case Nil
      then show ?thesis using JObj by (simp add: p json_starts_with_key_def nav_simps)
    next
      case (Cons kv kvs')
      have "p = CHR ''{'' # QUOTE # fst kv @ QUOTE # CHR '':'' # render (snd kv) @ after_member kvs' rest"
        unfolding p JObj render_JObj Cons using member_text [of kv kvs' rest] by simp
      then show ?thesis
        using JObj Cons wf assms(2)
        by (cases kv) (auto simp: json_starts_with_key_def nav_simps key_matches_iff)
    qed
  next
    case (JAtom a)
    with wf show ?thesis
      by (cases a) (auto simp: p json_starts_with_key_def skip_ws_nonspace atom_char_def is_scalar_char_def)
  qed (auto simp: p json_starts_with_key_def skip_ws_nonspace)
qed

section \<open>Numbers\<close>

text \<open>The decimal text of an integer, as \<open>printf\<close> writes it for \<open>%d\<close>.\<close>

fun nat_text :: "nat \<Rightarrow> cstring" where
  "nat_text n = (if n < 10 then [] else nat_text (n div 10)) @ [char_of (48 + n mod 10)]"

declare nat_text.simps [simp del]

definition int_text :: "int \<Rightarrow> cstring" where
  "int_text i = (if i < 0 then CHR ''-'' # nat_text (nat (- i)) else nat_text (nat i))"

lemma digit_char [simp]: "n < 10 \<Longrightarrow> isdigit (char_of (48 + n :: nat))"
  "n < 10 \<Longrightarrow> digit_val (char_of (48 + n :: nat)) = n"
  by (simp_all add: isdigit_def digit_val_def)

lemma digits_val_append:
  "list_all isdigit ds \<Longrightarrow> digits_val acc (ds @ t) = digits_val (digits_val acc ds) t"
  by (induction ds arbitrary: acc) auto

lemma nat_text_digits: "list_all isdigit (nat_text n)"
  by (induction n rule: nat_text.induct) (subst nat_text.simps, auto)

lemma digits_val_nat_text: "digits_val 0 (nat_text n) = n"
proof (induction n rule: nat_text.induct)
  case (1 n)
  then show ?case
    by (subst nat_text.simps) (auto simp: digits_val_append nat_text_digits)
qed

lemma digits_val_stop: "t = [] \<or> \<not> isdigit (hd t) \<Longrightarrow> digits_val acc t = acc"
  by (cases t) auto

lemma nat_text_first: "\<exists>c cs. nat_text n = c # cs \<and> isdigit c"
proof -
  have "nat_text n \<noteq> []" by (subst nat_text.simps) simp
  then show ?thesis using nat_text_digits [of n] by (cases "nat_text n") auto
qed

lemma isdigit_not_sign: "isdigit c \<Longrightarrow> \<not> isspace c \<and> c \<noteq> CHR ''-'' \<and> c \<noteq> CHR ''+''"
  by (auto simp: isdigit_def isspace_def)

lemma strto_int_text:
  assumes "t = [] \<or> \<not> isdigit (hd t)"
  shows "strto_int (int_text i @ t) = i"
proof -
  have "digits_val 0 (nat_text n @ t) = n" for n
    using assms by (simp add: digits_val_append nat_text_digits digits_val_nat_text digits_val_stop)
  note val = this
  show ?thesis
  proof (cases "i < 0")
    case True
    then show ?thesis
      by (simp add: int_text_def strto_int_def strto_parts_def isspace_def val)
  next
    case False
    obtain c cs where c: "nat_text (nat i) = c # cs" "isdigit c"
      using nat_text_first by blast
    with isdigit_not_sign [OF c(2)] False val [of "nat i"] show ?thesis
      by (simp add: int_text_def strto_int_def strto_parts_def)
  qed
qed

lemma isdigit_atom: "isdigit c \<Longrightarrow> atom_char c"
  by (auto simp: isdigit_def atom_char_def is_scalar_char_def isspace_def)

lemma wf_int_text [simp]: "wf_json (JAtom (int_text i))"
proof -
  have "list_all atom_char (nat_text n)" "nat_text n \<noteq> []" for n
    using nat_text_digits [of n] nat_text_first [of n] by (auto simp: list_all_iff isdigit_atom)
  then show ?thesis
    by (auto simp: int_text_def atom_char_def is_scalar_char_def isspace_def)
qed

lemma json_get_int_correct:
  assumes "stands_at (JAtom (int_text i)) p" "- (2 ^ 63) \<le> i" "i < 2 ^ 63"
  shows "json_get_int (Some p) = i"
proof -
  from assms(1) obtain rest where p: "p = int_text i @ rest" "delimited rest"
    by (auto simp: stands_at_def)
  then have "rest = [] \<or> \<not> isdigit (hd rest)"
    by (auto simp: delimited_def isdigit_def)
  then have "strto_int p = i" by (simp add: p strto_int_text)
  moreover have "json_skip_whitespace p = p"
    using skip_ws_render [OF wf_int_text] by (simp add: p)
  ultimately show ?thesis
    using assms(2,3) by (simp add: json_get_int_def strtoll_def)
qed

text \<open>The integer the code reads at any tree: the digits of an atom, 0 at anything else.\<close>

definition tree_int :: "json \<Rightarrow> int" where
  "tree_int v = (case v of JAtom a \<Rightarrow> strtoll a | _ \<Rightarrow> 0)"

lemma digits_val_prefix:
  "t = [] \<or> \<not> isdigit (hd t) \<Longrightarrow> digits_val acc (a @ t) = digits_val acc a"
  by (induction a arbitrary: acc) (auto simp: digits_val_stop)

lemma json_get_int_tree:
  assumes "stands_at v p"
  shows "json_get_int (Some p) = tree_int v"
proof -
  from assms obtain rest where p: "p = render v @ rest" "delimited rest" and wf: "wf_json v"
    by (auto simp: stands_at_def)
  have nd: "rest = [] \<or> \<not> isdigit (hd rest)"
    using p(2) by (auto simp: delimited_def isdigit_def)
  have ws: "json_skip_whitespace p = p"
    using wf by (simp add: p(1) skip_ws_render)
  show ?thesis
  proof (cases v)
    case (JAtom a)
    with wf obtain c cs where a: "a = c # cs" "atom_char c" by (cases a) auto
    then have "\<not> isspace c" by (simp add: atom_char_def is_scalar_char_def)
    then have "strto_parts (a @ rest) = strto_parts a"
      using a nd digits_val_prefix [of rest 0 cs] digits_val_prefix [of rest 0 a]
      by (simp add: strto_parts_def)
    with JAtom have "strto_int p = strto_int a" by (simp add: strto_int_def p(1))
    with JAtom show ?thesis
      by (simp add: json_get_int_def tree_int_def ws strtoll_def)
  qed (use ws in \<open>simp_all add: json_get_int_def tree_int_def strtoll_def strto_int_def
      strto_parts_def p(1) isdigit_def isspace_def\<close>)
qed

lemma tree_int_text: "- (2 ^ 63) \<le> i \<Longrightarrow> i < 2 ^ 63 \<Longrightarrow> tree_int (JAtom (int_text i)) = i"
  using strto_int_text [of "[]" i] by (simp add: tree_int_def strtoll_def)

lemma json_find_all_values_correct:
  assumes "points_at v p" "plain_key key"
  obtains qs rs where "json_find_all_values (Some p) key = Some (qs @ rs)"
    "list_all2 stands_at (tree_all key v) qs"
proof -
  from assms obtain rest rs where *: "p = render v @ rest" "delimited rest" "wf_json v"
      "find_all_loop rest key = Some rs"
    by (auto simp: points_at_def scannable_def)
  from find_all_correct(1) [OF *(3,2) assms(2) *(4)] that show ?thesis
    by (auto simp: json_find_all_values_def *(1))
qed

section \<open>The interface the query parser uses\<close>

text \<open>
  What the query parser relies on of a search through the text: at a pointer to a tree it
  returns, and it returns a pointer to what the search finds in the tree. The lemmas of the
  locale are the two shapes in which the parser's call sites use a search.
\<close>

locale json_search =
  fixes find :: "cstring option \<Rightarrow> cstring \<Rightarrow> cstring option option"
    and lookup :: "cstring \<Rightarrow> json \<Rightarrow> json option"
  assumes find_refines: "points_at v p \<Longrightarrow> plain_key key \<Longrightarrow>
      \<exists>r. find (Some p) key = Some r \<and> rel_option points_at (lookup key v) r"
begin

lemma find_None: "points_at v p \<Longrightarrow> plain_key key \<Longrightarrow> lookup key v = None \<Longrightarrow>
    find (Some p) key = Some None"
  using find_refines by fastforce

lemma find_Some:
  assumes "points_at v p" "plain_key key" "lookup key v = Some u"
  obtains q where "find (Some p) key = Some (Some q)" "points_at u q"
  using find_refines [OF assms(1,2)] assms(3) by (auto simp: option_rel_Some1)

lemma find_bind:
  assumes "points_at v p" "plain_key key"
    and "lookup key v = None \<Longrightarrow> P (k None)"
    and "\<And>u q. lookup key v = Some u \<Longrightarrow> points_at u q \<Longrightarrow> P (k (Some q))"
  shows "P (Option.bind (find (Some p) key) k)"
proof (cases "lookup key v")
  case None
  with find_None [OF assms(1,2)] assms(3) show ?thesis by simp
next
  case (Some u)
  with assms(1,2) obtain q where "find (Some p) key = Some (Some q)" "points_at u q"
    by (rule find_Some)
  with assms(4) [OF Some] show ?thesis by simp
qed

end

interpretation fk: json_search json_find_key obj_lookup
  by unfold_locales (rule json_find_key_correct)

interpretation fr: json_search json_find_key_recursive tree_find
  by unfold_locales (rule json_find_key_recursive_correct)

section \<open>Properties\<close>

lemma document: "wf_json v \<Longrightarrow> points_at v (render v)"
  using points_atI [of v "[]"] by (simp add: delimited_def)

text \<open>\<open>json_skip_value\<close> stops exactly behind the value it starts at, for every well-formed
  value, whatever is nested in it and whatever brackets stand inside its strings.\<close>

theorem skip_value_exact:
  assumes "wf_json v" "delimited rest"
  shows "json_skip_value (render v @ rest) = Some rest"
  using assms by (rule json_skip_value_render)

theorem skip_value_exact_witness:
  "json_skip_value (''{'' @ QUOTE # ''a'' @ QUOTE # '':['' @ QUOTE # '']}'' @ QUOTE # '',7]},8]'') = Some '',8]''"
  using skip_value_exact [of "JObj [(''a'', JArr [JStr '']}'', JAtom ''7''])]" "'',8]''"]
  by (simp add: delimited_def atom_char_def is_scalar_char_def isspace_def)

text \<open>\<open>json_find_key\<close> is lookup in the first level of the object: it returns NULL when the
  tree has no such key and else a pointer to the text of the value; it always returns.\<close>

theorem find_key_exact:
  assumes "wf_json v" "plain_key key"
  shows "\<exists>r. json_find_key (Some (render v)) key = Some r \<and> rel_option points_at (obj_lookup key v) r"
  using json_find_key_correct [OF document [OF assms(1)] assms(2)] .

definition demo_doc :: json where
  "demo_doc = JObj [(''a'', JObj [(''k'', JAtom ''1'')]), (''k'', JArr [JStr ''x'', JAtom ''42''])]"

lemma demo_doc_wf: "wf_json demo_doc" "plain_key ''k''"
  by (simp_all add: demo_doc_def atom_char_def is_scalar_char_def isspace_def plain_key_def)

theorem find_key_exact_witness:
  "\<exists>q. json_find_key (Some (render demo_doc)) ''k'' = Some (Some q) \<and>
     points_at (JArr [JStr ''x'', JAtom ''42'']) q"
proof -
  have "obj_lookup ''k'' demo_doc = Some (JArr [JStr ''x'', JAtom ''42''])" by (simp add: demo_doc_def)
  with find_key_exact [OF demo_doc_wf] show ?thesis by (auto simp: option_rel_Some1)
qed

text \<open>C22: \<open>json_find_key_recursive\<close> is the depth-first search of the tree that looks at the keys
  of an object before it goes into its values; it always returns on well-formed text.\<close>

theorem find_key_recursive_exact:
  assumes "wf_json v" "plain_key key"
  shows "\<exists>r. json_find_key_recursive (Some (render v)) key = Some r \<and>
    rel_option points_at (tree_find key v) r"
  using json_find_key_recursive_correct [OF document [OF assms(1)] assms(2)] .

theorem find_key_recursive_exact_witness:
  "\<exists>q. json_find_key_recursive (Some (render (JArr [JAtom ''3'', demo_doc]))) ''k'' = Some (Some q) \<and>
     points_at (JArr [JStr ''x'', JAtom ''42'']) q"
proof -
  have wf: "wf_json (JArr [JAtom ''3'', demo_doc])"
    using demo_doc_wf by (simp add: atom_char_def is_scalar_char_def isspace_def)
  have "tree_find ''k'' (JArr [JAtom ''3'', demo_doc]) = Some (JArr [JStr ''x'', JAtom ''42''])"
    by (simp add: demo_doc_def)
  with find_key_recursive_exact [OF wf demo_doc_wf(2)] show ?thesis by (auto simp: option_rel_Some1)
qed

text \<open>Round trip of numbers: printing a 64-bit integer as a JSON atom and reading it with
  \<open>json_get_int\<close> gives the integer back, whatever delimiter follows.\<close>

theorem get_int_round_trip:
  assumes "- (2 ^ 63) \<le> i" "i < 2 ^ 63" "delimited rest"
  shows "json_get_int (Some (int_text i @ rest)) = i"
proof (rule json_get_int_correct [OF _ assms(1,2)])
  have "wf_json (JAtom (int_text i))" by (rule wf_int_text)
  with assms(3) show "stands_at (JAtom (int_text i)) (int_text i @ rest)"
    by (auto simp: stands_at_def)
qed

theorem get_int_round_trip_witness: "json_get_int (Some (int_text (- 42) @ ''}'')) = - 42"
  using get_int_round_trip [of "- 42" "''}''"] by (simp add: delimited_def)

lemma find_recursive_stuck:
  assumes "find_recursive pl p key = Some y"
  shows "p = ''}'' \<longrightarrow> pl \<noteq> In_Array \<and> (pl = At_Value \<longrightarrow> y = None)"
proof (rule find_recursive.raw_induct [of
      "\<lambda>pl p key y. p = ''}'' \<longrightarrow> pl \<noteq> In_Array \<and> (pl = At_Value \<longrightarrow> y = None)", OF _ assms], goal_cases)
  case (1 f pl p key y)
  have ws: "json_skip_whitespace ''}'' = ''}''" "json_skip_value ''}'' = Some ''}''"
    by (simp_all add: json_skip_whitespace_def json_skip_value_def isspace_def is_scalar_char_def)
  have arr: "f In_Array ''}'' key = None"
    using 1(1) [of In_Array "''}''" key] by (cases "f In_Array ''}'' key") auto
  have val: "f At_Value ''}'' key = Some z \<Longrightarrow> z = None" for z
    using 1(1) [of At_Value "''}''" key z] by simp
  show ?case
    using 1(2) arr val
    by (cases pl) (auto simp: ws Let_def bind_eq_Some_conv skip_char_def split: option.splits)
qed

text \<open>On malformed text the array loop of \<open>json_find_key_recursive\<close> need not end: on an array
  that a brace closes, it stays at the brace for ever.\<close>

theorem array_loop_hangs: "json_find_key_recursive (Some ''[}'') key = None"
proof -
  have "find_recursive In_Array ''}'' key = None"
    using find_recursive_stuck [of In_Array "''}''" key] by (cases "find_recursive In_Array ''}'' key") auto
  then have "find_recursive At_Value ''[}'' key = None"
    by (subst find_recursive.simps) (simp add: json_skip_whitespace_def isspace_def)
  then show ?thesis by (simp add: json_find_key_recursive_def)
qed

end
