(* ===== verification/Session_State.thy ===== *)
theory Session_State
  imports Message Shard_Map Event_Loop Json_Tree
begin

text \<open>
  The client session, first part (\<open>src/session/session.c\<close>, \<open>session.h\<close>): its state, its creation and
  destruction, the receive buffer, the send buffer and the flushing of it, and the translation of
  backend results into messages. The handlers that read from the client and from the backends come
  after the protocol code they call.

  The functions act on a \<open>proxy\<close> state: the session, the shard map it points to (shared with the
  other sessions), the outside world, and whether the session is still allocated. A pointer to a
  shard is its index in the map.
\<close>

unbundle bit_operations_syntax

datatype SessionState =
    SESSION_STATE_INIT | SESSION_STATE_AUTH | SESSION_STATE_READY | SESSION_STATE_QUERY
  | SESSION_STATE_SCATTER | SESSION_STATE_COPY_IN | SESSION_STATE_COPY_OUT | SESSION_STATE_CLOSING

datatype TxnState = TXN_STATE_IDLE | TXN_STATE_IN_TRANSACTION | TXN_STATE_FAILED

record RecvBuf =
  rb_data :: "byte list"
  rb_len :: nat
  rb_cap :: nat

definition MAX_SCATTER_SHARDS :: nat where "MAX_SCATTER_SHARDS = 64"

record ScatterConn =
  sc_shard :: "nat option"
  sc_conn :: PGconn
  sc_ev :: EventHandler
  sc_done :: bool
  sc_from_pool :: bool

definition scatter_conn_zero :: ScatterConn where
  "scatter_conn_zero = \<lparr>sc_shard = None, sc_conn = None, sc_ev = event_handler_zero, sc_done = False,
     sc_from_pool = False\<rparr>"

record ClientSession =
  sess_addr :: nat
  client_fd :: int
  sess_state :: SessionState
  txn_state :: TxnState
  ev_handler :: EventHandler
  recv_buf :: RecvBuf
  send_buf :: MsgBuf
  send_pos :: nat
  backend_conn :: PGconn
  backend_ev :: EventHandler
  backend_busy :: bool
  backend_shard :: "nat option"
  scatter_conns :: "ScatterConn list"
  scatter_count :: int
  scatter_done :: int
  scatter_header_sent :: bool
  sess_user :: "cstring option"
  sess_database :: "cstring option"
  sess_pid :: "32 word"
  secret_key :: "32 word"
  sess_conninfo :: "cstring option"

record 'w proxy =
  px_session :: ClientSession
  px_map :: "ShardMap option"
  px_world :: 'w
  px_alive :: bool

section \<open>Access to parts of the state\<close>

definition set_session :: "(ClientSession \<Rightarrow> ClientSession) \<Rightarrow> 'w proxy \<Rightarrow> 'w proxy" where
  "set_session f px = px\<lparr>px_session := f (px_session px)\<rparr>"

definition set_world :: "('w \<Rightarrow> 'w) \<Rightarrow> 'w proxy \<Rightarrow> 'w proxy" where
  "set_world f px = px\<lparr>px_world := f (px_world px)\<rparr>"

text \<open>A call on the pool of the shard a pointer points to.\<close>

definition pool_acquire :: "'w ext \<Rightarrow> nat \<Rightarrow> 'w proxy \<Rightarrow> (PGconn \<times> 'w proxy) option" where
  "pool_acquire E i px = do {
     m \<leftarrow> px_map px;
     if i < length (map_shards m) then do {
       (conn, pool, w) \<leftarrow> conn_pool_acquire E (shard_pool (map_shards m ! i)) (px_world px);
       Some (conn, px\<lparr>px_map := Some (m\<lparr>map_shards := (map_shards m)[i := (map_shards m ! i)\<lparr>shard_pool := pool\<rparr>]\<rparr>),
         px_world := w\<rparr>)
     } else None
   }"

definition pool_release :: "'w ext \<Rightarrow> nat \<Rightarrow> PGconn \<Rightarrow> 'w proxy \<Rightarrow> 'w proxy option" where
  "pool_release E i conn px = do {
     m \<leftarrow> px_map px;
     if i < length (map_shards m) then do {
       (pool, w) \<leftarrow> conn_pool_release E (shard_pool (map_shards m ! i)) conn (px_world px);
       Some (px\<lparr>px_map := Some (m\<lparr>map_shards := (map_shards m)[i := (map_shards m ! i)\<lparr>shard_pool := pool\<rparr>]\<rparr>),
         px_world := w\<rparr>)
     } else None
   }"

text \<open>\<open>if (shard) conn_pool_release(&shard->pool, conn) else PQfinish(conn)\<close>\<close>

definition give_back :: "'w ext \<Rightarrow> nat option \<Rightarrow> PGconn \<Rightarrow> 'w proxy \<Rightarrow> 'w proxy option" where
  "give_back E shard conn px =
     (case shard of
        Some i \<Rightarrow> pool_release E i conn px
      | None \<Rightarrow> Some (set_world (PQfinish E conn) px))"

definition del_handler :: "'w ext \<Rightarrow> EventHandler \<Rightarrow> 'w proxy \<Rightarrow> 'w proxy" where
  "del_handler E h px = set_world (\<lambda>w. snd (event_loop_del E h w)) px"

definition mod_client :: "'w ext \<Rightarrow> ep_event set \<Rightarrow> 'w proxy \<Rightarrow> 'w proxy" where
  "mod_client E events px =
     (let s = px_session px;
          (h, rc, w) = event_loop_mod E (HP_Client (sess_addr s)) (ev_handler s) events (px_world px)
      in px\<lparr>px_session := s\<lparr>ev_handler := h\<rparr>, px_world := w\<rparr>)"

section \<open>Creation and destruction\<close>

definition RECV_BUF_INITIAL :: nat where "RECV_BUF_INITIAL = 8192"
definition SEND_BUF_INITIAL :: nat where "SEND_BUF_INITIAL = 8192"

text \<open>\<open>O_NONBLOCK\<close> is 2048.\<close>

definition set_nonblocking :: "'w ext \<Rightarrow> int \<Rightarrow> 'w \<Rightarrow> int \<times> 'w" where
  "set_nonblocking E fd w =
     (let flags = fcntl_getfl E fd w in
      if flags < 0 then (- 1, w) else fcntl_setfl E fd (flags OR 2048) w)"

definition recvbuf_init :: "nat \<Rightarrow> RecvBuf" where
  "recvbuf_init cap = \<lparr>rb_data = [], rb_len = 0, rb_cap = cap\<rparr>"

definition recvbuf_free :: "RecvBuf \<Rightarrow> RecvBuf" where
  "recvbuf_free rb = \<lparr>rb_data = [], rb_len = 0, rb_cap = 0\<rparr>"

definition recvbuf_ensure :: "RecvBuf \<Rightarrow> nat \<Rightarrow> RecvBuf option" where
  "recvbuf_ensure rb additional =
     (if rb_len rb + additional \<le> rb_cap rb then Some rb
      else do {
        new_cap \<leftarrow> grow_cap (rb_cap rb * 2) (rb_len rb + additional);
        Some (rb\<lparr>rb_cap := new_cap\<rparr>)
      })"

text \<open>\<open>a\<close> is the address \<open>calloc\<close> returned, \<open>None\<close> for NULL, and \<open>pid\<close> the process id; the result is
  \<open>None\<close> for NULL.\<close>

definition fresh_session :: "nat \<Rightarrow> 32 word \<Rightarrow> int \<Rightarrow> cstring option \<Rightarrow> EventHandler \<Rightarrow> ClientSession" where
  "fresh_session a pid fd conninfo h =
     \<lparr>sess_addr = a, client_fd = fd, sess_state = SESSION_STATE_INIT, txn_state = TXN_STATE_IDLE,
      ev_handler = h, recv_buf = recvbuf_init RECV_BUF_INITIAL, send_buf = msgbuf_init SEND_BUF_INITIAL,
      send_pos = 0, backend_conn = None, backend_ev = event_handler_zero, backend_busy = False,
      backend_shard = None, scatter_conns = replicate MAX_SCATTER_SHARDS scatter_conn_zero, scatter_count = 0,
      scatter_done = 0, scatter_header_sent = False, sess_user = None, sess_database = None,
      sess_pid = pid, secret_key = word_of_nat a AND 0x7FFFFFFF, sess_conninfo = conninfo\<rparr>"

definition session_create ::
    "'w ext \<Rightarrow> nat option \<Rightarrow> 32 word \<Rightarrow> int \<Rightarrow> cstring option \<Rightarrow> ShardMap option \<Rightarrow> 'w \<Rightarrow> 'w proxy option" where
  "session_create E addr pid fd conninfo m w =
     (case addr of
        None \<Rightarrow> None
      | Some a \<Rightarrow>
          (let w = snd (set_nonblocking E fd w);
               h = event_handler_zero\<lparr>ev_fd := fd, ev_callback := Some On_Client_Readable\<rparr>;
               (h, rc, w) = event_loop_add E (HP_Client a) h {EPOLLIN} w
           in Some \<lparr>px_session = fresh_session a pid fd conninfo h, px_map = m, px_world = w, px_alive = True\<rparr>))"

definition release_one :: "'w ext \<Rightarrow> nat \<Rightarrow> 'w proxy \<Rightarrow> 'w proxy option" where
  "release_one E i px =
     (if i < length (scatter_conns (px_session px)) then
        let sc = scatter_conns (px_session px) ! i in
        if sc_conn sc \<noteq> None then do {
          let px = del_handler E (sc_ev sc) px;
          px \<leftarrow> give_back E (if sc_from_pool sc then sc_shard sc else None) (sc_conn sc) px;
          Some (set_session (\<lambda>s. s\<lparr>scatter_conns := (scatter_conns s)[i := sc\<lparr>sc_conn := None\<rparr>]\<rparr>) px)
        }
        else Some px
      else None)"

fun release_loop :: "'w ext \<Rightarrow> nat \<Rightarrow> nat \<Rightarrow> 'w proxy \<Rightarrow> 'w proxy option" where
  "release_loop E i 0 px = Some px"
| "release_loop E i (Suc n) px = do { px \<leftarrow> release_one E i px; release_loop E (Suc i) n px }"

definition session_release_scatter :: "'w ext \<Rightarrow> 'w proxy \<Rightarrow> 'w proxy option" where
  "session_release_scatter E px = do {
     px \<leftarrow> release_loop E 0 (nat (scatter_count (px_session px))) px;
     Some (set_session (\<lambda>s. s\<lparr>scatter_count := 0, scatter_done := 0, scatter_header_sent := False\<rparr>) px)
   }"

text \<open>The lines that give up the backend connection of a session: out of epoll, back to its pool or
  closed, pointer set to NULL.\<close>

definition end_backend :: "'w ext \<Rightarrow> 'w proxy \<Rightarrow> 'w proxy option" where
  "end_backend E px = do {
     let px = del_handler E (backend_ev (px_session px)) px;
     px \<leftarrow> give_back E (backend_shard (px_session px)) (backend_conn (px_session px)) px;
     Some (set_session (\<lambda>s. s\<lparr>backend_conn := None\<rparr>) px)
   }"

definition session_destroy :: "'w ext \<Rightarrow> 'w proxy \<Rightarrow> 'w proxy option" where
  "session_destroy E px = do {
     let px = del_handler E (ev_handler (px_session px)) px;
     let px = set_world (sys_close E (client_fd (px_session px))) px;
     px \<leftarrow> (if backend_conn (px_session px) \<noteq> None then end_backend E px else Some px);
     px \<leftarrow> session_release_scatter E px;
     Some (set_session (\<lambda>s. s\<lparr>recv_buf := recvbuf_free (recv_buf s), send_buf := msgbuf_free (send_buf s),
       sess_user := None, sess_database := None\<rparr>) px\<lparr>px_alive := False\<rparr>)
   }"

section \<open>Sending\<close>

definition set_out :: "MsgBuf \<Rightarrow> 'w proxy \<Rightarrow> 'w proxy" where
  "set_out b px = set_session (\<lambda>s. s\<lparr>send_buf := b\<rparr>) px"

text \<open>A write to the send buffer of the session.\<close>

definition put_out :: "(MsgBuf \<Rightarrow> MsgBuf option) \<Rightarrow> 'w proxy \<Rightarrow> 'w proxy option" where
  "put_out f px = do { b \<leftarrow> f (send_buf (px_session px)); Some (set_out b px) }"

definition session_queue_send :: "byte list \<Rightarrow> 'w proxy \<Rightarrow> 'w proxy option" where
  "session_queue_send data px = put_out (\<lambda>b. msgbuf_put_bytes b data) px"

text \<open>\<open>session_queue_send(session, msg.data, msg.len)\<close>, and the same with a fresh message that is
  initialised with capacity \<open>cap\<close>, written by \<open>f\<close> and freed.\<close>

definition queue_msg :: "MsgBuf \<Rightarrow> 'w proxy \<Rightarrow> 'w proxy option" where
  "queue_msg msg px = do { d \<leftarrow> mem_read 0 (mb_len msg) (mb_data msg); session_queue_send d px }"

definition queue_new :: "nat \<Rightarrow> (MsgBuf \<Rightarrow> MsgBuf option) \<Rightarrow> 'w proxy \<Rightarrow> 'w proxy option" where
  "queue_new cap f px = do { msg \<leftarrow> f (msgbuf_init cap); queue_msg msg px }"

partial_function (option) session_send :: "'w ext \<Rightarrow> 'w proxy \<Rightarrow> ('w proxy \<times> int) option" where
  "session_send E px =
     (let s = px_session px in
      if send_pos s < mb_len (send_buf s) then do {
        d \<leftarrow> mem_read (send_pos s) (mb_len (send_buf s) - send_pos s) (mb_data (send_buf s));
        let (r, w) = sys_send E (client_fd s) d (px_world px);
        (case r of
           Sent n \<Rightarrow> session_send E (px\<lparr>px_session := s\<lparr>send_pos := send_pos s + n\<rparr>, px_world := w\<rparr>)
         | Send_Again \<Rightarrow>
             Some (mod_client E {EPOLLOUT}
               (px\<lparr>px_session := s\<lparr>ev_handler := (ev_handler s)\<lparr>ev_callback := Some On_Client_Writable\<rparr>\<rparr>, px_world := w\<rparr>), 0)
         | Send_Error \<Rightarrow> Some (px\<lparr>px_world := w\<rparr>, - 1))
      }
      else
        Some (mod_client E {EPOLLIN}
          (px\<lparr>px_session := s\<lparr>send_buf := msgbuf_reset (send_buf s), send_pos := 0,
             ev_handler := (ev_handler s)\<lparr>ev_callback := Some On_Client_Readable\<rparr>\<rparr>\<rparr>), 0))"

definition session_on_client_writable :: "'w ext \<Rightarrow> ep_event set \<Rightarrow> 'w proxy \<Rightarrow> 'w proxy option" where
  "session_on_client_writable E events px =
     (if EPOLLERR \<in> events \<or> EPOLLHUP \<in> events then session_destroy E px
      else do {
        (px, rc) \<leftarrow> session_send E px;
        if rc < 0 then session_destroy E px else Some px
      })"

section \<open>Results as messages\<close>

fun put_fields :: "PGfield list \<Rightarrow> MsgBuf \<Rightarrow> MsgBuf option" where
  "put_fields [] msg = Some msg"
| "put_fields (f # fs) msg = do {
     msg \<leftarrow> msgbuf_put_string msg (PQfname f);
     msg \<leftarrow> msgbuf_put_int32 msg 0;
     msg \<leftarrow> msgbuf_put_int16 msg 0;
     msg \<leftarrow> msgbuf_put_int32 msg (PQftype f);
     msg \<leftarrow> msgbuf_put_int16 msg (word_of_int (PQfsize f));
     msg \<leftarrow> msgbuf_put_int32 msg (word_of_int (PQfmod f));
     msg \<leftarrow> msgbuf_put_int16 msg 0;
     put_fields fs msg
   }"

fun put_values :: "PGresult \<Rightarrow> nat \<Rightarrow> nat list \<Rightarrow> MsgBuf \<Rightarrow> MsgBuf option" where
  "put_values res r [] msg = Some msg"
| "put_values res r (c # cs) msg = do {
     msg \<leftarrow> (case pg_value res r c of
        None \<Rightarrow> msgbuf_put_int32 msg (- 1)
      | Some v \<Rightarrow> do {
          msg \<leftarrow> msgbuf_put_int32 msg (word_of_nat (length v));
          msgbuf_put_bytes msg v
        });
     put_values res r cs msg
   }"

definition row_description :: "PGresult \<Rightarrow> MsgBuf \<Rightarrow> MsgBuf option" where
  "row_description res msg = do {
     (msg, off) \<leftarrow> msg_begin msg MSG_ROW_DESCRIPTION;
     msg \<leftarrow> msgbuf_put_int16 msg (word_of_nat (PQnfields res));
     msg \<leftarrow> put_fields (pg_fields res) msg;
     msg_end msg off
   }"

definition data_row :: "PGresult \<Rightarrow> nat \<Rightarrow> MsgBuf \<Rightarrow> MsgBuf option" where
  "data_row res r msg = do {
     (msg, off) \<leftarrow> msg_begin msg MSG_DATA_ROW;
     msg \<leftarrow> msgbuf_put_int16 msg (word_of_nat (PQnfields res));
     msg \<leftarrow> put_values res r [0..<PQnfields res] msg;
     msg_end msg off
   }"

fun forward_rows :: "PGresult \<Rightarrow> nat list \<Rightarrow> MsgBuf \<Rightarrow> 'w proxy \<Rightarrow> 'w proxy option" where
  "forward_rows res [] msg px = Some px"
| "forward_rows res (r # rs) msg px = do {
     msg \<leftarrow> data_row res r (msgbuf_reset msg);
     px \<leftarrow> queue_msg msg px;
     forward_rows res rs msg px
   }"

definition session_forward_result :: "PGresult \<Rightarrow> bool \<Rightarrow> 'w proxy \<Rightarrow> ('w proxy \<times> nat) option" where
  "session_forward_result res send_header px = do {
     let msg = msgbuf_init 256;
     (msg, px) \<leftarrow> (if send_header \<and> 0 < PQnfields res then do {
       msg \<leftarrow> row_description res msg;
       px \<leftarrow> queue_msg msg px;
       Some (msg, px)
     } else Some (msg, px));
     px \<leftarrow> forward_rows res [0..<PQntuples res] msg px;
     Some (px, PQntuples res)
   }"

section \<open>Writes to the send buffer\<close>

lemma set_session_simps [simp]:
  "px_session (set_session f px) = f (px_session px)" "px_map (set_session f px) = px_map px"
  "px_world (set_session f px) = px_world px" "px_alive (set_session f px) = px_alive px"
  "px_session (set_world g px) = px_session px" "px_map (set_world g px) = px_map px"
  "px_world (set_world g px) = g (px_world px)" "px_alive (set_world g px) = px_alive px"
  by (simp_all add: set_session_def set_world_def)

lemma del_handler_simps [simp]:
  "px_session (del_handler E h px) = px_session px" "px_map (del_handler E h px) = px_map px"
  "px_alive (del_handler E h px) = px_alive px"
  by (simp_all add: del_handler_def)

lemma set_out_simps [simp]:
  "px_session (set_out b px) = (px_session px)\<lparr>send_buf := b\<rparr>" "px_map (set_out b px) = px_map px"
  "px_world (set_out b px) = px_world px" "px_alive (set_out b px) = px_alive px"
  "set_out b (set_out c px) = set_out b px"
  by (simp_all add: set_out_def set_session_def)

definition queued :: "'w proxy \<Rightarrow> byte list" where
  "queued px = contents (send_buf (px_session px))"

text \<open>A computation that does nothing but append \<open>xs\<close> to the send buffer.\<close>

definition queues :: "('w proxy \<Rightarrow> 'w proxy option) \<Rightarrow> byte list \<Rightarrow> bool" where
  "queues f xs \<longleftrightarrow> (\<forall>px. buf_ok (send_buf (px_session px)) \<longrightarrow>
     (\<exists>b. f px = Some (set_out b px) \<and> buf_ok b \<and> contents b = queued px @ xs))"

lemma queuesD:
  assumes "queues f xs" "buf_ok (send_buf (px_session px))"
  obtains b where "f px = Some (set_out b px)" "buf_ok b" "contents b = queued px @ xs"
  using assms by (auto simp: queues_def)

lemma queues_Some: "queues Some []"
  unfolding queues_def
proof (intro allI impI exI conjI)
  fix px :: "'w proxy"
  assume "buf_ok (send_buf (px_session px))"
  then show "buf_ok (send_buf (px_session px))" .
qed (simp_all add: queued_def set_out_def set_session_def)

lemma queues_bind [intro]:
  assumes "queues f xs" "queues g ys"
  shows "queues (\<lambda>px. Option.bind (f px) g) (xs @ ys)"
  unfolding queues_def
proof (intro allI impI)
  fix px :: "'a proxy"
  assume "buf_ok (send_buf (px_session px))"
  with assms(1) obtain b where b: "f px = Some (set_out b px)" "buf_ok b" "contents b = queued px @ xs"
    by (rule queuesD)
  have "buf_ok (send_buf (px_session (set_out b px)))" using b(2) by simp
  with assms(2) obtain c where "g (set_out b px) = Some (set_out c (set_out b px))" "buf_ok c"
    "contents c = queued (set_out b px) @ ys" by (rule queuesD)
  with b show "\<exists>b. Option.bind (f px) g = Some (set_out b px) \<and> buf_ok b \<and> contents b = queued px @ xs @ ys"
    by (auto simp: queued_def)
qed

lemma queues_put_out: "appends buf_ok contents f xs \<Longrightarrow> queues (put_out f) xs"
  by (auto simp: queues_def put_out_def queued_def elim!: appendsD)

lemma queues_queue_send: "queues (session_queue_send xs) xs"
  unfolding session_queue_send_def by (rule queues_put_out [OF put_appends(5)])

lemma queue_msg_contents: "buf_ok msg \<Longrightarrow> queue_msg msg = session_queue_send (contents msg)"
  by (rule ext) (simp add: queue_msg_def mem_read_def buf_ok_def contents_def)

lemma queues_queue_msg: "buf_ok msg \<Longrightarrow> queues (queue_msg msg) (contents msg)"
  by (simp add: queue_msg_contents queues_queue_send)

lemma queues_queue_new:
  assumes "appends buf_ok contents f xs" "0 < cap"
  shows "queues (queue_new cap f :: 'w proxy \<Rightarrow> 'w proxy option) xs"
proof -
  obtain msg where msg: "f (msgbuf_init cap) = Some msg" "buf_ok msg" "contents msg = contents (msgbuf_init cap) @ xs"
    using assms(1) buf_ok_init(1) [OF assms(2)] by (rule appendsD)
  then have "(queue_new cap f :: 'w proxy \<Rightarrow> 'w proxy option) = queue_msg msg"
    by (intro ext) (simp add: queue_new_def)
  with msg(3) queues_queue_msg [OF msg(2), where 'a = 'w] show ?thesis by simp
qed

section \<open>Results\<close>

definition field_bytes :: "PGfield \<Rightarrow> byte list" where
  "field_bytes f = (PQfname f @ [NUL]) @ htonl_bytes 0 @ htons_bytes 0 @ htonl_bytes (PQftype f) @
     htons_bytes (word_of_int (PQfsize f)) @ htonl_bytes (word_of_int (PQfmod f)) @ htons_bytes 0"

definition value_bytes :: "byte list option \<Rightarrow> byte list" where
  "value_bytes v = (case v of None \<Rightarrow> htonl_bytes (- 1) | Some d \<Rightarrow> htonl_bytes (word_of_nat (length d)) @ d)"

definition header_payload :: "PGresult \<Rightarrow> byte list" where
  "header_payload res = htons_bytes (word_of_nat (PQnfields res)) @ concat (map field_bytes (pg_fields res))"

definition row_payload :: "PGresult \<Rightarrow> nat \<Rightarrow> byte list" where
  "row_payload res r = htons_bytes (word_of_nat (PQnfields res)) @
     concat (map (\<lambda>c. value_bytes (pg_value res r c)) [0..<PQnfields res])"

abbreviation header_frame :: "PGresult \<Rightarrow> byte list" where
  "header_frame res \<equiv> frame MSG_ROW_DESCRIPTION (header_payload res)"

abbreviation row_frame :: "PGresult \<Rightarrow> nat \<Rightarrow> byte list" where
  "row_frame res r \<equiv> frame MSG_DATA_ROW (row_payload res r)"

lemma put_fields_appends: "appends buf_ok contents (put_fields fs) (concat (map field_bytes fs))"
proof (induction fs)
  case Nil
  then show ?case by (simp add: appends_Some)
next
  case (Cons f fs)
  have "appends buf_ok contents (put_fields (f # fs))
     ((PQfname f @ [NUL]) @ htonl_bytes 0 @ htons_bytes 0 @ htonl_bytes (PQftype f) @
      htons_bytes (word_of_int (PQfsize f)) @ htonl_bytes (word_of_int (PQfmod f)) @ htons_bytes 0 @
      concat (map field_bytes fs))"
    unfolding put_fields.simps by (intro appends_bind put_appends Cons)
  then show ?case unfolding list.map concat.simps field_bytes_def [of f] append_assoc .
qed

lemma put_value_appends:
  "appends buf_ok contents (\<lambda>msg. case v of None \<Rightarrow> msgbuf_put_int32 msg (- 1)
     | Some d \<Rightarrow> Option.bind (msgbuf_put_int32 msg (word_of_nat (length d))) (\<lambda>msg. msgbuf_put_bytes msg d))
   (value_bytes v)"
  by (cases v) (auto simp: value_bytes_def intro: appends_bind put_appends)

lemma put_values_appends:
  "appends buf_ok contents (put_values res r cs) (concat (map (\<lambda>c. value_bytes (pg_value res r c)) cs))"
proof (induction cs)
  case Nil
  then show ?case by (simp add: appends_Some)
next
  case (Cons c cs)
  from appends_bind [OF put_value_appends [of "pg_value res r c"] Cons] show ?case by simp
qed

lemma result_frames_append [buf_simps]:
  "appends buf_ok contents (row_description res) (header_frame res)"
  "appends buf_ok contents (data_row res r) (row_frame res r)"
  unfolding row_description_def data_row_def header_payload_def row_payload_def
  by (rule framed, (rule appends_bind put_appends put_fields_appends put_values_appends)+,
      simp add: Option.bind_assoc)+

lemma forward_rows_queues:
  "buf_ok msg \<Longrightarrow> queues (forward_rows res rs msg) (concat (map (row_frame res) rs))"
proof (induction rs arbitrary: msg)
  case Nil
  have "forward_rows res [] msg = Some" by (rule ext) simp
  then show ?case by (simp add: queues_Some)
next
  case (Cons r rs)
  obtain m where m: "data_row res r (msgbuf_reset msg) = Some m" "buf_ok m"
    "contents m = contents (msgbuf_reset msg) @ row_frame res r"
    using result_frames_append(2) buf_ok_reset(1) [OF Cons.prems] by (rule appendsD)
  from queues_bind [OF queues_queue_msg [OF m(2)] Cons.IH [OF m(2)]] m show ?case by simp
qed

definition result_messages :: "PGresult \<Rightarrow> bool \<Rightarrow> (byte \<times> byte list) list" where
  "result_messages res send_header =
     (if send_header \<and> 0 < PQnfields res then [(MSG_ROW_DESCRIPTION, header_payload res)] else []) @
     map (\<lambda>r. (MSG_DATA_ROW, row_payload res r)) [0..<PQntuples res]"

definition result_bytes :: "PGresult \<Rightarrow> bool \<Rightarrow> byte list" where
  "result_bytes res send_header = concat (map (\<lambda>m. frame (fst m) (snd m)) (result_messages res send_header))"

lemma result_bytes_eq:
  "result_bytes res send_header = (if send_header \<and> 0 < PQnfields res then header_frame res else []) @
     concat (map (row_frame res) [0..<PQntuples res])"
  by (auto simp: result_bytes_def result_messages_def o_def)

lemma forward_result_ok:
  assumes "buf_ok (send_buf (px_session px))"
  obtains b where "session_forward_result res hdr px = Some (set_out b px, PQntuples res)" "buf_ok b"
    "contents b = queued px @ result_bytes res hdr"
proof (cases "hdr \<and> 0 < PQnfields res")
  case True
  have "buf_ok (msgbuf_init 256)" by simp
  with result_frames_append(1) obtain m where m: "row_description res (msgbuf_init 256) = Some m" "buf_ok m"
    "contents m = contents (msgbuf_init 256) @ header_frame res" by (rule appendsD)
  obtain b where "Option.bind (queue_msg m px) (forward_rows res [0..<PQntuples res] m) = Some (set_out b px)"
    "buf_ok b" "contents b = queued px @ contents m @ concat (map (row_frame res) [0..<PQntuples res])"
    using queues_bind [OF queues_queue_msg [OF m(2)] forward_rows_queues [OF m(2)]] assms by (rule queuesD)
  with that [of b] True m show ?thesis
    by (auto simp: session_forward_result_def result_bytes_eq bind_eq_Some_conv)
next
  case False
  have "buf_ok (msgbuf_init 256)" by simp
  from forward_rows_queues [OF this] assms obtain b where
    "forward_rows res [0..<PQntuples res] (msgbuf_init 256) px = Some (set_out b px)" "buf_ok b"
    "contents b = queued px @ concat (map (row_frame res) [0..<PQntuples res])" by (rule queuesD)
  with that [of b] False show ?thesis
    by (auto simp: session_forward_result_def result_bytes_eq)
qed

section \<open>Flushing the send buffer\<close>

text \<open>Behaviour of \<open>send\<close> on a stream socket, with \<open>sent fd w\<close> the bytes handed to the connection so
  far: a successful call takes a non-empty prefix of what it is given, a failing one nothing;
  \<open>epoll_ctl\<close> sends nothing.\<close>

definition stream_socket :: "'w ext \<Rightarrow> (int \<Rightarrow> 'w \<Rightarrow> byte list) \<Rightarrow> bool" where
  "stream_socket E sent \<longleftrightarrow>
     (\<forall>fd d w. d \<noteq> [] \<longrightarrow>
        (case sys_send E fd d w of
           (Sent n, w') \<Rightarrow> 0 < n \<and> n \<le> length d \<and> sent fd w' = sent fd w @ take n d
         | (_, w') \<Rightarrow> sent fd w' = sent fd w)) \<and>
     (\<forall>op fd ev w fd'. sent fd' (snd (epoll_ctl E op fd ev w)) = sent fd' w)"

definition unsent :: "'w proxy \<Rightarrow> byte list" where
  "unsent px = drop (send_pos (px_session px)) (queued px)"

definition out_ok :: "'w proxy \<Rightarrow> bool" where
  "out_ok px \<longleftrightarrow> buf_ok (send_buf (px_session px)) \<and> send_pos (px_session px) \<le> mb_len (send_buf (px_session px))"

text \<open>Two states that differ at most in the send buffer, the registration of the client socket and
  the world.\<close>

definition but_out :: "'w proxy \<Rightarrow> ClientSession \<times> ShardMap option \<times> bool" where
  "but_out px = ((px_session px)\<lparr>send_buf := msgbuf_init 0, send_pos := 0, ev_handler := event_handler_zero\<rparr>,
     px_map px, px_alive px)"

definition same_but_out :: "'w proxy \<Rightarrow> 'w proxy \<Rightarrow> bool" where
  "same_but_out px px' \<longleftrightarrow> but_out px' = but_out px"

lemma same_but_out_refl [simp]: "same_but_out px px"
  by (simp add: same_but_out_def)

lemma same_but_out_trans [trans]: "same_but_out a b \<Longrightarrow> same_but_out b c \<Longrightarrow> same_but_out a c"
  by (simp add: same_but_out_def)

lemma same_but_outD:
  assumes "same_but_out px px'"
  shows "px_map px' = px_map px" "px_alive px' = px_alive px"
    "sess_addr (px_session px') = sess_addr (px_session px)"
    "client_fd (px_session px') = client_fd (px_session px)"
    "sess_state (px_session px') = sess_state (px_session px)"
    "recv_buf (px_session px') = recv_buf (px_session px)"
    "backend_conn (px_session px') = backend_conn (px_session px)"
    "backend_ev (px_session px') = backend_ev (px_session px)"
    "backend_shard (px_session px') = backend_shard (px_session px)"
    "scatter_conns (px_session px') = scatter_conns (px_session px)"
    "scatter_count (px_session px') = scatter_count (px_session px)"
    "scatter_done (px_session px') = scatter_done (px_session px)"
    "scatter_header_sent (px_session px') = scatter_header_sent (px_session px)"
  using assms
  by (cases "px_session px"; cases "px_session px'"; simp add: same_but_out_def but_out_def)+

lemma set_out_same [simp]: "same_but_out px (set_out b px)"
  by (simp add: same_but_out_def but_out_def)

lemma mod_client_facts:
  assumes "stream_socket E sent"
  shows "same_but_out px (mod_client E evs px)" "queued (mod_client E evs px) = queued px"
    "send_pos (px_session (mod_client E evs px)) = send_pos (px_session px)"
    "send_buf (px_session (mod_client E evs px)) = send_buf (px_session px)"
    "ev_callback (ev_handler (px_session (mod_client E evs px))) = ev_callback (ev_handler (px_session px))"
    "ev_events (ev_handler (px_session (mod_client E evs px))) = evs"
    "sent fd (px_world (mod_client E evs px)) = sent fd (px_world px)"
proof -
  let ?ctl = "epoll_ctl E EPOLL_CTL_MOD (ev_fd (ev_handler (px_session px)))
    (Some (HP_Client (sess_addr (px_session px)), evs)) (px_world px)"
  obtain rc w where ctl: "?ctl = (rc, w)" by fastforce
  with assms have w: "sent fd w = sent fd (px_world px)"
    unfolding stream_socket_def by (metis snd_conv)
  have eq: "mod_client E evs px = px\<lparr>px_session := (px_session px)\<lparr>ev_handler :=
      (ev_handler (px_session px))\<lparr>ev_events := evs\<rparr>\<rparr>, px_world := w\<rparr>"
    by (simp add: mod_client_def event_loop_mod_def ctl Let_def)
  show "same_but_out px (mod_client E evs px)"
    by (simp add: eq same_but_out_def but_out_def)
  show "queued (mod_client E evs px) = queued px"
    "send_pos (px_session (mod_client E evs px)) = send_pos (px_session px)"
    "send_buf (px_session (mod_client E evs px)) = send_buf (px_session px)"
    "ev_callback (ev_handler (px_session (mod_client E evs px))) = ev_callback (ev_handler (px_session px))"
    "ev_events (ev_handler (px_session (mod_client E evs px))) = evs"
    "sent fd (px_world (mod_client E evs px)) = sent fd (px_world px)"
    by (simp_all add: eq queued_def w)
qed

text \<open>What a call of \<open>session_send\<close> did: the bytes of the stream are the same before and after, and
  the handler that is registered is the one the rest needs.\<close>

definition flushed :: "(int \<Rightarrow> 'w \<Rightarrow> byte list) \<Rightarrow> 'w proxy \<Rightarrow> 'w proxy \<Rightarrow> int \<Rightarrow> bool" where
  "flushed sent px px' rc \<longleftrightarrow>
     (let fd = client_fd (px_session px); h = ev_handler (px_session px') in
      same_but_out px px' \<and> out_ok px' \<and>
      sent fd (px_world px') @ unsent px' = sent fd (px_world px) @ unsent px \<and>
      (rc = 0 \<and> unsent px' = [] \<and> send_pos (px_session px') = 0 \<and>
         ev_callback h = Some On_Client_Readable \<and> ev_events h = {EPOLLIN} \<or>
       rc = 0 \<and> unsent px' \<noteq> [] \<and> ev_callback h = Some On_Client_Writable \<and> ev_events h = {EPOLLOUT} \<or>
       rc = - 1 \<and> unsent px' \<noteq> []))"

lemma flushed_step:
  assumes "flushed sent px1 px' rc" "same_but_out px px1"
    "sent (client_fd (px_session px)) (px_world px1) @ unsent px1 =
      sent (client_fd (px_session px)) (px_world px) @ unsent px"
  shows "flushed sent px px' rc"
  using assms same_but_outD(4) [OF assms(2)] same_but_out_trans [OF assms(2)]
  by (simp add: flushed_def Let_def)

lemma unsent_data:
  assumes "out_ok px"
  shows "mem_read (send_pos (px_session px)) (mb_len (send_buf (px_session px)) - send_pos (px_session px))
      (mb_data (send_buf (px_session px))) = Some (unsent px)"
    and "length (unsent px) = mb_len (send_buf (px_session px)) - send_pos (px_session px)"
  using assms by (auto simp: out_ok_def buf_ok_def mem_read_def unsent_def queued_def contents_def drop_take)

lemma session_send_unfold:
  assumes "out_ok px"
  shows "session_send E px =
    (let s = px_session px in
     if unsent px = [] then
       Some (mod_client E {EPOLLIN} (px\<lparr>px_session := s\<lparr>send_buf := msgbuf_reset (send_buf s), send_pos := 0,
         ev_handler := (ev_handler s)\<lparr>ev_callback := Some On_Client_Readable\<rparr>\<rparr>\<rparr>), 0)
     else
       (case sys_send E (client_fd s) (unsent px) (px_world px) of
          (Sent n, w) \<Rightarrow> session_send E (px\<lparr>px_session := s\<lparr>send_pos := send_pos s + n\<rparr>, px_world := w\<rparr>)
        | (Send_Again, w) \<Rightarrow> Some (mod_client E {EPOLLOUT}
            (px\<lparr>px_session := s\<lparr>ev_handler := (ev_handler s)\<lparr>ev_callback := Some On_Client_Writable\<rparr>\<rparr>, px_world := w\<rparr>), 0)
        | (Send_Error, w) \<Rightarrow> Some (px\<lparr>px_world := w\<rparr>, - 1)))"
proof -
  have "unsent px = [] \<longleftrightarrow> \<not> send_pos (px_session px) < mb_len (send_buf (px_session px))"
    using unsent_data(2) [OF assms] by auto
  then show ?thesis
    using unsent_data(1) [OF assms]
    by (subst session_send.simps) (auto simp: Let_def split: prod.splits send_result.splits)
qed

lemma flushed_done:
  assumes "stream_socket E sent" "out_ok px" "unsent px = []"
  shows "flushed sent px (mod_client E {EPOLLIN} (px\<lparr>px_session := (px_session px)\<lparr>
      send_buf := msgbuf_reset (send_buf (px_session px)), send_pos := 0,
      ev_handler := (ev_handler (px_session px))\<lparr>ev_callback := Some On_Client_Readable\<rparr>\<rparr>\<rparr>)) 0"
    (is "flushed _ _ (mod_client _ _ ?px) _")
proof -
  have "same_but_out px ?px" by (simp add: same_but_out_def but_out_def)
  with assms(2,3) mod_client_facts [OF assms(1), where px = ?px and evs = "{EPOLLIN}"] same_but_out_trans
  show ?thesis by (auto simp: flushed_def Let_def out_ok_def unsent_def queued_def)
qed

lemma flushed_again:
  assumes "stream_socket E sent" "out_ok px" "unsent px \<noteq> []"
    and "sent (client_fd (px_session px)) w = sent (client_fd (px_session px)) (px_world px)"
  shows "flushed sent px (mod_client E {EPOLLOUT} (px\<lparr>px_session := (px_session px)\<lparr>
      ev_handler := (ev_handler (px_session px))\<lparr>ev_callback := Some On_Client_Writable\<rparr>\<rparr>, px_world := w\<rparr>)) 0"
    (is "flushed _ _ (mod_client _ _ ?px) _")
proof -
  have "same_but_out px ?px" by (simp add: same_but_out_def but_out_def)
  with assms(2-4) mod_client_facts [OF assms(1), where px = ?px and evs = "{EPOLLOUT}"] same_but_out_trans
  show ?thesis by (auto simp: flushed_def Let_def out_ok_def unsent_def queued_def)
qed

lemma session_send_flushes:
  assumes "stream_socket E sent"
  shows "out_ok px \<Longrightarrow> \<exists>px' rc. session_send E px = Some (px', rc) \<and> flushed sent px px' rc"
proof (induction "length (unsent px)" arbitrary: px rule: less_induct)
  case less
  let ?s = "px_session px"
  note step = session_send_unfold [OF less.prems, of E]
  show ?case
  proof (cases "unsent px = []")
    case True
    with step flushed_done [OF assms less.prems True] show ?thesis by (simp add: Let_def)
  next
    case False
    obtain r w where send: "sys_send E (client_fd ?s) (unsent px) (px_world px) = (r, w)" by fastforce
    note sock = assms [unfolded stream_socket_def, THEN conjunct1, rule_format, OF False,
        of "client_fd ?s" "px_world px", unfolded send]
    show ?thesis
    proof (cases r)
      case (Sent n)
      let ?px = "px\<lparr>px_session := ?s\<lparr>send_pos := send_pos ?s + n\<rparr>, px_world := w\<rparr>"
      from sock Sent have n: "0 < n" "n \<le> length (unsent px)"
        "sent (client_fd ?s) w = sent (client_fd ?s) (px_world px) @ take n (unsent px)" by simp_all
      have u: "unsent ?px = drop n (unsent px)" by (simp add: unsent_def queued_def add.commute)
      have "out_ok ?px" using less.prems n(2) unsent_data(2) [OF less.prems] by (auto simp: out_ok_def)
      moreover have "length (unsent ?px) < length (unsent px)" using u n by simp
      ultimately obtain px' rc where *: "session_send E ?px = Some (px', rc)" "flushed sent ?px px' rc"
        using less.hyps by blast
      have "flushed sent px px' rc"
        using n(3) u by (intro flushed_step [OF *(2)]) (simp_all add: same_but_out_def but_out_def)
      with * step False send Sent show ?thesis by (simp add: Let_def)
    next
      case Send_Again
      with step False send sock flushed_again [OF assms less.prems False, of w] show ?thesis
        by (simp add: Let_def)
    next
      case Send_Error
      then have "flushed sent px (px\<lparr>px_world := w\<rparr>) (- 1)"
        using False less.prems sock
        by (simp add: flushed_def Let_def out_ok_def unsent_def queued_def same_but_out_def but_out_def)
      with step False send Send_Error show ?thesis by (simp add: Let_def)
    qed
  qed
qed

section \<open>Who holds the connections of the pools\<close>

lemma length_filter_update:
  assumes "j < length xs"
  shows "length (filter P (xs[j := y])) + (if P (xs ! j) then 1 else 0) =
    length (filter P xs) + (if P y then 1 else 0)"
proof -
  have "xs = take j xs @ xs ! j # drop (Suc j) xs" using assms by (rule id_take_nth_drop)
  then have "length (filter P xs) = length (filter P (take j xs @ xs ! j # drop (Suc j) xs))" by simp
  moreover have "length (filter P (xs[j := y])) = length (filter P (take j xs @ y # drop (Suc j) xs))"
    using assms by (simp add: upd_conv_take_nth_drop)
  ultimately show ?thesis by simp
qed

text \<open>The number of connections a session has taken from the pool of shard \<open>i\<close>.\<close>

definition takes :: "nat \<Rightarrow> ScatterConn \<Rightarrow> bool" where
  "takes i sc \<longleftrightarrow> sc_conn sc \<noteq> None \<and> sc_from_pool sc \<and> sc_shard sc = Some i"

definition borrowed :: "ClientSession \<Rightarrow> nat \<Rightarrow> nat" where
  "borrowed s i = (if backend_conn s \<noteq> None \<and> backend_shard s = Some i then 1 else 0) +
     length (filter (takes i) (scatter_conns s))"

text \<open>The pools agree with \<open>held\<close>: the pool of shard \<open>i\<close> counts \<open>held i\<close> connections as active.\<close>

definition pools_hold :: "'w proxy \<Rightarrow> (nat \<Rightarrow> nat) \<Rightarrow> bool" where
  "pools_hold px held \<longleftrightarrow> (\<forall>m. px_map px = Some m \<longrightarrow> map_ok m \<and>
     (\<forall>i < length (map_shards m). pool_inv (shard_pool (map_shards m ! i)) \<and>
        active_count (shard_pool (map_shards m ! i)) = int (held i)))"

definition nshards :: "'w proxy \<Rightarrow> nat" where
  "nshards px = (case px_map px of None \<Rightarrow> 0 | Some m \<Rightarrow> length (map_shards m))"

text \<open>The routing part of a map: all of it but the pools.\<close>

definition routing :: "'w proxy \<Rightarrow> ShardMap option" where
  "routing px = map_option (\<lambda>m. m\<lparr>map_shards := map (\<lambda>s. s\<lparr>shard_pool := conn_pool_zero\<rparr>) (map_shards m)\<rparr>) (px_map px)"

lemma map_ok_update [simp]:
  "map_ok (m\<lparr>map_shards := (map_shards m)[i := s]\<rparr>) = map_ok m"
proof -
  have "rule_ok (m\<lparr>map_shards := (map_shards m)[i := s]\<rparr>) = rule_ok m"
    by (intro ext) (simp add: rule_ok_def)
  then show ?thesis by (simp add: map_ok_def)
qed

lemma pool_acquire_facts:
  assumes "null_is_bad E" "pools_hold px held" "i < nshards px"
  obtains conn m' w where
    "pool_acquire E i px = Some (conn, px\<lparr>px_map := m', px_world := w\<rparr>)"
    "pools_hold (px\<lparr>px_map := m', px_world := w\<rparr>) (if conn = None then held else held(i := Suc (held i)))"
    "routing (px\<lparr>px_map := m', px_world := w\<rparr>) = routing px"
    "conn \<noteq> None \<Longrightarrow> PQstatus E conn w = CONNECTION_OK"
proof -
  from assms(3) obtain m where m: "px_map px = Some m" "i < length (map_shards m)"
    by (auto simp: nshards_def split: option.splits)
  let ?pool = "shard_pool (map_shards m ! i)"
  from assms(2) m have ok: "map_ok m" "pool_inv ?pool" "active_count ?pool = int (held i)"
    by (auto simp: pools_hold_def)
  from acquire_facts [OF assms(1) ok(2), of "px_world px"] obtain conn pool w where
    acq: "conn_pool_acquire E ?pool (px_world px) = Some (conn, pool, w)" "acquired E ?pool conn pool w" by blast
  let ?m = "m\<lparr>map_shards := (map_shards m)[i := (map_shards m ! i)\<lparr>shard_pool := pool\<rparr>]\<rparr>"
  show ?thesis
  proof (rule that [of conn w "Some ?m"])
    show "pool_acquire E i px = Some (conn, px\<lparr>px_map := Some ?m, px_world := w\<rparr>)"
      using m acq(1) by (simp add: pool_acquire_def)
    show "pools_hold (px\<lparr>px_map := Some ?m, px_world := w\<rparr>) (if conn = None then held else held(i := Suc (held i)))"
      using assms(2) m ok acq(2)
      by (auto simp: pools_hold_def nth_list_update acquired_def split: if_splits)
    show "routing (px\<lparr>px_map := Some ?m, px_world := w\<rparr>) = routing px"
      using m by (simp add: routing_def map_update list_update_same_conv)
    show "PQstatus E conn w = CONNECTION_OK" if "conn \<noteq> None"
      using that acq(2) by (simp add: acquired_def)
  qed
qed

lemma pool_release_facts:
  assumes "pools_hold px held" "i < nshards px" "0 < held i" "conn \<noteq> None"
  obtains m' w where
    "pool_release E i conn px = Some (px\<lparr>px_map := m', px_world := w\<rparr>)"
    "pools_hold (px\<lparr>px_map := m', px_world := w\<rparr>) (held(i := held i - 1))"
    "routing (px\<lparr>px_map := m', px_world := w\<rparr>) = routing px"
proof -
  from assms(2) obtain m where m: "px_map px = Some m" "i < length (map_shards m)"
    by (auto simp: nshards_def split: option.splits)
  let ?pool = "shard_pool (map_shards m ! i)"
  from assms(1) m have ok: "map_ok m" "pool_inv ?pool" "active_count ?pool = int (held i)"
    by (auto simp: pools_hold_def)
  with assms(3) have "0 < active_count ?pool" by simp
  from release_facts [OF ok(2) this assms(4), of E "px_world px"] obtain pool w where
    rel: "conn_pool_release E ?pool conn (px_world px) = Some (pool, w)" "pool_inv pool"
      "active_count pool = active_count ?pool - 1"
    by (auto split: if_splits)
  let ?m = "m\<lparr>map_shards := (map_shards m)[i := (map_shards m ! i)\<lparr>shard_pool := pool\<rparr>]\<rparr>"
  show ?thesis
  proof (rule that [of w "Some ?m"])
    show "pool_release E i conn px = Some (px\<lparr>px_map := Some ?m, px_world := w\<rparr>)"
      using m rel(1) by (simp add: pool_release_def)
    show "pools_hold (px\<lparr>px_map := Some ?m, px_world := w\<rparr>) (held(i := held i - 1))"
      using assms(1,3) m ok rel(2,3) by (auto simp: pools_hold_def nth_list_update)
    show "routing (px\<lparr>px_map := Some ?m, px_world := w\<rparr>) = routing px"
      using m by (simp add: routing_def map_update list_update_same_conv)
  qed
qed

text \<open>The invariant of the connections of a session, when the other sessions hold \<open>others i\<close>
  connections of shard \<open>i\<close>.\<close>

definition scatter_ok :: "nat \<Rightarrow> ScatterConn \<Rightarrow> bool" where
  "scatter_ok n sc \<longleftrightarrow> sc_conn sc \<noteq> None \<longrightarrow> sc_from_pool sc \<and> (\<exists>i < n. sc_shard sc = Some i)"

definition conns_ok :: "(nat \<Rightarrow> nat) \<Rightarrow> 'w proxy \<Rightarrow> bool" where
  "conns_ok others px \<longleftrightarrow>
     (let s = px_session px in
      pools_hold px (\<lambda>i. borrowed s i + others i) \<and>
      (\<forall>i. backend_shard s = Some i \<longrightarrow> i < nshards px) \<and>
      length (scatter_conns s) = MAX_SCATTER_SHARDS \<and> 0 \<le> scatter_count s \<and> scatter_count s \<le> 64 \<and>
      list_all (scatter_ok (nshards px)) (scatter_conns s) \<and>
      list_all (\<lambda>sc. sc_conn sc = None) (drop (nat (scatter_count s)) (scatter_conns s)))"

lemma pools_hold_map: "px_map px' = px_map px \<Longrightarrow> pools_hold px' held = pools_hold px held"
  by (simp add: pools_hold_def)

lemma nshards_map: "px_map px' = px_map px \<Longrightarrow> nshards px' = nshards px"
  by (simp add: nshards_def)

lemma nshards_of_routing: "nshards px = (case routing px of None \<Rightarrow> 0 | Some m \<Rightarrow> length (map_shards m))"
  by (simp add: nshards_def routing_def split: option.splits)

lemma nshards_routing: "routing px' = routing px \<Longrightarrow> nshards px' = nshards px"
  by (simp add: nshards_of_routing)

lemma routing_map: "px_map px' = px_map px \<Longrightarrow> routing px' = routing px"
  by (simp add: routing_def)

definition minus1 :: "nat option \<Rightarrow> (nat \<Rightarrow> nat) \<Rightarrow> nat \<Rightarrow> nat" where
  "minus1 shard held = (case shard of None \<Rightarrow> held | Some i \<Rightarrow> held(i := held i - 1))"

lemma give_back_facts:
  assumes "pools_hold px held" "conn \<noteq> None" "\<And>i. shard = Some i \<Longrightarrow> i < nshards px \<and> 0 < held i"
  obtains m' w where
    "give_back E shard conn px = Some (px\<lparr>px_map := m', px_world := w\<rparr>)"
    "pools_hold (px\<lparr>px_map := m', px_world := w\<rparr>) (minus1 shard held)"
    "routing (px\<lparr>px_map := m', px_world := w\<rparr>) = routing px"
proof (cases shard)
  case None
  with assms(1) that [of "PQfinish E conn (px_world px)" "px_map px"] show ?thesis
    by (simp add: give_back_def set_world_def minus1_def routing_def pools_hold_def)
next
  case (Some i)
  with assms(3) have "i < nshards px" "0 < held i" by auto
  from pool_release_facts [OF assms(1) this assms(2), of E] obtain m' w where
    "pool_release E i conn px = Some (px\<lparr>px_map := m', px_world := w\<rparr>)"
    "pools_hold (px\<lparr>px_map := m', px_world := w\<rparr>) (held(i := held i - 1))"
    "routing (px\<lparr>px_map := m', px_world := w\<rparr>) = routing px" .
  with Some that [of w m'] show ?thesis by (simp add: give_back_def minus1_def)
qed

lemma borrowed_no_backend:
  assumes "backend_conn s \<noteq> None"
  shows "minus1 (backend_shard s) (\<lambda>i. borrowed s i + others i) =
    (\<lambda>i. borrowed (s\<lparr>backend_conn := None\<rparr>) i + others i)"
  using assms by (auto simp: minus1_def borrowed_def fun_eq_iff split: option.splits)

lemma conns_ok_cong:
  assumes "px_map px' = px_map px" "backend_conn (px_session px') = backend_conn (px_session px)"
    "backend_shard (px_session px') = backend_shard (px_session px)"
    "scatter_conns (px_session px') = scatter_conns (px_session px)"
    "scatter_count (px_session px') = scatter_count (px_session px)"
  shows "conns_ok others px' = conns_ok others px"
  using assms by (simp add: conns_ok_def Let_def borrowed_def pools_hold_def nshards_def)

lemma conns_ok_out: "same_but_out px px' \<Longrightarrow> conns_ok others px' = conns_ok others px"
  by (rule conns_ok_cong) (simp_all add: same_but_outD)

lemma conns_okD:
  assumes "conns_ok others px"
  shows "pools_hold px (\<lambda>i. borrowed (px_session px) i + others i)"
    "backend_shard (px_session px) = Some i \<Longrightarrow> i < nshards px"
    "length (scatter_conns (px_session px)) = MAX_SCATTER_SHARDS"
    "0 \<le> scatter_count (px_session px)" "scatter_count (px_session px) \<le> 64"
    "list_all (scatter_ok (nshards px)) (scatter_conns (px_session px))"
    "list_all (\<lambda>sc. sc_conn sc = None) (drop (nat (scatter_count (px_session px))) (scatter_conns (px_session px)))"
  using assms by (simp_all add: conns_ok_def Let_def)

lemma end_backend_facts:
  assumes "conns_ok others px" "backend_conn (px_session px) \<noteq> None"
  obtains px' where "end_backend E px = Some px'" "px_session px' = (px_session px)\<lparr>backend_conn := None\<rparr>"
    "conns_ok others px'" "routing px' = routing px" "px_alive px' = px_alive px"
proof -
  let ?px = "del_handler E (backend_ev (px_session px)) px"
  let ?s = "px_session px" and ?held = "\<lambda>i. borrowed (px_session px) i + others i"
  have hold: "pools_hold ?px ?held" using conns_okD(1) [OF assms(1)] by (simp add: pools_hold_def)
  have n: "nshards ?px = nshards px" by (simp add: nshards_def)
  have "\<And>i. backend_shard ?s = Some i \<Longrightarrow> i < nshards ?px \<and> 0 < ?held i"
    using assms(2) conns_okD(2) [OF assms(1)] unfolding n by (auto simp: borrowed_def)
  from give_back_facts [OF hold assms(2) this] obtain m' w where
    r: "give_back E (backend_shard ?s) (backend_conn ?s) ?px = Some (?px\<lparr>px_map := m', px_world := w\<rparr>)"
      "pools_hold (?px\<lparr>px_map := m', px_world := w\<rparr>) (minus1 (backend_shard ?s) ?held)"
      "routing (?px\<lparr>px_map := m', px_world := w\<rparr>) = routing ?px" by blast
  define px' where "px' = set_session (\<lambda>s. s\<lparr>backend_conn := None\<rparr>) (?px\<lparr>px_map := m', px_world := w\<rparr>)"
  have s: "px_session px' = ?s\<lparr>backend_conn := None\<rparr>" by (simp add: px'_def)
  have rt: "routing px' = routing px" using r(3) by (simp add: px'_def routing_def)
  have "pools_hold px' (\<lambda>i. borrowed (px_session px') i + others i)"
    using r(2) unfolding s borrowed_no_backend [OF assms(2), of others] by (simp add: pools_hold_def px'_def)
  then have "conns_ok others px'"
    using conns_okD(2-7) [OF assms(1)] nshards_routing [OF rt] unfolding conns_ok_def s by (simp add: Let_def)
  moreover have "end_backend E px = Some px'" using r(1) by (simp add: end_backend_def px'_def)
  ultimately show ?thesis using s rt by (intro that [of px']) (simp_all add: px'_def)
qed

text \<open>Releasing the scatter connections clears the \<open>conn\<close> of the entries and changes nothing else of
  the session.\<close>

definition clear_conn :: "ScatterConn \<Rightarrow> ScatterConn" where
  "clear_conn sc = sc\<lparr>sc_conn := None\<rparr>"

lemma clear_conn_id: "sc_conn sc = None \<Longrightarrow> clear_conn sc = sc"
  by (simp add: clear_conn_def)

lemma takes_clear [simp]: "\<not> takes i (clear_conn sc)"
  by (simp add: takes_def clear_conn_def)

lemma borrowed_clear:
  assumes "j < length (scatter_conns s)" "sc = scatter_conns s ! j" "sc_conn sc \<noteq> None" "sc_from_pool sc"
    and "sc_shard sc = Some k"
  shows "minus1 (Some k) (\<lambda>i. borrowed s i + others i) =
    (\<lambda>i. borrowed (s\<lparr>scatter_conns := (scatter_conns s)[j := clear_conn sc]\<rparr>) i + others i)"
proof
  fix i
  have "takes i sc \<longleftrightarrow> i = k" using assms by (auto simp: takes_def)
  with length_filter_update [OF assms(1), of "takes i" "clear_conn sc"] assms(2)
  show "minus1 (Some k) (\<lambda>i. borrowed s i + others i) i =
      borrowed (s\<lparr>scatter_conns := (scatter_conns s)[j := clear_conn sc]\<rparr>) i + others i"
    by (auto simp: minus1_def borrowed_def)
qed

lemma list_all_update: "list_all P xs \<Longrightarrow> P y \<Longrightarrow> list_all P (xs[j := y])"
  by (auto simp: list_all_iff dest!: set_update_subset_insert [THEN subsetD])

lemma conns_ok_clear:
  assumes "conns_ok others px" "px_session px' = (px_session px)\<lparr>scatter_conns := (scatter_conns (px_session px))[j := clear_conn sc]\<rparr>"
    and "pools_hold px' (\<lambda>i. borrowed (px_session px') i + others i)" "routing px' = routing px"
  shows "conns_ok others px'"
proof -
  have n: "nshards px' = nshards px" by (rule nshards_routing [OF assms(4)])
  have cl: "sc_conn (clear_conn sc) = None" by (simp add: clear_conn_def)
  then have ok: "scatter_ok k (clear_conn sc)" for k by (simp add: scatter_ok_def)
  have "list_all (\<lambda>sc. sc_conn sc = None) (drop n xs) \<Longrightarrow>
      list_all (\<lambda>sc. sc_conn sc = None) (drop n (xs[j := clear_conn sc]))" for n xs
    using cl by (cases "j < n") (simp_all add: drop_update_swap list_all_update)
  moreover have "list_all (scatter_ok (nshards px)) (scatter_conns (px_session px)) \<Longrightarrow>
      list_all (scatter_ok (nshards px)) ((scatter_conns (px_session px))[j := clear_conn sc])"
    by (rule list_all_update) (simp_all add: ok)
  ultimately show ?thesis using assms n by (simp add: conns_ok_def Let_def)
qed

lemma release_one_facts:
  assumes "conns_ok others px" "j < MAX_SCATTER_SHARDS"
  obtains px' where "release_one E j px = Some px'" "conns_ok others px'" "routing px' = routing px"
    "px_alive px' = px_alive px"
    "px_session px' = (px_session px)\<lparr>scatter_conns := (scatter_conns (px_session px))[j :=
      clear_conn (scatter_conns (px_session px) ! j)]\<rparr>"
proof -
  let ?L = "scatter_conns (px_session px)"
  define sc where "sc = ?L ! j"
  have len: "j < length ?L" using assms by (simp add: conns_ok_def Let_def)
  show ?thesis
  proof (cases "sc_conn sc = None")
    case True
    then have "?L[j := clear_conn (?L ! j)] = ?L" by (simp add: clear_conn_id sc_def)
    with that [of px] assms(1) True len show ?thesis by (simp add: release_one_def sc_def)
  next
    case False
    with assms(1) len obtain k where k: "sc_from_pool sc" "sc_shard sc = Some k" "k < nshards px"
      by (auto simp: conns_ok_def Let_def list_all_length scatter_ok_def sc_def)
    let ?px = "del_handler E (sc_ev sc) px" and ?held = "\<lambda>i. borrowed (px_session px) i + others i"
    have "takes k sc" using False k by (simp add: takes_def)
    then have "0 < length (filter (takes k) ?L)"
      using len by (auto simp: sc_def length_greater_0_conv filter_empty_conv dest: nth_mem)
    then have "0 < ?held k" by (simp add: borrowed_def)
    with k(3) have pre: "\<And>i. Some k = Some i \<Longrightarrow> i < nshards ?px \<and> 0 < ?held i"
      by (simp add: nshards_def del_handler_def)
    have "pools_hold ?px ?held"
      using assms(1) by (simp add: conns_ok_def Let_def del_handler_def pools_hold_def)
    from give_back_facts [OF this False pre] obtain m' w where r: "give_back E (Some k) (sc_conn sc) ?px = Some (?px\<lparr>px_map := m', px_world := w\<rparr>)"
        "pools_hold (?px\<lparr>px_map := m', px_world := w\<rparr>) (minus1 (Some k) ?held)"
        "routing (?px\<lparr>px_map := m', px_world := w\<rparr>) = routing ?px" .
    define px' where "px' = set_session (\<lambda>s. s\<lparr>scatter_conns := (scatter_conns s)[j := clear_conn sc]\<rparr>)
      (?px\<lparr>px_map := m', px_world := w\<rparr>)"
    have s: "px_session px' = (px_session px)\<lparr>scatter_conns := ?L[j := clear_conn sc]\<rparr>"
      by (simp add: px'_def del_handler_def)
    have rt: "routing px' = routing px"
      using r(3) by (simp add: px'_def routing_def del_handler_def)
    have "pools_hold px' (\<lambda>i. borrowed (px_session px') i + others i)"
      using r(2) borrowed_clear [OF len sc_def False k(1,2), of others]
      by (simp add: s pools_hold_def px'_def)
    from conns_ok_clear [OF assms(1) s this rt] have "conns_ok others px'" .
    moreover have "release_one E j px = Some px'"
      using False len k r(1) by (simp add: release_one_def sc_def px'_def clear_conn_def Let_def)
    ultimately show ?thesis using that [of px'] s rt by (simp add: sc_def px'_def del_handler_def)
  qed
qed

lemma release_loop_facts:
  assumes "conns_ok others px" "i + n \<le> MAX_SCATTER_SHARDS"
  shows "\<exists>px'. release_loop E i n px = Some px' \<and> conns_ok others px' \<and> routing px' = routing px \<and>
    px_alive px' = px_alive px \<and>
    px_session px' = (px_session px)\<lparr>scatter_conns := take i (scatter_conns (px_session px)) @
      map clear_conn (take n (drop i (scatter_conns (px_session px)))) @ drop (i + n) (scatter_conns (px_session px))\<rparr>"
  using assms
proof (induction n arbitrary: i px)
  case 0
  then show ?case by simp
next
  case (Suc n)
  let ?L = "scatter_conns (px_session px)"
  have i: "i < MAX_SCATTER_SHARDS" "Suc i + n \<le> MAX_SCATTER_SHARDS" using Suc.prems(2) by simp_all
  from release_one_facts [OF Suc.prems(1) i(1), of E] obtain px1 where
    px1: "release_one E i px = Some px1" "conns_ok others px1" "routing px1 = routing px"
      "px_alive px1 = px_alive px" "px_session px1 = (px_session px)\<lparr>scatter_conns := ?L[i := clear_conn (?L ! i)]\<rparr>" .
  from Suc.IH [OF px1(2) i(2)] obtain px2 where
    px2: "release_loop E (Suc i) n px1 = Some px2" "conns_ok others px2" "routing px2 = routing px1"
      "px_alive px2 = px_alive px1"
      "px_session px2 = (px_session px1)\<lparr>scatter_conns := take (Suc i) (scatter_conns (px_session px1)) @
        map clear_conn (take n (drop (Suc i) (scatter_conns (px_session px1)))) @
        drop (Suc i + n) (scatter_conns (px_session px1))\<rparr>" by blast
  have len: "i < length ?L" using Suc.prems(1) i(1) by (simp add: conns_ok_def Let_def)
  then have "take (Suc n) (drop i ?L) = ?L ! i # take n (drop (Suc i) ?L)"
    by (simp add: Cons_nth_drop_Suc [symmetric])
  with px1 px2 len show ?case by (simp add: take_Suc_conv_app_nth)
qed

lemma release_scatter_facts:
  assumes "conns_ok others px"
  obtains px' where "session_release_scatter E px = Some px'" "conns_ok others px'" "routing px' = routing px"
    "px_alive px' = px_alive px"
    "px_session px' = (px_session px)\<lparr>scatter_conns := map clear_conn (scatter_conns (px_session px)),
       scatter_count := 0, scatter_done := 0, scatter_header_sent := False\<rparr>"
proof -
  let ?L = "scatter_conns (px_session px)" and ?n = "nat (scatter_count (px_session px))"
  have n: "0 + ?n \<le> MAX_SCATTER_SHARDS" and tl: "list_all (\<lambda>sc. sc_conn sc = None) (drop ?n ?L)"
    using assms by (auto simp: conns_ok_def Let_def MAX_SCATTER_SHARDS_def)
  from release_loop_facts [OF assms n, of E] obtain px1 where
    px1: "release_loop E 0 ?n px = Some px1" "conns_ok others px1" "routing px1 = routing px"
      "px_alive px1 = px_alive px"
      "px_session px1 = (px_session px)\<lparr>scatter_conns := map clear_conn (take ?n ?L) @ drop ?n ?L\<rparr>" by auto
  have "drop ?n ?L = map clear_conn (drop ?n ?L)"
    using tl by (intro map_idI [symmetric]) (auto simp: list_all_iff clear_conn_id)
  then have L: "map clear_conn (take ?n ?L) @ drop ?n ?L = map clear_conn ?L"
    by (metis append_take_drop_id map_append)
  let ?f = "\<lambda>s. s\<lparr>scatter_count := 0, scatter_done := 0, scatter_header_sent := False\<rparr>"
  have r: "session_release_scatter E px = Some (set_session ?f px1)"
    using px1(1) by (simp add: session_release_scatter_def)
  have "borrowed (?f s) = borrowed s" for s by (simp add: borrowed_def fun_eq_iff)
  then have "conns_ok others (set_session ?f px1)"
    using px1(2,5) by (simp add: conns_ok_def Let_def pools_hold_def nshards_def L list_all_iff clear_conn_def)
  with r px1 show ?thesis by (intro that [of "set_session ?f px1"]) (simp_all add: routing_def L)
qed

lemma end_backend_opt:
  assumes "conns_ok others px"
  obtains px' where "(if backend_conn (px_session px) \<noteq> None then end_backend E px else Some px) = Some px'"
    "px_session px' = (px_session px)\<lparr>backend_conn := None\<rparr>"
    "conns_ok others px'" "routing px' = routing px" "px_alive px' = px_alive px"
proof (cases "backend_conn (px_session px) = None")
  case True
  with assms show ?thesis by (intro that [of px]) simp_all
next
  case False
  from end_backend_facts [OF assms False] obtain px' where
    "end_backend E px = Some px'" "px_session px' = (px_session px)\<lparr>backend_conn := None\<rparr>"
    "conns_ok others px'" "routing px' = routing px" "px_alive px' = px_alive px" .
  with False show ?thesis by (intro that [of px']) simp_all
qed

lemma borrowed_none:
  assumes "backend_conn s = None" "list_all (\<lambda>sc. sc_conn sc = None) (scatter_conns s)"
  shows "borrowed s i = 0"
  using assms by (auto simp: borrowed_def takes_def list_all_iff filter_empty_conv)

lemma destroy_facts:
  assumes "conns_ok others px"
  obtains px' where "session_destroy E px = Some px'" "pools_hold px' others" "routing px' = routing px"
    "\<not> px_alive px'"
proof -
  define px0 where "px0 = set_world (sys_close E (client_fd (px_session px))) (del_handler E (ev_handler (px_session px)) px)"
  have s0: "px_session px0 = px_session px" "px_map px0 = px_map px" by (simp_all add: px0_def)
  have "conns_ok others px0" using assms by (subst conns_ok_cong [of _ px]) (simp_all add: s0)
  from end_backend_opt [OF this] obtain px1 where
    px1: "(if backend_conn (px_session px0) \<noteq> None then end_backend E px0 else Some px0) = Some px1"
      "px_session px1 = (px_session px0)\<lparr>backend_conn := None\<rparr>" "conns_ok others px1" "routing px1 = routing px0" .
  from release_scatter_facts [OF px1(3)] obtain px2 where
    px2: "session_release_scatter E px1 = Some px2" "conns_ok others px2" "routing px2 = routing px1"
      "px_session px2 = (px_session px1)\<lparr>scatter_conns := map clear_conn (scatter_conns (px_session px1)),
         scatter_count := 0, scatter_done := 0, scatter_header_sent := False\<rparr>" .
  have "borrowed (px_session px2) i = 0" for i
    using px1(2) px2(4) by (intro borrowed_none) (simp_all add: list_all_iff clear_conn_def)
  with conns_okD(1) [OF px2(2)] have hold: "pools_hold px2 others" by simp
  define px3 where "px3 = set_session (\<lambda>s. s\<lparr>recv_buf := recvbuf_free (recv_buf s), send_buf := msgbuf_free (send_buf s),
       sess_user := None, sess_database := None\<rparr>) px2\<lparr>px_alive := False\<rparr>"
  have "session_destroy E px = Some px3"
    using px1(1) px2(1) by (simp add: session_destroy_def px3_def px0_def [symmetric] s0 split: if_splits)
  moreover have "pools_hold px3 others" using hold by (simp add: px3_def pools_hold_def)
  moreover have "routing px3 = routing px"
    using px2(3) px1(4) by (simp add: px3_def routing_def s0)
  ultimately show ?thesis by (intro that [of px3]) (simp_all add: px3_def)
qed

section \<open>Properties\<close>

text \<open>C14: Flushing keeps the byte stream: \<open>session_send\<close> always returns, and what has been handed to
  the connection followed by what is still to be sent is the same before and after, so that no
  byte is lost, repeated or reordered by partial writes. If everything went out the session listens
  for input again; if the socket is full it waits to be writable with the rest kept; otherwise
  \<open>-1\<close> is returned.\<close>

theorem session_send_stream:
  assumes "stream_socket E sent" "out_ok px"
  shows "\<exists>px' rc. session_send E px = Some (px', rc) \<and> flushed sent px px' rc"
  using assms by (rule session_send_flushes)

definition demo_proxy :: "ShardMap option \<Rightarrow> lab \<Rightarrow> lab proxy" where
  "demo_proxy m w = \<lparr>px_session = fresh_session 4096 77 5 (Some ''host=db'') event_handler_zero,
     px_map = m, px_world = w, px_alive = True\<rparr>"

lemma lab_stream: "stream_socket lab_ext (\<lambda>fd. lab_sent)"
  by (auto simp: stream_socket_def lab_ext_def)

theorem session_send_stream_witness:
  "\<exists>px' rc. session_send lab_ext (set_out \<lparr>mb_data = ''hello'', mb_len = 5, mb_cap = 8, mb_pos = 0\<rparr>
       (demo_proxy None lab_zero)) = Some (px', rc) \<and>
     lab_sent (px_world px') @ unsent px' = ''hello''"
proof -
  let ?px = "set_out \<lparr>mb_data = ''hello'', mb_len = 5, mb_cap = 8, mb_pos = 0\<rparr> (demo_proxy None lab_zero)"
  have ok: "out_ok ?px" by (simp add: out_ok_def buf_ok_def demo_proxy_def fresh_session_def)
  have "lab_sent (px_world ?px) @ unsent ?px = ''hello''"
    by (simp add: demo_proxy_def lab_zero_def unsent_def queued_def contents_def fresh_session_def)
  with session_send_stream [OF lab_stream ok] show ?thesis
    by (auto simp: flushed_def Let_def)
qed

text \<open>C15: Destroying a session returns, whatever the session was doing, and leaves the pools counting
  exactly the connections the other sessions hold: every connection the session had taken is back
  or closed, and counted down once. The routing part of the map is untouched.\<close>

theorem destroy_returns_connections:
  assumes "conns_ok others px"
  shows "\<exists>px'. session_destroy E px = Some px' \<and> pools_hold px' others \<and> routing px' = routing px \<and> \<not> px_alive px'"
  using destroy_facts [OF assms] by metis

definition demo_one_shard :: ShardMap where
  "demo_one_shard = (demo_map SHARD_HASH)\<lparr>map_shards := [(demo_shard ''s0'' 0 9)\<lparr>shard_pool := demo_pool\<rparr>],
     map_shard_count := 1, table_rules := [], rule_count := 0\<rparr>"

definition demo_busy :: "lab proxy" where
  "demo_busy = set_session (\<lambda>s. s\<lparr>backend_conn := Some 4, backend_shard := Some 0\<rparr>)
     (demo_proxy (Some demo_one_shard) demo_world)"

lemma demo_busy_ok: "conns_ok (\<lambda>i. 0) demo_busy"
  by (simp add: conns_ok_def demo_busy_def demo_proxy_def fresh_session_def pools_hold_def borrowed_def
      demo_one_shard_def map_ok_def nshards_def list_all_iff scatter_ok_def scatter_conn_zero_def takes_def
      demo_pool_inv) (simp add: demo_pool_def)

theorem destroy_returns_connections_witness:
  "\<exists>px'. session_destroy lab_ext demo_busy = Some px' \<and> pools_hold px' (\<lambda>i. 0)"
  using destroy_returns_connections [OF demo_busy_ok, of lab_ext] by blast

text \<open>C17: A result is forwarded as one RowDescription, when it is asked for and there are columns, and
  then one DataRow for each row in order, each a single well-formed frame whose values are
  length-prefixed and whose nulls have the length \<open>-1\<close>; the client cuts the bytes back into exactly
  these messages. Nothing else of the session changes, and the number of rows is returned.\<close>

theorem forward_result_frames:
  assumes "buf_ok (send_buf (px_session px))"
    and "list_all (\<lambda>m. fits (snd m)) (result_messages res hdr)"
  shows "\<exists>b new. session_forward_result res hdr px = Some (set_out b px, PQntuples res) \<and>
    contents b = queued px @ new \<and> parse_frames new = Some (result_messages res hdr)"
proof -
  obtain b where "session_forward_result res hdr px = Some (set_out b px, PQntuples res)"
    "contents b = queued px @ result_bytes res hdr" using assms(1) by (rule forward_result_ok)
  with parse_frames_concat [OF assms(2), of "[]"] show ?thesis by (auto simp: result_bytes_def)
qed

definition demo_result :: PGresult where
  "demo_result = \<lparr>PQresultStatus = PGRES_TUPLES_OK,
     pg_fields = [\<lparr>PQfname = ''id'', PQftype = 23, PQfsize = 4, PQfmod = - 1\<rparr>],
     pg_rows = [[Some ''42''], [None]], PQcmdStatus = ''SELECT 2'', diag_severity = None, diag_sqlstate = None,
     diag_primary = None, diag_detail = None\<rparr>"

theorem forward_result_frames_witness:
  "\<exists>b new. session_forward_result demo_result True (demo_proxy None lab_zero) =
       Some (set_out b (demo_proxy None lab_zero), 2) \<and>
     contents b = new \<and>
     map_option (map fst) (parse_frames new) = Some [MSG_ROW_DESCRIPTION, MSG_DATA_ROW, MSG_DATA_ROW]"
proof -
  have msgs: "result_messages demo_result True =
      [(MSG_ROW_DESCRIPTION, header_payload demo_result), (MSG_DATA_ROW, row_payload demo_result 0),
       (MSG_DATA_ROW, row_payload demo_result 1)]"
    by (simp add: result_messages_def demo_result_def PQnfields_def PQntuples_def upt_rec)
  have "list_all (\<lambda>m. fits (snd m)) (result_messages demo_result True)"
    unfolding msgs
    by (simp add: fits_def header_payload_def row_payload_def demo_result_def PQnfields_def field_bytes_def
        value_bytes_def pg_value_def)
  moreover have "buf_ok (send_buf (px_session (demo_proxy None lab_zero)))"
    "queued (demo_proxy None lab_zero) = []" "PQntuples demo_result = 2"
    by (simp_all add: demo_proxy_def fresh_session_def SEND_BUF_INITIAL_def queued_def PQntuples_def demo_result_def)
  ultimately show ?thesis
    using forward_result_frames [of "demo_proxy None lab_zero" demo_result True] msgs by auto
qed

end
