(* ===== verification/Copy_Handler.thy ===== *)
theory Copy_Handler
  imports Session_State
begin

text \<open>
  \<open>src/executor/copy_handler.c\<close>: the messages of a COPY from the client. The payload is passed as a
  pointer and a length; the pointer is the list of the initialised bytes from it on, since the text
  of a CopyFail is read up to its terminator and not up to the length.
\<close>

definition copy_forward_response :: "byte list \<Rightarrow> 'w proxy \<Rightarrow> 'w proxy option" where
  "copy_forward_response raw_msg px = session_queue_send raw_msg px"

text \<open>\<open>(int) payload_len\<close>.\<close>

definition int_of_len :: "nat \<Rightarrow> int" where
  "int_of_len n = sint (word_of_nat n :: 32 word)"

definition copy_handle_client_message ::
    "'w ext \<Rightarrow> byte \<Rightarrow> byte list \<Rightarrow> nat \<Rightarrow> 'w proxy \<Rightarrow> ('w proxy \<times> int) option" where
  "copy_handle_client_message E msg_type payload payload_len px =
     (let conn = backend_conn (px_session px) in
      if conn = None then Some (px, - 1)
      else if msg_type = MSG_COPY_DATA then do {
        let n = int_of_len payload_len;
        d \<leftarrow> mem_read 0 (nat n) payload;
        let (rc, w) = PQputCopyData E conn d n (px_world px);
        Some (px\<lparr>px_world := w\<rparr>, if rc < 0 then - 1 else 0)
      }
      else if msg_type = MSG_COPY_DONE then
        let (rc, w) = PQputCopyEnd E conn None (px_world px) in
        Some (if rc < 0 then (px\<lparr>px_world := w\<rparr>, - 1) else (px\<lparr>px_world := PQflush E conn w\<rparr>, 1))
      else if msg_type = MSG_COPY_FAIL then do {
        errmsg \<leftarrow> (if 0 < payload_len then c_str payload else Some ''client cancel'');
        let (rc, w) = PQputCopyEnd E conn (Some errmsg) (px_world px);
        Some (if rc < 0 then (px\<lparr>px_world := w\<rparr>, - 1) else (px\<lparr>px_world := PQflush E conn w\<rparr>, 1))
      }
      else Some (px, - 1))"

text \<open>The handler changes the world and nothing of the session or the map.\<close>

lemma copy_message_frame:
  assumes "copy_handle_client_message E ty payload n px = Some (px', rc)"
  shows "px_session px' = px_session px" "px_map px' = px_map px" "px_alive px' = px_alive px"
    "rc \<in> {- 1, 0, 1}"
  using assms
  by (auto simp: copy_handle_client_message_def Let_def bind_eq_Some_conv case_prod_beta split: if_splits)

end
