(* ===== verification/Query_Parser.thy ===== *)
theory Query_Parser
  imports Json_Tree
begin

text \<open>
  \<open>src/parser/query_parser.c\<close>: the statement type, the target table and the shard key of a SQL
  statement, taken from the text of its parse tree. The SQL parser itself (\<open>pg_query_parse\<close> of
  libpg_query) is an argument \<open>pg\<close>: it gives an error or the text of the parse tree.
  The second half of the theory states each extraction on parse trees (\<open>spec_\<close> functions) and
  shows that the code computes it on the text.
\<close>

section \<open>Data\<close>

datatype StmtType =
    STMT_SELECT | STMT_INSERT | STMT_UPDATE | STMT_DELETE | STMT_DDL | STMT_TRANSACTION
  | STMT_SET | STMT_SHOW | STMT_DISCARD | STMT_COPY | STMT_UNKNOWN

record ParseResult =
  stmt_type :: StmtType
  table_name :: "cstring option"
  schema_name :: "cstring option"
  shard_key_found :: bool
  shard_key_column :: "cstring option"
  shard_key_int :: int
  shard_key_str :: "cstring option"
  shard_key_is_int :: bool
  parse_tree_json :: "cstring option"

record PgQueryError =
  message :: cstring
  cursorpos :: int

text \<open>\<open>memset(result, 0, sizeof(ParseResult))\<close>: the first enumerator, NULL, false and 0.\<close>

definition parse_result_zero :: ParseResult where
  "parse_result_zero = \<lparr>
     stmt_type = STMT_SELECT, table_name = None, schema_name = None, shard_key_found = False,
     shard_key_column = None, shard_key_int = 0, shard_key_str = None, shard_key_is_int = False,
     parse_tree_json = None\<rparr>"

definition parse_result_free :: "ParseResult \<Rightarrow> ParseResult" where
  "parse_result_free result = parse_result_zero"

section \<open>The code\<close>

text \<open>\<open>x = call(...); if (!x) return d;\<close>\<close>

definition or_return :: "'a option option \<Rightarrow> 'b \<Rightarrow> ('a \<Rightarrow> 'b option) \<Rightarrow> 'b option" where
  "or_return call d k = do { x \<leftarrow> call; (case x of None \<Rightarrow> Some d | Some y \<Rightarrow> k y) }"

definition is_ddl_key :: "cstring option \<Rightarrow> bool" where
  "is_ddl_key stmt_json \<longleftrightarrow>
     json_starts_with_key stmt_json ''CreateStmt'' \<or>
     json_starts_with_key stmt_json ''AlterTableStmt'' \<or>
     json_starts_with_key stmt_json ''DropStmt'' \<or>
     json_starts_with_key stmt_json ''IndexStmt'' \<or>
     json_starts_with_key stmt_json ''CreateSchemaStmt'' \<or>
     json_starts_with_key stmt_json ''ViewStmt'' \<or>
     json_starts_with_key stmt_json ''CreateFunctionStmt'' \<or>
     json_starts_with_key stmt_json ''TruncateStmt'' \<or>
     json_starts_with_key stmt_json ''RenameStmt'' \<or>
     json_starts_with_key stmt_json ''CreateSeqStmt'' \<or>
     json_starts_with_key stmt_json ''AlterSeqStmt''"

definition detect_stmt_type :: "cstring option \<Rightarrow> StmtType" where
  "detect_stmt_type stmt_json =
     (if json_starts_with_key stmt_json ''SelectStmt'' then STMT_SELECT
      else if json_starts_with_key stmt_json ''InsertStmt'' then STMT_INSERT
      else if json_starts_with_key stmt_json ''UpdateStmt'' then STMT_UPDATE
      else if json_starts_with_key stmt_json ''DeleteStmt'' then STMT_DELETE
      else if json_starts_with_key stmt_json ''TransactionStmt'' then STMT_TRANSACTION
      else if json_starts_with_key stmt_json ''VariableSetStmt'' then STMT_SET
      else if json_starts_with_key stmt_json ''VariableShowStmt'' then STMT_SHOW
      else if json_starts_with_key stmt_json ''DiscardStmt'' then STMT_DISCARD
      else if json_starts_with_key stmt_json ''CopyStmt'' then STMT_COPY
      else if is_ddl_key stmt_json then STMT_DDL
      else STMT_UNKNOWN)"

definition extract_table_from_rangevar :: "cstring \<Rightarrow> ParseResult \<Rightarrow> ParseResult option" where
  "extract_table_from_rangevar rv_json result = do {
     relname \<leftarrow> json_find_key (Some rv_json) ''relname'';
     result \<leftarrow> (case relname of
         None \<Rightarrow> Some result
       | Some p \<Rightarrow> do { s \<leftarrow> json_get_string (Some p); Some (result\<lparr>table_name := s\<rparr>) });
     schemaname \<leftarrow> json_find_key (Some rv_json) ''schemaname'';
     (case schemaname of
         None \<Rightarrow> Some result
       | Some p \<Rightarrow> do { s \<leftarrow> json_get_string (Some p); Some (result\<lparr>schema_name := s\<rparr>) })
   }"

text \<open>The constant of an equality (or of a VALUES item): an integer or a string.\<close>

definition extract_const :: "cstring \<Rightarrow> (ParseResult \<Rightarrow> ParseResult) \<Rightarrow> ParseResult \<Rightarrow> ParseResult option" where
  "extract_const aconst set_column result = do {
     ival_obj \<leftarrow> json_find_key (Some aconst) ''ival'';
     ival \<leftarrow> (case ival_obj of None \<Rightarrow> Some None | Some o1 \<Rightarrow> json_find_key (Some o1) ''ival'');
     (case ival of
        Some i \<Rightarrow> Some (set_column (result\<lparr>shard_key_int := json_get_int (Some i),
            shard_key_is_int := True, shard_key_found := True\<rparr>))
      | None \<Rightarrow>
          or_return (json_find_key (Some aconst) ''sval'') result (\<lambda>sval_obj.
          or_return (json_find_key (Some sval_obj) ''sval'') result (\<lambda>sv. do {
            s \<leftarrow> json_get_string (Some sv);
            Some (set_column (result\<lparr>shard_key_str := s,
              shard_key_is_int := False, shard_key_found := True\<rparr>))
          })))
   }"

text \<open>\<open>extract_shard_key_from_where\<close> from the point where an \<open>A_Expr\<close> is found.\<close>

definition extract_a_expr :: "cstring \<Rightarrow> ParseResult \<Rightarrow> ParseResult option" where
  "extract_a_expr aexpr result =
     or_return (json_find_key (Some aexpr) ''name'') result (\<lambda>name_arr.
     or_return (json_find_key_recursive (Some name_arr) ''sval'') result (\<lambda>sval. do {
       op \<leftarrow> json_get_string (Some sval);
       if op \<noteq> Some ''='' then Some result
       else
         or_return (json_find_key (Some aexpr) ''lexpr'') result (\<lambda>lexpr.
         or_return (json_find_key (Some lexpr) ''ColumnRef'') result (\<lambda>colref.
         or_return (json_find_key (Some colref) ''fields'') result (\<lambda>fields. do {
           str_node \<leftarrow> json_find_key_recursive (Some fields) ''String'';
           result \<leftarrow> (case str_node of
               None \<Rightarrow> Some result
             | Some n \<Rightarrow>
                 or_return (json_find_key (Some n) ''sval'') result (\<lambda>sv. do {
                   s \<leftarrow> json_get_string (Some sv);
                   Some (result\<lparr>shard_key_column := s\<rparr>)
                 }));
           if shard_key_column result = None then Some result
           else
             or_return (json_find_key (Some aexpr) ''rexpr'') result (\<lambda>rexpr.
             or_return (json_find_key (Some rexpr) ''A_Const'') result (\<lambda>aconst.
             extract_const aconst id result))
         })))
     }))"

text \<open>The recursion of \<open>extract_shard_key_from_where\<close> through the arguments of a \<open>BoolExpr\<close>.\<close>

datatype where_place = At_Where | In_Args

partial_function (option)
  where_rec :: "where_place \<Rightarrow> cstring \<Rightarrow> ParseResult \<Rightarrow> ParseResult option" where
  "where_rec pl p result =
     (case pl of
        At_Where \<Rightarrow> do {
          aexpr \<leftarrow> json_find_key (Some p) ''A_Expr'';
          (case aexpr of
             Some ae \<Rightarrow> extract_a_expr ae result
           | None \<Rightarrow> do {
               boolexpr \<leftarrow> json_find_key (Some p) ''BoolExpr'';
               (case boolexpr of
                  None \<Rightarrow> Some result
                | Some be \<Rightarrow> do {
                    args \<leftarrow> json_find_key (Some be) ''args'';
                    (case args of
                       None \<Rightarrow> Some result
                     | Some a \<Rightarrow>
                         if a \<noteq> [] \<and> hd a = CHR ''['' then where_rec In_Args (tl a) result
                         else Some result)
                  })
             })
        }
      | In_Args \<Rightarrow>
          (if p = [] \<or> hd p = CHR '']'' then Some result
           else
             let q = json_skip_whitespace p in
             if q \<noteq> [] \<and> hd q = CHR '']'' then Some result
             else do {
               result \<leftarrow> where_rec At_Where q result;
               if shard_key_found result then Some result
               else do {
                 r \<leftarrow> json_skip_value q;
                 where_rec In_Args (skip_char (CHR '','') (json_skip_whitespace r)) result
               }
             }))"

definition extract_shard_key_from_where :: "cstring option \<Rightarrow> ParseResult \<Rightarrow> ParseResult option" where
  "extract_shard_key_from_where where_json result =
     (case where_json of None \<Rightarrow> Some result | Some p \<Rightarrow> where_rec At_Where p result)"

text \<open>INSERT: the position of the shard column among the column names, then the constant at this
  position of the first VALUES list.\<close>

fun name_position :: "cstring list \<Rightarrow> cstring \<Rightarrow> nat \<Rightarrow> nat option option" where
  "name_position [] shard_column pos = Some None"
| "name_position (n # names) shard_column pos = do {
     name \<leftarrow> json_get_string (Some n);
     if name = Some shard_column then Some (Some pos)
     else name_position names shard_column (pos + 1)
   }"

fun skip_items :: "nat \<Rightarrow> cstring \<Rightarrow> cstring option" where
  "skip_items 0 p = Some p"
| "skip_items (Suc n) p =
     (if p = [] \<or> hd p = CHR '']'' then Some p
      else do {
        r \<leftarrow> json_skip_value (json_skip_whitespace p);
        skip_items n (skip_char (CHR '','') (json_skip_whitespace r))
      })"

definition extract_value :: "cstring \<Rightarrow> nat \<Rightarrow> cstring \<Rightarrow> ParseResult \<Rightarrow> ParseResult option" where
  "extract_value first_list target_pos column result =
     (if first_list = [] \<or> hd first_list \<noteq> CHR ''['' then Some result
      else do {
        p \<leftarrow> skip_items target_pos (tl first_list);
        let p = json_skip_whitespace p;
        if p \<noteq> [] \<and> hd p = CHR '']'' then Some result
        else
          or_return (json_find_key_recursive (Some p) ''A_Const'') result (\<lambda>aconst.
          extract_const aconst (\<lambda>r. r\<lparr>shard_key_column := Some column\<rparr>) result)
      })"

definition extract_shard_key_from_insert ::
    "cstring \<Rightarrow> ParseResult \<Rightarrow> cstring option \<Rightarrow> ParseResult option" where
  "extract_shard_key_from_insert insert_json result shard_column =
     (case shard_column of
        None \<Rightarrow> Some result
      | Some column \<Rightarrow>
          or_return (json_find_key (Some insert_json) ''cols'') result (\<lambda>cols.
          if cols = [] \<or> hd cols \<noteq> CHR ''['' then Some result
          else do {
            names \<leftarrow> json_find_all_values (Some cols) ''name'';
            or_return (name_position names column 0) result (\<lambda>target_pos.
            or_return (json_find_key (Some insert_json) ''selectStmt'') result (\<lambda>select_stmt.
            or_return (json_find_key (Some select_stmt) ''SelectStmt'') result (\<lambda>ss.
            or_return (json_find_key (Some ss) ''valuesLists'') result (\<lambda>values_lists.
            or_return (json_find_key_recursive (Some values_lists) ''items'') result (\<lambda>first_list.
            extract_value first_list target_pos column result)))))
          }))"

text \<open>\<open>parse_query\<close>: the second component is the returned status.\<close>

definition select_info :: "cstring \<Rightarrow> ParseResult \<Rightarrow> ParseResult option" where
  "select_info stmt_obj result =
     or_return (json_find_key (Some stmt_obj) ''SelectStmt'') result (\<lambda>ss. do {
       from \<leftarrow> json_find_key (Some ss) ''fromClause'';
       result \<leftarrow> (case from of
           None \<Rightarrow> Some result
         | Some f \<Rightarrow> do {
             rv \<leftarrow> json_find_key_recursive (Some f) ''RangeVar'';
             (case rv of
                Some r \<Rightarrow> extract_table_from_rangevar r result
              | None \<Rightarrow>
                  or_return (json_find_key_recursive (Some f) ''relname'') result (\<lambda>n. do {
                    s \<leftarrow> json_get_string (Some n);
                    Some (result\<lparr>table_name := s\<rparr>)
                  }))
           });
       where_json \<leftarrow> json_find_key (Some ss) ''whereClause'';
       extract_shard_key_from_where where_json result
     })"

text \<open>UPDATE and DELETE: \<open>relation\<close>, then \<open>whereClause\<close>. INSERT has the relation only.\<close>

definition relation_info :: "cstring \<Rightarrow> cstring \<Rightarrow> bool \<Rightarrow> ParseResult \<Rightarrow> ParseResult option" where
  "relation_info stmt_key stmt_obj with_where result =
     or_return (json_find_key (Some stmt_obj) stmt_key) result (\<lambda>st. do {
       rel \<leftarrow> json_find_key (Some st) ''relation'';
       result \<leftarrow> (case rel of None \<Rightarrow> Some result | Some r \<Rightarrow> extract_table_from_rangevar r result);
       if with_where then do {
         where_json \<leftarrow> json_find_key (Some st) ''whereClause'';
         extract_shard_key_from_where where_json result
       }
       else Some result
     })"

definition ddl_info :: "cstring \<Rightarrow> ParseResult \<Rightarrow> ParseResult option" where
  "ddl_info stmt_obj result =
     or_return (json_find_key_recursive (Some stmt_obj) ''relname'') result (\<lambda>n. do {
       s \<leftarrow> json_get_string (Some n);
       Some (result\<lparr>table_name := s\<rparr>)
     })"

definition stmt_info :: "cstring \<Rightarrow> ParseResult \<Rightarrow> ParseResult option" where
  "stmt_info stmt_obj result =
     (case stmt_type result of
        STMT_SELECT \<Rightarrow> select_info stmt_obj result
      | STMT_INSERT \<Rightarrow> relation_info ''InsertStmt'' stmt_obj False result
      | STMT_UPDATE \<Rightarrow> relation_info ''UpdateStmt'' stmt_obj True result
      | STMT_DELETE \<Rightarrow> relation_info ''DeleteStmt'' stmt_obj True result
      | STMT_DDL \<Rightarrow> ddl_info stmt_obj result
      | _ \<Rightarrow> Some result)"

definition first_stmt :: "cstring \<Rightarrow> ParseResult \<Rightarrow> (ParseResult \<times> int) option" where
  "first_stmt stmts result =
     (if stmts = [] \<or> hd stmts \<noteq> CHR ''['' then Some (result, - 1)
      else
        let first_stmt_wrapper = json_skip_whitespace (tl stmts) in
        if first_stmt_wrapper \<noteq> [] \<and> hd first_stmt_wrapper = CHR '']'' then Some (result, 0)
        else
          or_return (json_find_key (Some first_stmt_wrapper) ''stmt'') (result, - 1) (\<lambda>stmt_obj. do {
            r \<leftarrow> stmt_info stmt_obj (result\<lparr>stmt_type := detect_stmt_type (Some stmt_obj)\<rparr>);
            Some (r, 0)
          }))"

definition parse_query ::
    "(cstring \<Rightarrow> PgQueryError + cstring) \<Rightarrow> cstring \<Rightarrow> (ParseResult \<times> int) option" where
  "parse_query pg sql =
     (let result = parse_result_zero\<lparr>stmt_type := STMT_UNKNOWN\<rparr> in
      case pg sql of
        Inl err \<Rightarrow> Some (result, - 1)
      | Inr parse_tree \<Rightarrow>
          (let result = result\<lparr>parse_tree_json := Some parse_tree\<rparr> in
           or_return (json_find_key (Some parse_tree) ''stmts'') (result, - 1)
             (\<lambda>stmts. first_stmt stmts result)))"

text \<open>The second pass for INSERT. \<open>stmts + 1\<close> is read without a check that \<open>stmts\<close> is not at the
  end of the text.\<close>

definition parse_extract_insert_shard_key :: "ParseResult \<Rightarrow> cstring option \<Rightarrow> ParseResult option" where
  "parse_extract_insert_shard_key result shard_column =
     (if stmt_type result \<noteq> STMT_INSERT \<or> parse_tree_json result = None \<or> shard_column = None
      then Some result
      else
        or_return (json_find_key (parse_tree_json result) ''stmts'') result (\<lambda>stmts.
        if stmts = [] then None
        else
          or_return (json_find_key (Some (json_skip_whitespace (tl stmts))) ''stmt'') result (\<lambda>stmt.
          or_return (json_find_key (Some stmt) ''InsertStmt'') result (\<lambda>is.
          extract_shard_key_from_insert is result shard_column))))"

section \<open>The extractions on parse trees\<close>

fun json_string :: "json \<Rightarrow> cstring option" where
  "json_string (JStr s) = Some s"
| "json_string _ = None"

definition stmt_type_table :: "(cstring \<times> StmtType) list" where
  "stmt_type_table =
     [(''SelectStmt'', STMT_SELECT), (''InsertStmt'', STMT_INSERT), (''UpdateStmt'', STMT_UPDATE),
      (''DeleteStmt'', STMT_DELETE), (''TransactionStmt'', STMT_TRANSACTION),
      (''VariableSetStmt'', STMT_SET), (''VariableShowStmt'', STMT_SHOW),
      (''DiscardStmt'', STMT_DISCARD), (''CopyStmt'', STMT_COPY),
      (''CreateStmt'', STMT_DDL), (''AlterTableStmt'', STMT_DDL), (''DropStmt'', STMT_DDL),
      (''IndexStmt'', STMT_DDL), (''CreateSchemaStmt'', STMT_DDL), (''ViewStmt'', STMT_DDL),
      (''CreateFunctionStmt'', STMT_DDL), (''TruncateStmt'', STMT_DDL), (''RenameStmt'', STMT_DDL),
      (''CreateSeqStmt'', STMT_DDL), (''AlterSeqStmt'', STMT_DDL)]"

fun spec_stmt_type :: "json \<Rightarrow> StmtType" where
  "spec_stmt_type (JObj ((k, _) # _)) =
     (case map_of stmt_type_table k of Some t \<Rightarrow> t | None \<Rightarrow> STMT_UNKNOWN)"
| "spec_stmt_type _ = STMT_UNKNOWN"

definition spec_rangevar :: "json \<Rightarrow> ParseResult \<Rightarrow> ParseResult" where
  "spec_rangevar rv r =
     (let r = (case obj_lookup ''relname'' rv of None \<Rightarrow> r | Some n \<Rightarrow> r\<lparr>table_name := json_string n\<rparr>)
      in case obj_lookup ''schemaname'' rv of None \<Rightarrow> r | Some n \<Rightarrow> r\<lparr>schema_name := json_string n\<rparr>)"

definition spec_const :: "json \<Rightarrow> (ParseResult \<Rightarrow> ParseResult) \<Rightarrow> ParseResult \<Rightarrow> ParseResult" where
  "spec_const ac set_column r =
     (case Option.bind (obj_lookup ''ival'' ac) (obj_lookup ''ival'') of
        Some i \<Rightarrow> set_column (r\<lparr>shard_key_int := tree_int i, shard_key_is_int := True, shard_key_found := True\<rparr>)
      | None \<Rightarrow>
          (case Option.bind (obj_lookup ''sval'' ac) (obj_lookup ''sval'') of
             None \<Rightarrow> r
           | Some sv \<Rightarrow> set_column (r\<lparr>shard_key_str := json_string sv, shard_key_is_int := False,
               shard_key_found := True\<rparr>)))"

text \<open>The field list of the column on the left of an equality.\<close>

definition equality_fields :: "json \<Rightarrow> json option" where
  "equality_fields ae = do {
     na \<leftarrow> obj_lookup ''name'' ae;
     sv \<leftarrow> tree_find ''sval'' na;
     if json_string sv = Some ''='' then do {
       lx \<leftarrow> obj_lookup ''lexpr'' ae;
       cr \<leftarrow> obj_lookup ''ColumnRef'' lx;
       obj_lookup ''fields'' cr
     } else None
   }"

definition spec_column :: "json \<Rightarrow> ParseResult \<Rightarrow> ParseResult" where
  "spec_column fs r =
     (case Option.bind (tree_find ''String'' fs) (obj_lookup ''sval'') of
        None \<Rightarrow> r | Some sv \<Rightarrow> r\<lparr>shard_key_column := json_string sv\<rparr>)"

definition spec_a_expr :: "json \<Rightarrow> ParseResult \<Rightarrow> ParseResult" where
  "spec_a_expr ae r =
     (case equality_fields ae of
        None \<Rightarrow> r
      | Some fs \<Rightarrow>
          (let r = spec_column fs r in
           if shard_key_column r = None then r
           else
             case Option.bind (obj_lookup ''rexpr'' ae) (obj_lookup ''A_Const'') of
               None \<Rightarrow> r | Some ac \<Rightarrow> spec_const ac id r))"

lemma obj_lookup_size: "obj_lookup key v = Some u \<Longrightarrow> size u < size v"
proof (cases v)
  case (JObj kvs)
  then show "obj_lookup key v = Some u \<Longrightarrow> size u < size v"
    by (auto dest!: map_of_SomeD size_list_estimation' [where f = "size_prod (\<lambda>_. 0) size" and y = "size u"])
qed auto

function spec_where :: "json \<Rightarrow> ParseResult \<Rightarrow> ParseResult"
  and spec_args :: "json list \<Rightarrow> ParseResult \<Rightarrow> ParseResult" where
  "spec_where v r =
     (case obj_lookup ''A_Expr'' v of
        Some ae \<Rightarrow> spec_a_expr ae r
      | None \<Rightarrow>
          (case Option.bind (obj_lookup ''BoolExpr'' v) (obj_lookup ''args'') of
             Some (JArr vs) \<Rightarrow> spec_args vs r
           | _ \<Rightarrow> r))"
| "spec_args [] r = r"
| "spec_args (v # vs) r =
     (let r' = spec_where v r in if shard_key_found r' then r' else spec_args vs r')"
  by pat_completeness auto
termination
proof (relation "measure (\<lambda>x. case x of Inl (v, r) \<Rightarrow> 2 * size v | Inr (vs, r) \<Rightarrow> 2 * size_list size vs + 1)", goal_cases)
  case (2 v r u vs)
  then show ?case
    by (fastforce simp: bind_eq_Some_conv dest!: obj_lookup_size)
qed auto

declare spec_where.simps [simp del]

definition spec_select :: "json \<Rightarrow> ParseResult \<Rightarrow> ParseResult" where
  "spec_select st r =
     (case obj_lookup ''SelectStmt'' st of
        None \<Rightarrow> r
      | Some ss \<Rightarrow>
          (let r = (case obj_lookup ''fromClause'' ss of
               None \<Rightarrow> r
             | Some f \<Rightarrow>
                 (case tree_find ''RangeVar'' f of
                    Some rv \<Rightarrow> spec_rangevar rv r
                  | None \<Rightarrow>
                      (case tree_find ''relname'' f of
                         None \<Rightarrow> r | Some n \<Rightarrow> r\<lparr>table_name := json_string n\<rparr>)))
           in case obj_lookup ''whereClause'' ss of None \<Rightarrow> r | Some w \<Rightarrow> spec_where w r))"

definition spec_relation :: "cstring \<Rightarrow> bool \<Rightarrow> json \<Rightarrow> ParseResult \<Rightarrow> ParseResult" where
  "spec_relation key with_where st r =
     (case obj_lookup key st of
        None \<Rightarrow> r
      | Some s \<Rightarrow>
          (let r = (case obj_lookup ''relation'' s of None \<Rightarrow> r | Some rv \<Rightarrow> spec_rangevar rv r)
           in if with_where
              then (case obj_lookup ''whereClause'' s of None \<Rightarrow> r | Some w \<Rightarrow> spec_where w r)
              else r))"

definition spec_stmt :: "json \<Rightarrow> ParseResult \<Rightarrow> ParseResult" where
  "spec_stmt st r =
     (case stmt_type r of
        STMT_SELECT \<Rightarrow> spec_select st r
      | STMT_INSERT \<Rightarrow> spec_relation ''InsertStmt'' False st r
      | STMT_UPDATE \<Rightarrow> spec_relation ''UpdateStmt'' True st r
      | STMT_DELETE \<Rightarrow> spec_relation ''DeleteStmt'' True st r
      | STMT_DDL \<Rightarrow>
          (case tree_find ''relname'' st of None \<Rightarrow> r | Some n \<Rightarrow> r\<lparr>table_name := json_string n\<rparr>)
      | _ \<Rightarrow> r)"

text \<open>The parse tree of a whole statement text.\<close>

fun spec_first :: "json \<Rightarrow> ParseResult \<Rightarrow> ParseResult \<times> int" where
  "spec_first (JArr []) r = (r, 0)"
| "spec_first (JArr (w # _)) r =
     (case obj_lookup ''stmt'' w of
        None \<Rightarrow> (r, - 1)
      | Some st \<Rightarrow> (spec_stmt st (r\<lparr>stmt_type := spec_stmt_type st\<rparr>), 0))"
| "spec_first _ r = (r, - 1)"

definition spec_parse_query :: "json \<Rightarrow> ParseResult \<times> int" where
  "spec_parse_query doc =
     (let r = parse_result_zero\<lparr>stmt_type := STMT_UNKNOWN, parse_tree_json := Some (render doc)\<rparr> in
      case obj_lookup ''stmts'' doc of None \<Rightarrow> (r, - 1) | Some st \<Rightarrow> spec_first st r)"

text \<open>The constant an INSERT gives to a column: the first VALUES list at the position of the
  column in the column list.\<close>

fun index_of :: "'a \<Rightarrow> 'a list \<Rightarrow> nat option" where
  "index_of x [] = None"
| "index_of x (y # ys) = (if x = y then Some 0 else map_option Suc (index_of x ys))"

definition column_names :: "json \<Rightarrow> cstring option list" where
  "column_names cols = map json_string (tree_all ''name'' cols)"

definition insert_const :: "nat \<Rightarrow> json \<Rightarrow> json option" where
  "insert_const pos ins = do {
     sel \<leftarrow> obj_lookup ''selectStmt'' ins;
     ss \<leftarrow> obj_lookup ''SelectStmt'' sel;
     vl \<leftarrow> obj_lookup ''valuesLists'' ss;
     fl \<leftarrow> tree_find ''items'' vl;
     (case fl of
        JArr vs \<Rightarrow> if pos < length vs then tree_find ''A_Const'' (vs ! pos) else None
      | _ \<Rightarrow> None)
   }"

section \<open>The code computes the extractions\<close>

context json_search
begin

lemma find_eq:
  assumes "points_at v p" "plain_key key"
    and "lookup key v = None \<Longrightarrow> k None = Some s"
    and "\<And>u q. lookup key v = Some u \<Longrightarrow> points_at u q \<Longrightarrow> k (Some q) = Some s"
  shows "Option.bind (find (Some p) key) k = Some s"
  using assms by (rule find_bind)

end

lemma get_string_eq:
  assumes "points_at v p" "k (json_string v) = Some s"
  shows "Option.bind (json_get_string (Some p)) k = Some s"
  using json_get_string_correct [OF points_at_stands [OF assms(1)]] assms(2)
  by (cases v) auto

lemmas nav_intros = fk.find_eq fr.find_eq get_string_eq

declare plain_key_def [simp]

lemma extract_table_from_rangevar_correct:
  "points_at v p \<Longrightarrow> extract_table_from_rangevar p r = Some (spec_rangevar v r)"
  unfolding extract_table_from_rangevar_def spec_rangevar_def
  by (auto intro!: nav_intros)

lemma extract_const_correct:
  "points_at v p \<Longrightarrow> extract_const p f r = Some (spec_const v f r)"
  unfolding extract_const_def spec_const_def or_return_def
  by (rule nav_intros | assumption | simp add: json_get_int_tree [OF points_at_stands])+

lemma extract_a_expr_correct:
  "points_at v p \<Longrightarrow> extract_a_expr p r = Some (spec_a_expr v r)"
  unfolding extract_a_expr_def spec_a_expr_def or_return_def equality_fields_def spec_column_def
  by (rule nav_intros conjI impI | assumption | simp add: extract_const_correct Let_def)+

text \<open>One round of the argument loop.\<close>

lemma where_rec_item:
  assumes "wf_json v" "where_rec At_Where (render v @ after_item vs rest) r = Some r'"
  shows "where_rec In_Args (items (v # vs) @ CHR '']'' # rest) r =
    (if shard_key_found r' then Some r'
     else where_rec In_Args (items vs @ CHR '']'' # rest) r')"
proof -
  have first: "render v \<noteq> []" "hd (render v @ t) \<noteq> CHR '']''" for t
    using assms(1) by (auto elim!: render_first)
  show ?thesis
    unfolding items_Cons using assms first
    by (subst where_rec.simps) (simp add: nav_simps skip_comma_after_item)
qed

lemma points_at_first:
  assumes "points_at v q"
  shows "q \<noteq> []" "hd q = CHR ''['' \<longleftrightarrow> (\<exists>vs. v = JArr vs)"
proof -
  from assms obtain rest where wf: "wf_json v" and q: "q = render v @ rest"
    by (auto simp: points_at_def)
  show "q \<noteq> []" using wf q by (auto elim: render_first)
  show "hd q = CHR ''['' \<longleftrightarrow> (\<exists>vs. v = JArr vs)"
  proof (cases v)
    case (JAtom a)
    with wf q show ?thesis by (cases a) (auto simp: atom_char_def)
  qed (simp_all add: q)
qed

lemma points_at_array_text:
  assumes "points_at (JArr vs) q"
  obtains rest where "tl q = items vs @ CHR '']'' # rest" "list_all wf_json vs" "scannable rest"
  using assms that by (auto simp: points_at_def)

lemma where_rec_args:
  assumes "points_at u a"
    and "\<And>vs rest. u = JArr vs \<Longrightarrow> list_all wf_json vs \<Longrightarrow> scannable rest \<Longrightarrow>
      where_rec In_Args (items vs @ CHR '']'' # rest) r = Some (spec_args vs r)"
  shows "(if a \<noteq> [] \<and> hd a = CHR ''['' then where_rec In_Args (tl a) r else Some r) =
    Some (case u of JArr vs \<Rightarrow> spec_args vs r | _ \<Rightarrow> r)"
proof (cases "\<exists>vs. u = JArr vs")
  case True
  then obtain vs where u: "u = JArr vs" by blast
  with assms(1) obtain rest where "tl a = items vs @ CHR '']'' # rest" "list_all wf_json vs" "scannable rest"
    by (blast elim: points_at_array_text)
  with u assms(2) points_at_first [OF assms(1)] show ?thesis by simp
next
  case False
  with points_at_first [OF assms(1)] show ?thesis by (cases u) auto
qed

lemma where_rec_bool:
  assumes "points_at v p" "obj_lookup ''A_Expr'' v = None"
    and args: "\<And>be u vs rest. obj_lookup ''BoolExpr'' v = Some be \<Longrightarrow> obj_lookup ''args'' be = Some u \<Longrightarrow> u = JArr vs \<Longrightarrow>
      list_all wf_json vs \<Longrightarrow> scannable rest \<Longrightarrow> where_rec In_Args (items vs @ CHR '']'' # rest) r = Some (spec_args vs r)"
  shows "where_rec At_Where p r = Some (spec_where v r)"
proof -
  have "json_find_key (Some p) ''A_Expr'' = Some None"
    using fk.find_None [OF assms(1) _ assms(2)] by simp
  then have "where_rec At_Where p r = Option.bind (json_find_key (Some p) ''BoolExpr'')
      (case_option (Some r) (\<lambda>be. Option.bind (json_find_key (Some be) ''args'')
        (case_option (Some r) (\<lambda>a. if a \<noteq> [] \<and> hd a = CHR ''['' then where_rec In_Args (tl a) r
          else Some r))))"
    by (subst where_rec.simps) simp
  also have "\<dots> = Some (spec_where v r)"
  proof (rule fk.find_eq [OF assms(1)])
    fix be q assume be: "obj_lookup ''BoolExpr'' v = Some be" "points_at be q"
    show "(case Some q of None \<Rightarrow> Some r | Some be \<Rightarrow>
        json_find_key (Some be) ''args'' \<bind>
        case_option (Some r) (\<lambda>a. if a \<noteq> [] \<and> hd a = CHR ''['' then where_rec In_Args (tl a) r
          else Some r)) = Some (spec_where v r)"
      unfolding option.case
    proof (rule fk.find_eq [OF be(2)])
      fix u a assume u: "obj_lookup ''args'' be = Some u" "points_at u a"
      show "(case Some a of None \<Rightarrow> Some r | Some a \<Rightarrow>
          if a \<noteq> [] \<and> hd a = CHR ''['' then where_rec In_Args (tl a) r else Some r) =
          Some (spec_where v r)"
        unfolding option.case
        using where_rec_args [OF u(2) args [OF be(1) u(1)]] assms(2) be(1) u(1)
        by (simp add: spec_where.simps)
    qed (use assms(2) be in \<open>simp_all add: spec_where.simps\<close>)
  qed (use assms(2) in \<open>simp_all add: spec_where.simps\<close>)
  finally show ?thesis .
qed

lemma where_rec_correct:
  shows "points_at v p \<Longrightarrow> where_rec At_Where p r = Some (spec_where v r)"
    and "list_all wf_json vs \<Longrightarrow> scannable rest \<Longrightarrow>
      where_rec In_Args (items vs @ CHR '']'' # rest) r = Some (spec_args vs r)"
proof (induction v r and vs r arbitrary: p and rest rule: spec_where_spec_args.induct)
  case (1 v r)
  show ?case
  proof (cases "obj_lookup ''A_Expr'' v")
    case (Some ae)
    obtain q where "json_find_key (Some p) ''A_Expr'' = Some (Some q)" "points_at ae q"
      by (rule fk.find_Some [OF 1(2) _ Some]) simp_all
    with Some show ?thesis
      by (subst where_rec.simps, subst spec_where.simps) (simp add: extract_a_expr_correct)
  next
    case None
    show ?thesis
      by (rule where_rec_bool [OF 1(2) None]) (use 1(1) [OF None] in auto)
  qed
next
  case (2 r)
  show ?case by (subst where_rec.simps) simp
next
  case (3 v vs r)
  then have "where_rec At_Where (render v @ after_item vs rest) r = Some (spec_where v r)"
    by (simp add: points_atI scannable_after)
  with 3 have "where_rec In_Args (items (v # vs) @ CHR '']'' # rest) r =
      (if shard_key_found (spec_where v r) then Some (spec_where v r)
       else where_rec In_Args (items vs @ CHR '']'' # rest) (spec_where v r))"
    by (intro where_rec_item) simp_all
  with 3 show ?case by (simp add: Let_def)
qed

lemma extract_where_simps [simp]:
  "extract_shard_key_from_where None r = Some r"
  "points_at v p \<Longrightarrow> extract_shard_key_from_where (Some p) r = Some (spec_where v r)"
  by (simp_all add: extract_shard_key_from_where_def where_rec_correct)

lemma select_info_correct:
  "points_at v p \<Longrightarrow> select_info p r = Some (spec_select v r)"
  unfolding select_info_def spec_select_def or_return_def
  by (rule nav_intros | assumption
      | simp add: extract_table_from_rangevar_correct Let_def)+

lemma relation_info_correct:
  "points_at v p \<Longrightarrow> plain_key key \<Longrightarrow> relation_info key p w r = Some (spec_relation key w v r)"
  unfolding relation_info_def spec_relation_def or_return_def
  by (cases w; (rule nav_intros | assumption
      | simp add: extract_table_from_rangevar_correct Let_def del: plain_key_def | simp)+)

lemma ddl_info_correct:
  "points_at v p \<Longrightarrow> ddl_info p r =
     Some (case tree_find ''relname'' v of None \<Rightarrow> r | Some n \<Rightarrow> r\<lparr>table_name := json_string n\<rparr>)"
  unfolding ddl_info_def or_return_def
  by (rule nav_intros | assumption | simp)+

lemma stmt_info_correct:
  "points_at v p \<Longrightarrow> stmt_info p r = Some (spec_stmt v r)"
  unfolding stmt_info_def spec_stmt_def
  by (cases "stmt_type r")
    (simp_all add: select_info_correct relation_info_correct ddl_info_correct)

lemma detect_stmt_type_correct:
  assumes "points_at v p"
  shows "detect_stmt_type (Some p) = spec_stmt_type v"
proof -
  have key: "json_starts_with_key (Some p) key \<longleftrightarrow> (\<exists>u kvs. v = JObj ((key, u) # kvs))"
    if "plain_key key" for key
    using assms that by (rule json_starts_with_key_correct)
  show ?thesis
  proof (cases "\<exists>k u kvs. v = JObj ((k, u) # kvs)")
    case True
    then obtain k u kvs where v: "v = JObj ((k, u) # kvs)" by blast
    show ?thesis
      by (simp add: v detect_stmt_type_def is_ddl_key_def key stmt_type_table_def)
  next
    case False
    then have "spec_stmt_type v = STMT_UNKNOWN"
      by (cases v rule: spec_stmt_type.cases) auto
    with False show ?thesis
      by (simp add: detect_stmt_type_def is_ddl_key_def key)
  qed
qed

lemma array_first:
  assumes "list_all wf_json vs" "scannable rest"
  shows "vs = [] \<Longrightarrow> json_skip_whitespace (items vs @ CHR '']'' # rest) = CHR '']'' # rest"
    and "vs = v # vs' \<Longrightarrow> points_at v (json_skip_whitespace (items vs @ CHR '']'' # rest))"
    and "vs = v # vs' \<Longrightarrow> hd (json_skip_whitespace (items vs @ CHR '']'' # rest)) \<noteq> CHR '']''"
proof -
  show "vs = [] \<Longrightarrow> json_skip_whitespace (items vs @ CHR '']'' # rest) = CHR '']'' # rest"
    by (simp add: nav_simps)
  assume vs: "vs = v # vs'"
  with assms have wf: "wf_json v" by simp
  have ws: "json_skip_whitespace (items vs @ CHR '']'' # rest) = render v @ after_item vs' rest"
    unfolding vs items_Cons using wf by (rule skip_ws_render)
  show "points_at v (json_skip_whitespace (items vs @ CHR '']'' # rest))"
    unfolding ws using assms vs by (auto intro!: points_atI)
  show "hd (json_skip_whitespace (items vs @ CHR '']'' # rest)) \<noteq> CHR '']''"
    unfolding ws using wf by (auto elim!: render_first)
qed

lemma first_stmt_correct:
  assumes "points_at v p"
  shows "first_stmt p r = Some (spec_first v r)"
proof (cases "\<exists>vs. v = JArr vs")
  case False
  with points_at_first [OF assms] show ?thesis
    by (cases v) (auto simp: first_stmt_def)
next
  case True
  then obtain vs where v: "v = JArr vs" by blast
  with assms obtain rest where
    arr: "tl p = items vs @ CHR '']'' # rest" "list_all wf_json vs" "scannable rest"
    by (blast elim: points_at_array_text)
  show ?thesis
  proof (cases vs)
    case Nil
    with arr v points_at_first [OF assms] show ?thesis
      by (simp add: first_stmt_def nav_simps)
  next
    case (Cons w ws)
    let ?q = "json_skip_whitespace (tl p)"
    have w: "points_at w ?q" "hd ?q \<noteq> CHR '']''"
      using array_first(2,3) [OF arr(2,3) Cons] arr(1) by simp_all
    then have "first_stmt p r = or_return (json_find_key (Some ?q) ''stmt'') (r, - 1)
        (\<lambda>st. Option.bind (stmt_info st (r\<lparr>stmt_type := detect_stmt_type (Some st)\<rparr>)) (\<lambda>r. Some (r, 0)))"
      using v points_at_first [OF assms] by (simp add: first_stmt_def)
    also have "\<dots> = Some (spec_first v r)"
      unfolding or_return_def v Cons spec_first.simps
      using w(1) by (rule fk.find_eq) (simp_all add: stmt_info_correct detect_stmt_type_correct)
    finally show ?thesis .
  qed
qed

lemma parse_query_text:
  assumes "wf_json doc" "pg sql = Inr (render doc)"
  shows "parse_query pg sql = Some (spec_parse_query doc)"
proof -
  have doc: "points_at doc (render doc)"
    using points_atI [OF assms(1), of "[]"] by (simp add: delimited_def)
  show ?thesis
    unfolding parse_query_def Let_def assms(2) sum.case spec_parse_query_def or_return_def
    using doc by (rule fk.find_eq) (simp_all add: first_stmt_correct)
qed

section \<open>INSERT\<close>

lemma name_position_prefix:
  "list_all2 stands_at vs qs \<Longrightarrow>
     name_position (qs @ rs) column pos =
       (case index_of (Some column) (map json_string vs) of
          Some i \<Rightarrow> Some (Some (pos + i))
        | None \<Rightarrow> name_position rs column (pos + length qs))"
proof (induction vs qs arbitrary: pos rule: list_all2_induct)
  case Nil
  then show ?case by simp
next
  case (Cons v vs q qs)
  have "json_get_string (Some q) = Some (json_string v)"
    using json_get_string_correct [OF Cons(1)] by (cases v) auto
  with Cons(3) show ?case by (auto split: option.split)
qed

lemma skip_items_text:
  "list_all wf_json vs \<Longrightarrow>
     skip_items n (items vs @ CHR '']'' # rest) = Some (items (drop n vs) @ CHR '']'' # rest)"
proof (induction n arbitrary: vs)
  case 0
  then show ?case by simp
next
  case (Suc n)
  show ?case
  proof (cases vs)
    case Nil
    then show ?thesis by simp
  next
    case (Cons v vs')
    with Suc.prems have wf: "wf_json v" "list_all wf_json vs'" by simp_all
    have first: "render v \<noteq> []" "hd (render v @ t) \<noteq> CHR '']''" for t
      using wf(1) by (auto elim!: render_first)
    show ?thesis
      unfolding Cons items_Cons using wf first Suc.IH [OF wf(2)]
      by (simp add: nav_simps skip_comma_after_item)
  qed
qed

lemma extract_value_correct:
  assumes "points_at v p"
  shows "extract_value p pos column r =
    Some (case (case v of
        JArr vs \<Rightarrow> if pos < length vs then tree_find ''A_Const'' (vs ! pos) else None
      | _ \<Rightarrow> None) of None \<Rightarrow> r
      | Some ac \<Rightarrow> spec_const ac (\<lambda>r. r\<lparr>shard_key_column := Some column\<rparr>) r)"
proof (cases "\<exists>vs. v = JArr vs")
  case False
  with points_at_first [OF assms] show ?thesis by (cases v) (auto simp: extract_value_def)
next
  case True
  then obtain vs where v: "v = JArr vs" by blast
  with assms obtain rest where
    arr: "tl p = items vs @ CHR '']'' # rest" "list_all wf_json vs" "scannable rest"
    by (blast elim: points_at_array_text)
  from arr(2) have wf: "list_all wf_json (drop pos vs)"
    by (auto simp: list_all_iff dest: in_set_dropD)
  show ?thesis
  proof (cases "pos < length vs")
    case False
    with v arr(1) points_at_first [OF assms] skip_items_text [OF arr(2), of pos rest]
    show ?thesis by (simp add: extract_value_def nav_simps)
  next
    case True
    then have drop: "drop pos vs = vs ! pos # drop (Suc pos) vs"
      by (simp add: Cons_nth_drop_Suc)
    let ?f = "\<lambda>r. r\<lparr>shard_key_column := Some column\<rparr>"
    let ?q = "json_skip_whitespace (items (drop pos vs) @ CHR '']'' # rest)"
    have q: "points_at (vs ! pos) ?q" "hd ?q \<noteq> CHR '']''"
      using array_first(2,3) [OF wf arr(3) drop] by simp_all
    have "or_return (json_find_key_recursive (Some ?q) ''A_Const'') r (\<lambda>ac. extract_const ac ?f r) =
        Some (case tree_find ''A_Const'' (vs ! pos) of None \<Rightarrow> r | Some ac \<Rightarrow> spec_const ac ?f r)"
      unfolding or_return_def using q(1)
      by (rule fr.find_eq) (simp_all add: extract_const_correct)
    with True v arr(1) points_at_first [OF assms] q(2) skip_items_text [OF arr(2), of pos rest]
    show ?thesis by (simp add: extract_value_def)
  qed
qed

lemma extract_insert_text:
  assumes "points_at v p" "obj_lookup ''cols'' v = Some (JArr cs)"
    and "index_of (Some column) (column_names (JArr cs)) = Some pos"
  shows "extract_shard_key_from_insert p r (Some column) =
    Some (case insert_const pos v of None \<Rightarrow> r
      | Some ac \<Rightarrow> spec_const ac (\<lambda>r. r\<lparr>shard_key_column := Some column\<rparr>) r)"
proof -
  obtain cols where cols: "json_find_key (Some p) ''cols'' = Some (Some cols)" "points_at (JArr cs) cols"
    by (rule fk.find_Some [OF assms(1) _ assms(2)]) simp_all
  have plain: "plain_key ''name''" by simp
  obtain qs rs where names: "json_find_all_values (Some cols) ''name'' = Some (qs @ rs)"
      "list_all2 stands_at (tree_all ''name'' (JArr cs)) qs"
    by (rule json_find_all_values_correct [OF cols(2) plain])
  have pos: "name_position (qs @ rs) column 0 = Some (Some pos)"
    using assms(3) unfolding name_position_prefix [OF names(2)] column_names_def by simp
  show ?thesis
    unfolding extract_shard_key_from_insert_def insert_const_def or_return_def
    using cols(1) names(1) pos points_at_first [OF cols(2)]
    by simp (rule nav_intros assms(1) | assumption | simp add: extract_value_correct)+
qed

lemma second_pass_text:
  assumes "wf_json doc" "stmt_type r = STMT_INSERT" "parse_tree_json r = Some (render doc)"
    and "obj_lookup ''stmts'' doc = Some (JArr (w # ws))" "obj_lookup ''stmt'' w = Some st"
    and "obj_lookup ''InsertStmt'' st = Some ins" "obj_lookup ''cols'' ins = Some (JArr cs)"
    and "index_of (Some column) (column_names (JArr cs)) = Some pos"
  shows "parse_extract_insert_shard_key r (Some column) =
    Some (case insert_const pos ins of None \<Rightarrow> r
      | Some ac \<Rightarrow> spec_const ac (\<lambda>r. r\<lparr>shard_key_column := Some column\<rparr>) r)"
proof -
  have doc: "points_at doc (render doc)"
    using points_atI [OF assms(1), of "[]"] by (simp add: delimited_def)
  obtain p1 where p1: "json_find_key (Some (render doc)) ''stmts'' = Some (Some p1)" "points_at (JArr (w # ws)) p1"
    by (rule fk.find_Some [OF doc _ assms(4)]) simp_all
  obtain rest where arr: "tl p1 = items (w # ws) @ CHR '']'' # rest" "list_all wf_json (w # ws)" "scannable rest"
    using p1(2) by (rule points_at_array_text)
  have p2: "points_at w (json_skip_whitespace (tl p1))"
    using array_first(2) [OF arr(2,3) refl] arr(1) by simp
  obtain p3 where p3: "json_find_key (Some (json_skip_whitespace (tl p1))) ''stmt'' = Some (Some p3)" "points_at st p3"
    by (rule fk.find_Some [OF p2 _ assms(5)]) simp_all
  obtain p4 where p4: "json_find_key (Some p3) ''InsertStmt'' = Some (Some p4)" "points_at ins p4"
    by (rule fk.find_Some [OF p3(2) _ assms(6)]) simp_all
  show ?thesis
    using assms(2,3) p1(1) p3(1) p4(1) points_at_first(1) [OF p1(2)]
      extract_insert_text [OF p4(2) assms(7,8)]
    by (simp add: parse_extract_insert_shard_key_def or_return_def)
qed

section \<open>Properties\<close>

text \<open>C11: \<open>parse_query\<close> refines the specification on trees: on the JSON text of any well-formed
  document that libpg_query returns, it returns, and its result is the one the tree prescribes:
  the type of the first statement, the relation it is on, and the first equality of a column with
  a constant in its WHERE clause.\<close>

theorem parse_query_refines:
  assumes "wf_json doc" "pg sql = Inr (render doc)"
  shows "parse_query pg sql = Some (spec_parse_query doc)"
  using assms by (rule parse_query_text)

definition string_node :: "cstring \<Rightarrow> json" where
  "string_node s = JObj [(''String'', JObj [(''sval'', JStr s)])]"

definition eq_node :: "cstring \<Rightarrow> json \<Rightarrow> json" where
  "eq_node col const = JObj [(''A_Expr'', JObj [(''kind'', JStr ''AEXPR_OP''), (''name'', JArr [string_node ''='']),
     (''lexpr'', JObj [(''ColumnRef'', JObj [(''fields'', JArr [string_node col])])]), (''rexpr'', const)])]"

definition int_node :: "int \<Rightarrow> json" where
  "int_node k = JObj [(''A_Const'', JObj [(''ival'', JObj (if k = 0 then [] else [(''ival'', JAtom (int_text k))])),
     (''location'', JAtom ''30'')])]"

definition select_doc :: "cstring \<Rightarrow> json \<Rightarrow> json" where
  "select_doc table cond = JObj [(''version'', JAtom ''170000''), (''stmts'', JArr [JObj [(''stmt'',
     JObj [(''SelectStmt'', JObj [
       (''fromClause'', JArr [JObj [(''RangeVar'', JObj [(''relname'', JStr table)])]]),
       (''whereClause'', cond)])])]])]"

lemma doc_wf:
  "body_ok s \<Longrightarrow> wf_json (string_node s)"
  "body_ok col \<Longrightarrow> wf_json const \<Longrightarrow> wf_json (eq_node col const)"
  "wf_json (int_node k)"
  "body_ok table \<Longrightarrow> wf_json cond \<Longrightarrow> wf_json (select_doc table cond)"
  by (simp_all add: string_node_def eq_node_def int_node_def select_doc_def atom_char_def
      is_scalar_char_def isspace_def wf_int_text [simplified])

lemma spec_eq_node:
  "- (2 ^ 63) \<le> k \<Longrightarrow> k < 2 ^ 63 \<Longrightarrow> spec_where (eq_node col (int_node k)) r =
     (if k = 0 then r\<lparr>shard_key_column := Some col\<rparr>
      else r\<lparr>shard_key_column := Some col, shard_key_int := k, shard_key_is_int := True, shard_key_found := True\<rparr>)"
  by (simp add: spec_where.simps eq_node_def int_node_def string_node_def spec_a_expr_def
      equality_fields_def spec_column_def spec_const_def tree_int_text)

lemma spec_select_doc:
  "spec_parse_query (select_doc table cond) =
     (spec_where cond (parse_result_zero\<lparr>stmt_type := STMT_SELECT, table_name := Some table,
        parse_tree_json := Some (render (select_doc table cond))\<rparr>), 0)"
  by (simp add: spec_parse_query_def select_doc_def stmt_type_table_def spec_stmt_def spec_select_def
      spec_rangevar_def parse_result_zero_def)

theorem parse_query_refines_witness:
  "\<exists>r. parse_query (\<lambda>sql. Inr (render (select_doc ''users'' (eq_node ''user_id'' (int_node 42)))))
      ''SELECT * FROM users WHERE user_id = 42'' = Some (r, 0) \<and>
     table_name r = Some ''users'' \<and> shard_key_found r \<and> shard_key_column r = Some ''user_id'' \<and>
     shard_key_int r = 42"
proof -
  let ?doc = "select_doc ''users'' (eq_node ''user_id'' (int_node 42))"
  have "wf_json ?doc" by (simp add: doc_wf)
  from parse_query_refines [OF this, of "\<lambda>sql. Inr (render ?doc)" "''SELECT * FROM users WHERE user_id = 42''"]
  show ?thesis by (simp add: spec_select_doc spec_eq_node)
qed

text \<open>When libpg_query reports a syntax error, \<open>parse_query\<close> fails with -1 and leaves an empty
  result of unknown type, with no table, no key and no tree.\<close>

theorem parse_query_error:
  assumes "pg sql = Inl err"
  shows "parse_query pg sql = Some (parse_result_zero\<lparr>stmt_type := STMT_UNKNOWN\<rparr>, - 1)"
  using assms by (simp add: parse_query_def)

theorem parse_query_error_witness:
  "parse_query (\<lambda>sql. Inl \<lparr>message = ''syntax error'', cursorpos = 1\<rparr>) ''SELEC'' =
     Some (parse_result_zero\<lparr>stmt_type := STMT_UNKNOWN\<rparr>, - 1)"
  using parse_query_error [of "\<lambda>sql. Inl \<lparr>message = ''syntax error'', cursorpos = 1\<rparr>" "''SELEC''"] by simp

text \<open>C13: The second pass over an INSERT takes the constant at the position of the shard column in
  the column list, in the first row of VALUES, for any well-formed document and any number of
  columns.\<close>

theorem insert_key_refines:
  assumes "wf_json doc" "stmt_type r = STMT_INSERT" "parse_tree_json r = Some (render doc)"
    and "obj_lookup ''stmts'' doc = Some (JArr (w # ws))" "obj_lookup ''stmt'' w = Some st"
    and "obj_lookup ''InsertStmt'' st = Some ins" "obj_lookup ''cols'' ins = Some (JArr cs)"
    and "index_of (Some column) (column_names (JArr cs)) = Some pos"
  shows "parse_extract_insert_shard_key r (Some column) =
    Some (case insert_const pos ins of None \<Rightarrow> r
      | Some ac \<Rightarrow> spec_const ac (\<lambda>r. r\<lparr>shard_key_column := Some column\<rparr>) r)"
  using assms by (rule second_pass_text)

definition insert_node :: "cstring \<Rightarrow> cstring list \<Rightarrow> json list \<Rightarrow> json" where
  "insert_node table cols vals = JObj [(''relation'', JObj [(''relname'', JStr table)]),
     (''cols'', JArr (map (\<lambda>c. JObj [(''ResTarget'', JObj [(''name'', JStr c)])]) cols)),
     (''selectStmt'', JObj [(''SelectStmt'', JObj [(''valuesLists'',
       JArr [JObj [(''List'', JObj [(''items'', JArr vals)])]])])])]"

definition insert_doc :: "cstring \<Rightarrow> cstring list \<Rightarrow> json list \<Rightarrow> json" where
  "insert_doc table cols vals = JObj [(''version'', JAtom ''170000''), (''stmts'', JArr [JObj [(''stmt'',
     JObj [(''InsertStmt'', insert_node table cols vals)])]])]"

lemma insert_doc_wf:
  "body_ok table \<Longrightarrow> list_all body_ok cols \<Longrightarrow> list_all wf_json vals \<Longrightarrow> wf_json (insert_doc table cols vals)"
  by (simp add: insert_doc_def insert_node_def list_all_iff atom_char_def is_scalar_char_def isspace_def)

lemma insert_names:
  "column_names (JArr (map (\<lambda>c. JObj [(''ResTarget'', JObj [(''name'', JStr c)])]) cols)) = map Some cols"
  unfolding column_names_def by (induction cols) simp_all

lemma index_of_map_Some: "index_of (Some x) (map Some xs) = index_of x xs"
  by (induction xs) simp_all

lemma spec_insert_doc:
  "spec_parse_query (insert_doc table cols vals) =
     (parse_result_zero\<lparr>stmt_type := STMT_INSERT, table_name := Some table,
        parse_tree_json := Some (render (insert_doc table cols vals))\<rparr>, 0)"
  by (simp add: spec_parse_query_def insert_doc_def insert_node_def stmt_type_table_def spec_stmt_def
      spec_relation_def spec_rangevar_def parse_result_zero_def)

lemma insert_const_node:
  "insert_const pos (insert_node table cols vals) =
     (if pos < length vals then tree_find ''A_Const'' (vals ! pos) else None)"
  by (simp add: insert_const_def insert_node_def)

lemma second_pass_doc:
  assumes "wf_json (insert_doc table cols vals)" "stmt_type r = STMT_INSERT"
    and "parse_tree_json r = Some (render (insert_doc table cols vals))" "index_of column cols = Some pos"
  shows "parse_extract_insert_shard_key r (Some column) =
    Some (case insert_const pos (insert_node table cols vals) of None \<Rightarrow> r
      | Some ac \<Rightarrow> spec_const ac (\<lambda>r. r\<lparr>shard_key_column := Some column\<rparr>) r)"
proof -
  have "index_of (Some column) (column_names (JArr (map (\<lambda>c. JObj [(''ResTarget'', JObj [(''name'', JStr c)])]) cols))) = Some pos"
    using assms(4) by (simp only: insert_names index_of_map_Some)
  from second_pass_text [OF assms(1-3) _ _ _ _ this] show ?thesis
    by (simp add: insert_doc_def insert_node_def)
qed

theorem insert_key_refines_witness:
  "parse_extract_insert_shard_key (parse_result_zero\<lparr>stmt_type := STMT_INSERT,
       parse_tree_json := Some (render (insert_doc ''users'' [''name'', ''user_id''] [string_node ''x'', int_node 7]))\<rparr>)
     (Some ''user_id'') =
   Some (parse_result_zero\<lparr>stmt_type := STMT_INSERT,
       parse_tree_json := Some (render (insert_doc ''users'' [''name'', ''user_id''] [string_node ''x'', int_node 7])),
       shard_key_int := 7, shard_key_is_int := True, shard_key_found := True,
       shard_key_column := Some ''user_id''\<rparr>)"
proof -
  let ?ins = "insert_node ''users'' [''name'', ''user_id''] [string_node ''x'', int_node 7]"
  let ?cs = "map (\<lambda>c. JObj [(''ResTarget'', JObj [(''name'', JStr c)])]) [''name'', ''user_id'']"
  let ?doc = "insert_doc ''users'' [''name'', ''user_id''] [string_node ''x'', int_node 7]"
  have wf: "wf_json ?doc" by (rule insert_doc_wf) (simp_all add: doc_wf)
  have idx: "index_of (Some ''user_id'') (column_names (JArr ?cs)) = Some 1"
    by (simp add: column_names_def)
  have st: "obj_lookup ''stmts'' ?doc = Some (JArr [JObj [(''stmt'', JObj [(''InsertStmt'', ?ins)])]])"
    "obj_lookup ''cols'' ?ins = Some (JArr ?cs)"
    by (simp_all add: insert_doc_def insert_node_def)
  have "insert_const 1 ?ins = Some (JObj [(''ival'', JObj [(''ival'', JAtom (int_text 7))]), (''location'', JAtom ''30'')])"
    by (simp add: insert_const_node int_node_def)
  then show ?thesis
    using insert_key_refines [OF wf _ _ st(1) _ _ st(2) idx,
        of "parse_result_zero\<lparr>stmt_type := STMT_INSERT, parse_tree_json := Some (render ?doc)\<rparr>"]
    by (simp add: spec_const_def tree_int_text)
qed

text \<open>C31: The WHERE extraction does not look at the operator of a boolean expression: for every
  list of conditions, their conjunction, their disjunction and (for one condition) its negation
  give the same shard key.\<close>

theorem boolop_ignored:
  assumes "list_all wf_json args" "body_ok boolop"
  shows "extract_shard_key_from_where
      (Some (render (JObj [(''BoolExpr'', JObj [(''boolop'', JStr boolop), (''args'', JArr args)])]))) r =
    Some (spec_args args r)"
proof -
  let ?v = "JObj [(''BoolExpr'', JObj [(''boolop'', JStr boolop), (''args'', JArr args)])]"
  have "points_at ?v (render ?v)" using assms by (intro document) simp
  then have "extract_shard_key_from_where (Some (render ?v)) r = Some (spec_where ?v r)"
    by (rule extract_where_simps(2))
  then show ?thesis by (simp add: spec_where.simps)
qed

theorem boolop_ignored_witness:
  "extract_shard_key_from_where
     (Some (render (JObj [(''BoolExpr'', JObj [(''boolop'', JStr ''OR_EXPR''),
        (''args'', JArr [eq_node ''user_id'' (int_node 1), eq_node ''user_id'' (int_node 2)])])]))) parse_result_zero =
   Some (parse_result_zero\<lparr>shard_key_column := Some ''user_id'', shard_key_int := 1, shard_key_is_int := True,
     shard_key_found := True\<rparr>)"
  using boolop_ignored [of "[eq_node ''user_id'' (int_node 1), eq_node ''user_id'' (int_node 2)]" "''OR_EXPR''"
      parse_result_zero]
  by (simp add: doc_wf spec_eq_node Let_def)

end
