(* ===== verification/Router.thy ===== *)
theory Router
  imports Shard_Map Query_Parser
begin

text \<open>
  \<open>src/router/router.c\<close>: from a parsed statement to the shards it is sent to. The decision is
  filled in field by field as the code does, from a zeroed record; for an INSERT the second pass of
  the parser runs here and may add a shard key to the parse result, so the parse result is
  returned as well.
\<close>

datatype RouteType = ROUTE_SINGLE | ROUTE_SCATTER | ROUTE_LOCAL | ROUTE_DEFAULT

record RouteDecision =
  route_type :: RouteType
  target_shards :: "nat list"
  target_count :: int
  route_rule :: "TableRule option"

definition route_zero :: RouteDecision where
  "route_zero = \<lparr>route_type = ROUTE_SINGLE, target_shards = [], target_count = 0, route_rule = None\<rparr>"

definition scatter :: "TableRule \<Rightarrow> RouteDecision \<Rightarrow> RouteDecision" where
  "scatter rule decision =
     (let (shards, n) = shard_map_get_all rule in
      decision\<lparr>route_type := ROUTE_SCATTER, target_count := n, target_shards := shards\<rparr>)"

text \<open>The shard of the key of a parse result whose key column is the column of the rule;
  \<open>strcmp\<close> with a NULL column faults.\<close>

definition key_target :: "ShardMap \<Rightarrow> TableRule \<Rightarrow> ParseResult \<Rightarrow> nat option option" where
  "key_target m rule parsed =
     (case (shard_key_found parsed, shard_key_column parsed) of
        (True, Some col) \<Rightarrow> do {
          rcol \<leftarrow> shard_column rule;
          if col = rcol then
            (if shard_key_is_int parsed then shard_map_find_by_int m (Some rule) (shard_key_int parsed)
             else
               (case shard_key_str parsed of
                  None \<Rightarrow> Some None
                | Some k \<Rightarrow> shard_map_find_by_str m (Some rule) (Some k)))
          else Some None
        }
      | _ \<Rightarrow> Some None)"

definition router_decide :: "ShardMap \<Rightarrow> ParseResult \<Rightarrow> (ParseResult \<times> RouteDecision) option" where
  "router_decide m parsed =
     (let decision = route_zero in
      if stmt_type parsed = STMT_SET \<or> stmt_type parsed = STMT_SHOW \<or> stmt_type parsed = STMT_DISCARD
      then Some (parsed, decision\<lparr>route_type := ROUTE_LOCAL\<rparr>)
      else if stmt_type parsed = STMT_TRANSACTION
      then Some (parsed, decision\<lparr>route_type := ROUTE_DEFAULT\<rparr>)
      else if stmt_type parsed = STMT_UNKNOWN \<or> table_name parsed = None
      then Some (parsed, decision\<lparr>route_type := ROUTE_DEFAULT\<rparr>)
      else do {
        found \<leftarrow> shard_map_find_rule m (table_name parsed);
        (case found of
           None \<Rightarrow> Some (parsed, decision\<lparr>route_type := ROUTE_DEFAULT\<rparr>)
         | Some rule \<Rightarrow>
             let decision = decision\<lparr>route_rule := Some rule\<rparr> in
             if broadcast rule then Some (parsed, scatter rule decision)
             else if stmt_type parsed = STMT_DDL then Some (parsed, scatter rule decision)
             else do {
               parsed \<leftarrow> (if stmt_type parsed = STMT_INSERT \<and> \<not> shard_key_found parsed
                 then parse_extract_insert_shard_key parsed (shard_column rule) else Some parsed);
               target \<leftarrow> key_target m rule parsed;
               (case target of
                  Some s \<Rightarrow> Some (parsed, decision\<lparr>route_type := ROUTE_SINGLE, target_shards := [s],
                    target_count := 1\<rparr>)
                | None \<Rightarrow> Some (parsed, scatter rule decision))
             })
      })"

section \<open>What a decision is\<close>

definition decision_ok :: "RouteDecision \<Rightarrow> bool" where
  "decision_ok d \<longleftrightarrow>
     (case (route_type d, route_rule d) of
        (ROUTE_SINGLE, Some r) \<Rightarrow> target_count d = 1 \<and> (\<exists>s \<in> set (rule_shards r). target_shards d = [s])
      | (ROUTE_SCATTER, Some r) \<Rightarrow> target_shards d = rule_shards r \<and> target_count d = int (length (rule_shards r))
      | (ROUTE_LOCAL, None) \<Rightarrow> target_count d = 0
      | (ROUTE_DEFAULT, None) \<Rightarrow> target_count d = 0
      | _ \<Rightarrow> False)"

lemma scatter_ok:
  "rule_ok m r \<Longrightarrow> decision_ok (scatter r (d\<lparr>route_rule := Some r\<rparr>))"
  by (simp add: decision_ok_def scatter_def shard_map_get_all_def rule_ok_def)

lemma scatter_simps [simp]:
  "route_type (scatter r d) = ROUTE_SCATTER" "target_shards (scatter r d) = rule_shards r"
  "target_count (scatter r d) = rule_shard_count r" "route_rule (scatter r d) = route_rule d"
  by (simp_all add: scatter_def shard_map_get_all_def)

lemma shard_of_in: "shard_of m r u = Some s \<Longrightarrow> s \<in> set (rule_shards r)"
  using shard_of_member [of r m u] by (cases "rule_shards r = []") (auto simp: shard_of_def)

lemma key_target_in:
  assumes "rule_ok m r" "key_target m r p = Some (Some s)"
  shows "s \<in> set (rule_shards r)"
  using assms shard_of_in
  by (auto simp: key_target_def find_by_int_shard_of find_by_str_shard_of bind_eq_Some_conv
      split: bool.splits option.splits if_splits)

text \<open>The part of the decision that comes after a rule has been found.\<close>

definition decide_rule :: "ShardMap \<Rightarrow> ParseResult \<Rightarrow> TableRule \<Rightarrow> (ParseResult \<times> RouteDecision) option" where
  "decide_rule m parsed rule =
     (let decision = route_zero\<lparr>route_rule := Some rule\<rparr> in
      if broadcast rule \<or> stmt_type parsed = STMT_DDL then Some (parsed, scatter rule decision)
      else do {
        parsed \<leftarrow> (if stmt_type parsed = STMT_INSERT \<and> \<not> shard_key_found parsed
          then parse_extract_insert_shard_key parsed (shard_column rule) else Some parsed);
        target \<leftarrow> key_target m rule parsed;
        (case target of
           Some s \<Rightarrow> Some (parsed, decision\<lparr>route_type := ROUTE_SINGLE, target_shards := [s], target_count := 1\<rparr>)
         | None \<Rightarrow> Some (parsed, scatter rule decision))
      })"

definition is_local :: "StmtType \<Rightarrow> bool" where
  "is_local t \<longleftrightarrow> t = STMT_SET \<or> t = STMT_SHOW \<or> t = STMT_DISCARD"

definition is_default :: "ParseResult \<Rightarrow> bool" where
  "is_default p \<longleftrightarrow> stmt_type p = STMT_TRANSACTION \<or> stmt_type p = STMT_UNKNOWN \<or> table_name p = None"

lemma router_decide_cases:
  assumes "map_ok m"
  shows "router_decide m p =
    (if is_local (stmt_type p) then Some (p, route_zero\<lparr>route_type := ROUTE_LOCAL\<rparr>)
     else if is_default p then Some (p, route_zero\<lparr>route_type := ROUTE_DEFAULT\<rparr>)
     else
       (case find (\<lambda>r. rule_table_name r = table_name p) (table_rules m) of
          None \<Rightarrow> Some (p, route_zero\<lparr>route_type := ROUTE_DEFAULT\<rparr>)
        | Some r \<Rightarrow> decide_rule m p r))"
  by (cases "table_name p"; cases "stmt_type p")
    (simp_all add: router_decide_def is_local_def is_default_def find_rule_map_ok [OF assms]
      decide_rule_def Let_def split: option.splits)

lemma map_ok_find:
  assumes "map_ok m" "find (\<lambda>r. rule_table_name r = tn) (table_rules m) = Some r"
  shows "rule_ok m r" "tn \<noteq> None"
proof -
  have "r \<in> set (table_rules m)" "rule_table_name r = tn" using assms(2) by (auto simp: find_Some_iff)
  with assms(1) show "rule_ok m r" by (simp add: map_ok_def list_all_iff)
  with \<open>rule_table_name r = tn\<close> show "tn \<noteq> None" by (auto simp: rule_ok_def)
qed

lemma decide_rule_ok:
  assumes "rule_ok m r" "decide_rule m p r = Some (p', d)"
  shows "decision_ok d"
  using assms scatter_ok [OF assms(1), of route_zero] key_target_in [OF assms(1)]
  by (auto simp: decide_rule_def Let_def bind_eq_Some_conv decision_ok_def split: if_splits option.splits)

lemma router_decide_ok:
  assumes "map_ok m" "router_decide m p = Some (p', d)"
  shows "decision_ok d"
proof -
  have plain: "decision_ok (route_zero\<lparr>route_type := ROUTE_LOCAL\<rparr>)"
    "decision_ok (route_zero\<lparr>route_type := ROUTE_DEFAULT\<rparr>)"
    by (simp_all add: decision_ok_def route_zero_def)
  have "decision_ok d" if "find (\<lambda>r. rule_table_name r = table_name p) (table_rules m) = Some r"
      "decide_rule m p r = Some (p', d)" for r
    using decide_rule_ok [OF map_ok_find(1) [OF assms(1) that(1)] that(2)] .
  with assms plain show ?thesis
    by (auto simp: router_decide_cases [OF assms(1)] split: if_splits option.splits)
qed

lemma keyed_target:
  assumes "rule_ok m r" "shard_key_found p" "shard_key_column p = shard_column r" "shard_column r \<noteq> None"
  shows "key_target m r p =
    Some (if shard_key_is_int p then shard_of m r (word_of_int (shard_key_int p))
      else Option.bind (shard_key_str p) (\<lambda>k. shard_of m r (str_hash k)))"
  using assms
  by (auto simp: key_target_def find_by_int_shard_of find_by_str_shard_of split: option.splits)

lemma decide_rule_keyed:
  assumes "rule_ok m r" "\<not> broadcast r" "stmt_type p \<noteq> STMT_DDL" "rule_shards r \<noteq> []"
    and "shard_key_found p" "shard_key_column p = shard_column r" "shard_column r \<noteq> None" "shard_key_is_int p"
  shows "\<exists>d. decide_rule m p r = Some (p, d) \<and> route_type d = ROUTE_SINGLE \<and>
    target_shards d = [the (shard_of m r (word_of_int (shard_key_int p)))] \<and> target_count d = 1"
  using assms shard_of_member [OF assms(4), of m "word_of_int (shard_key_int p)"]
  by (auto simp: decide_rule_def keyed_target)

section \<open>Properties\<close>

text \<open>C19: Every decision names its targets consistently: a single target is a shard of the matched
  rule, a scatter goes to all the shards of the rule and to no other, a local or default decision
  has no targets.\<close>

theorem decision_targets:
  assumes "map_ok m" "router_decide m p = Some (p', d)"
  shows "decision_ok d"
  using assms by (rule router_decide_ok)

definition demo_parsed :: "StmtType \<Rightarrow> int \<Rightarrow> ParseResult" where
  "demo_parsed t k = parse_result_zero\<lparr>stmt_type := t, table_name := Some ''users'', shard_key_found := True,
     shard_key_column := Some ''user_id'', shard_key_int := k, shard_key_is_int := True\<rparr>"

lemma demo_find:
  "find (\<lambda>r. rule_table_name r = Some ''users'') (table_rules (demo_map meth)) = Some (demo_rule meth)"
  by (simp add: demo_map_def demo_rule_def)

theorem decision_targets_witness:
  "decision_ok \<lparr>route_type = ROUTE_SINGLE, target_shards = [1], target_count = 1,
     route_rule = Some (demo_rule SHARD_HASH)\<rparr>"
proof (rule decision_targets [OF demo_map_ok(1) [of SHARD_HASH]])
  have "shard_of (demo_map SHARD_HASH) (demo_rule SHARD_HASH) 7 = Some 1"
    by (simp add: shard_of_def demo_rule_def)
  then show "router_decide (demo_map SHARD_HASH) (demo_parsed STMT_SELECT 7) = Some (demo_parsed STMT_SELECT 7,
    \<lparr>route_type = ROUTE_SINGLE, target_shards = [1], target_count = 1, route_rule = Some (demo_rule SHARD_HASH)\<rparr>)"
    using keyed_target [OF demo_map_ok(2) [of SHARD_HASH], of "demo_parsed STMT_SELECT 7"]
    by (simp add: router_decide_cases [OF demo_map_ok(1)] decide_rule_def is_local_def is_default_def
        demo_find demo_parsed_def route_zero_def) (simp add: demo_rule_def)
qed



text \<open>A SELECT with an equality on a table that is sharded makes the router compare its column
  with the \<open>shard_column\<close> of the rule without a test for NULL: it faults exactly when the rule has
  no \<open>shard_column\<close>, and otherwise gives a decision.\<close>

theorem column_required:
  assumes "map_ok m" "find (\<lambda>r. rule_table_name r = table_name p) (table_rules m) = Some r"
    and "stmt_type p = STMT_SELECT" "\<not> broadcast r"
    and "shard_key_found p" "shard_key_column p \<noteq> None"
  shows "router_decide m p = None \<longleftrightarrow> shard_column r = None"
proof -
  note ok = map_ok_find(1) [OF assms(1,2)] and tn = map_ok_find(2) [OF assms(1,2)]
  have "router_decide m p = decide_rule m p r"
    using assms(2,3) tn by (auto simp: router_decide_cases [OF assms(1)] is_local_def is_default_def)
  with assms(3-6) show ?thesis
    by (cases "shard_column r")
      (auto simp: decide_rule_def key_target_def find_by_int_shard_of [OF ok] find_by_str_shard_of [OF ok]
        Let_def split: option.splits)
qed

theorem column_required_witness:
  "router_decide ((demo_map SHARD_HASH)\<lparr>table_rules := [(demo_rule SHARD_HASH)\<lparr>shard_column := None\<rparr>]\<rparr>)
     (demo_parsed STMT_SELECT 7) = None"
proof -
  let ?r = "(demo_rule SHARD_HASH)\<lparr>shard_column := None\<rparr>"
  let ?m = "(demo_map SHARD_HASH)\<lparr>table_rules := [?r]\<rparr>"
  have "map_ok ?m" by (simp add: map_ok_def rule_ok_def demo_map_def demo_rule_def)
  then show ?thesis
    using column_required [of ?m "demo_parsed STMT_SELECT 7" ?r]
    by (simp add: demo_rule_def demo_parsed_def)
qed

end
