(* ===== verification/Fe_Protocol.thy ===== *)
theory Fe_Protocol
  imports Copy_Handler Router
begin

text \<open>
  \<open>src/protocol/fe_protocol.c\<close>: the frontend protocol. Messages are cut off the front of the receive
  buffer; a query is parsed, routed and sent to one shard, to all the shards of a rule or to the
  default backend. \<open>pg\<close> is the parser of libpg_query.
\<close>

unbundle bit_operations_syntax

section \<open>Backends\<close>

definition fe_send_error :: "cstring \<Rightarrow> cstring \<Rightarrow> cstring \<Rightarrow> 'w proxy \<Rightarrow> 'w proxy option" where
  "fe_send_error severity code msg px = put_out (\<lambda>b. msg_write_error b severity code msg) px"

text \<open>The lines that queue a ReadyForQuery in a fresh message.\<close>

definition queue_ready :: "byte \<Rightarrow> 'w proxy \<Rightarrow> 'w proxy option" where
  "queue_ready txn_status px = queue_new 16 (\<lambda>msg. msg_write_ready_for_query msg txn_status) px"

definition error_ready :: "cstring \<Rightarrow> cstring \<Rightarrow> cstring \<Rightarrow> 'w proxy \<Rightarrow> 'w proxy option" where
  "error_ready severity code msg px = do { px \<leftarrow> fe_send_error severity code msg px; queue_ready TXN_IDLE px }"

text \<open>The lines that register the backend connection with epoll.\<close>

definition watch_backend :: "'w ext \<Rightarrow> 'w proxy \<Rightarrow> 'w proxy" where
  "watch_backend E px =
     (let s = px_session px;
          h = (backend_ev s)\<lparr>ev_fd := PQsocket E (backend_conn s) (px_world px), ev_callback := Some On_Backend_Readable\<rparr>;
          (h, rc, w) = event_loop_add E (HP_Backend (sess_addr s)) h {EPOLLIN} (px_world px)
      in px\<lparr>px_session := s\<lparr>backend_ev := h\<rparr>, px_world := w\<rparr>)"

definition connect_to_shard :: "'w ext \<Rightarrow> nat \<Rightarrow> 'w proxy \<Rightarrow> ('w proxy \<times> int) option" where
  "connect_to_shard E shard px = do {
     (conn, px) \<leftarrow> pool_acquire E shard px;
     if conn = None then Some (px, - 1)
     else
       let px = set_world (PQsetnonblocking E conn) px;
           px = set_session (\<lambda>s. s\<lparr>backend_conn := conn, backend_shard := Some shard\<rparr>) px
       in Some (watch_backend E px, 0)
   }"

text \<open>The lines \<open>event_loop_del; release or finish; backend_conn = NULL; backend_shard = NULL\<close>.\<close>

definition drop_backend :: "'w ext \<Rightarrow> 'w proxy \<Rightarrow> 'w proxy option" where
  "drop_backend E px = do {
     px \<leftarrow> end_backend E px;
     Some (set_session (\<lambda>s. s\<lparr>backend_shard := None\<rparr>) px)
   }"

definition connect_to_default :: "'w ext \<Rightarrow> 'w proxy \<Rightarrow> ('w proxy \<times> int) option" where
  "connect_to_default E px =
     (if backend_conn (px_session px) \<noteq> None \<and> PQstatus E (backend_conn (px_session px)) (px_world px) = CONNECTION_OK
      then Some (px, 0)
      else do {
        px \<leftarrow> (if backend_conn (px_session px) \<noteq> None then drop_backend E px else Some px);
        let (conn, w) = PQconnectdb E (sess_conninfo (px_session px)) (px_world px);
        let px = set_session (\<lambda>s. s\<lparr>backend_conn := conn\<rparr>) (px\<lparr>px_world := w\<rparr>);
        if PQstatus E conn (px_world px) \<noteq> CONNECTION_OK then
          Some (set_session (\<lambda>s. s\<lparr>backend_conn := None\<rparr>) (set_world (PQfinish E conn) px), - 1)
        else
          let px = set_world (PQsetnonblocking E conn) px;
              px = set_session (\<lambda>s. s\<lparr>backend_shard := None\<rparr>) px
          in Some (watch_backend E px, 0)
      })"

text \<open>\<open>PQsendQuery\<close> on the backend connection, and the lines after it.\<close>

definition send_query :: "'w ext \<Rightarrow> cstring \<Rightarrow> 'w proxy \<Rightarrow> 'w proxy \<times> int" where
  "send_query E sql px =
     (let conn = backend_conn (px_session px);
          (rc, w) = PQsendQuery E conn sql (px_world px)
      in if rc = 0 then (px\<lparr>px_world := w\<rparr>, - 1)
         else (set_session (\<lambda>s. s\<lparr>sess_state := SESSION_STATE_QUERY, backend_busy := True\<rparr>)
                (px\<lparr>px_world := PQflush E conn w\<rparr>), 0))"

definition execute_single :: "'w ext \<Rightarrow> cstring \<Rightarrow> nat option \<Rightarrow> 'w proxy \<Rightarrow> ('w proxy \<times> int) option" where
  "execute_single E sql shard px = do {
     px \<leftarrow> (if backend_conn (px_session px) \<noteq> None \<and> backend_shard (px_session px) \<noteq> shard
       then drop_backend E px else Some px);
     (px, rc) \<leftarrow> (if backend_conn (px_session px) = None then
         (case shard of Some i \<Rightarrow> connect_to_shard E i px | None \<Rightarrow> connect_to_default E px)
       else Some (px, 0));
     if rc < 0 then Some (px, - 1) else Some (send_query E sql px)
   }"

section \<open>Scatter\<close>

definition set_sc :: "nat \<Rightarrow> (ScatterConn \<Rightarrow> ScatterConn) \<Rightarrow> 'w proxy \<Rightarrow> 'w proxy" where
  "set_sc i f px = set_session (\<lambda>s. s\<lparr>scatter_conns := (scatter_conns s)[i := f (scatter_conns s ! i)]\<rparr>) px"

text \<open>\<open>sc->done = true; session->scatter_done++\<close>\<close>

definition sc_finished :: "nat \<Rightarrow> 'w proxy \<Rightarrow> 'w proxy" where
  "sc_finished i px = set_session (\<lambda>s. s\<lparr>scatter_done := scatter_done s + 1\<rparr>) (set_sc i (\<lambda>sc. sc\<lparr>sc_done := True\<rparr>) px)"

definition watch_scatter :: "'w ext \<Rightarrow> nat \<Rightarrow> PGconn \<Rightarrow> 'w proxy \<Rightarrow> 'w proxy" where
  "watch_scatter E i conn px =
     (let h = event_handler_zero\<lparr>ev_fd := PQsocket E conn (px_world px), ev_callback := Some On_Scatter_Readable\<rparr>;
          (h, rc, w) = event_loop_add E (HP_Scatter (sess_addr (px_session px)) i) h {EPOLLIN} (px_world px)
      in set_sc i (\<lambda>sc. sc\<lparr>sc_ev := h\<rparr>) (px\<lparr>px_world := w\<rparr>))"

text \<open>One round of the loop of \<open>execute_scatter\<close>: entry \<open>i\<close> of the array, shard \<open>k\<close>.\<close>

definition scatter_one :: "'w ext \<Rightarrow> cstring \<Rightarrow> nat \<Rightarrow> nat \<Rightarrow> 'w proxy \<Rightarrow> 'w proxy option" where
  "scatter_one E sql i k px =
     (if i < length (scatter_conns (px_session px)) then do {
        let px = set_sc i (\<lambda>_. scatter_conn_zero\<lparr>sc_shard := Some k\<rparr>) px;
        (conn, px) \<leftarrow> pool_acquire E k px;
        if conn = None then Some (sc_finished i px)
        else do {
          let px = set_sc i (\<lambda>sc. sc\<lparr>sc_conn := conn, sc_from_pool := True\<rparr>) px;
          let px = set_world (PQsetnonblocking E conn) px;
          let (rc, w) = PQsendQuery E conn sql (px_world px);
          let px = px\<lparr>px_world := w\<rparr>;
          if rc = 0 then do {
            px \<leftarrow> pool_release E k conn px;
            Some (sc_finished i (set_sc i (\<lambda>sc. sc\<lparr>sc_conn := None\<rparr>) px))
          }
          else Some (watch_scatter E i conn (set_world (PQflush E conn) px))
        }
      }
      else None)"

fun scatter_loop :: "'w ext \<Rightarrow> cstring \<Rightarrow> nat \<Rightarrow> nat \<Rightarrow> nat list \<Rightarrow> 'w proxy \<Rightarrow> 'w proxy option" where
  "scatter_loop E sql i 0 shards px = Some px"
| "scatter_loop E sql i (Suc n) [] px = None"
| "scatter_loop E sql i (Suc n) (k # shards) px = do {
     px \<leftarrow> scatter_one E sql i k px;
     scatter_loop E sql (Suc i) n shards px
   }"

definition execute_scatter :: "'w ext \<Rightarrow> cstring \<Rightarrow> nat list \<Rightarrow> int \<Rightarrow> 'w proxy \<Rightarrow> ('w proxy \<times> int) option" where
  "execute_scatter E sql shards count px =
     (if int MAX_SCATTER_SHARDS < count then Some (px, - 1)
      else do {
        let px = set_session (\<lambda>s. s\<lparr>scatter_count := count, scatter_done := 0, scatter_header_sent := False\<rparr>) px;
        px \<leftarrow> scatter_loop E sql 0 (nat count) shards px;
        if count \<le> scatter_done (px_session px) then do {
          px \<leftarrow> error_ready ''ERROR'' ''08001'' ''all scatter connections failed'' px;
          Some (set_session (\<lambda>s. s\<lparr>sess_state := SESSION_STATE_READY\<rparr>) px, 0)
        }
        else Some (set_session (\<lambda>s. s\<lparr>sess_state := SESSION_STATE_SCATTER\<rparr>) px, 0)
      })"

section \<open>Startup\<close>

definition write_startup_response :: "32 word \<Rightarrow> 32 word \<Rightarrow> MsgBuf \<Rightarrow> MsgBuf option" where
  "write_startup_response pid key buf = do {
     buf \<leftarrow> msg_write_auth_ok buf;
     buf \<leftarrow> msg_write_param_status buf ''server_version'' ''16.0 (Sharegres)'';
     buf \<leftarrow> msg_write_param_status buf ''server_encoding'' ''UTF8'';
     buf \<leftarrow> msg_write_param_status buf ''client_encoding'' ''UTF8'';
     buf \<leftarrow> msg_write_param_status buf ''is_superuser'' ''off'';
     buf \<leftarrow> msg_write_param_status buf ''DateStyle'' ''ISO, MDY'';
     buf \<leftarrow> msg_write_param_status buf ''integer_datetimes'' ''on'';
     buf \<leftarrow> msg_write_param_status buf ''standard_conforming_strings'' ''on'';
     buf \<leftarrow> msg_write_backend_key buf pid key;
     msg_write_ready_for_query buf TXN_IDLE
   }"

definition fe_send_startup_response :: "'w proxy \<Rightarrow> 'w proxy option" where
  "fe_send_startup_response px =
     put_out (write_startup_response (sess_pid (px_session px)) (secret_key (px_session px))) px"

text \<open>\<open>memmove(rb->data, rb->data + n, rb->len - n); rb->len -= n\<close>\<close>

definition rb_consume :: "nat \<Rightarrow> RecvBuf \<Rightarrow> RecvBuf option" where
  "rb_consume n rb =
     (if n \<le> rb_len rb then do {
        d \<leftarrow> mem_move n (rb_len rb - n) (rb_data rb);
        Some (rb\<lparr>rb_data := d, rb_len := rb_len rb - n\<rparr>)
      } else None)"

definition consume :: "nat \<Rightarrow> 'w proxy \<Rightarrow> 'w proxy option" where
  "consume n px = do {
     rb \<leftarrow> rb_consume n (recv_buf (px_session px));
     Some (set_session (\<lambda>s. s\<lparr>recv_buf := rb\<rparr>) px)
   }"

text \<open>The parameters of a startup message, from position \<open>pos\<close> on.\<close>

definition set_param :: "cstring \<Rightarrow> cstring \<Rightarrow> cstring option \<times> cstring option \<Rightarrow> cstring option \<times> cstring option" where
  "set_param key val = (\<lambda>(user, database).
     if key = ''user'' then (Some val, database)
     else if key = ''database'' then (user, Some val)
     else (user, database))"

function startup_params ::
    "byte list \<Rightarrow> nat \<Rightarrow> nat \<Rightarrow> cstring option \<times> cstring option \<Rightarrow> (cstring option \<times> cstring option) option" where
  "startup_params data msg_len pos ud =
     (if pos < msg_len then do {
        c \<leftarrow> mem_read pos 1 data;
        if hd c = NUL then Some ud
        else do {
          key \<leftarrow> c_str_at pos data;
          let pos = pos + length key + 1;
          if msg_len \<le> pos then Some ud
          else do {
            val \<leftarrow> c_str_at pos data;
            startup_params data msg_len (pos + length val + 1) (set_param key val ud)
          }
        }
      }
      else Some ud)"
  by pat_completeness auto
termination
  by (relation "measure (\<lambda>(data, msg_len, pos, ud). msg_len - pos)") auto

declare startup_params.simps [simp del]

text \<open>The end of \<open>handle_startup_message\<close>: the defaults of the parameters, and the answer.\<close>

definition finish_login :: "nat \<Rightarrow> cstring option \<times> cstring option \<Rightarrow> 'w proxy \<Rightarrow> ('w proxy \<times> int) option" where
  "finish_login msg_len ud px = do {
     let user = (case fst ud of None \<Rightarrow> ''unknown'' | Some u \<Rightarrow> u);
     let database = (case snd ud of None \<Rightarrow> user | Some d \<Rightarrow> d);
     let px = set_session (\<lambda>s. s\<lparr>sess_user := Some user, sess_database := Some database\<rparr>) px;
     px \<leftarrow> consume msg_len px;
     px \<leftarrow> fe_send_startup_response px;
     Some (set_session (\<lambda>s. s\<lparr>sess_state := SESSION_STATE_READY\<rparr>) px, 0)
   }"

definition handle_startup_message :: "nat \<Rightarrow> 'w proxy \<Rightarrow> ('w proxy \<times> int) option" where
  "handle_startup_message msg_len px =
     (if msg_len < 8 then Some (px, - 1)
      else do {
        let data = rb_data (recv_buf (px_session px));
        vbytes \<leftarrow> mem_read 4 4 data;
        let version = ntohl_bytes vbytes;
        if version = PG_SSL_REQUEST then do {
          px \<leftarrow> session_queue_send [CHR ''N''] px;
          px \<leftarrow> consume msg_len px;
          Some (px, 0)
        }
        else if version = PG_CANCEL_REQUEST then do {
          px \<leftarrow> consume msg_len px;
          Some (px, - 1)
        }
        else if unat (drop_bit 16 version) \<noteq> PG_PROTOCOL_MAJOR then Some (px, - 1)
        else do {
          ud \<leftarrow> startup_params data msg_len 8 (sess_user (px_session px), sess_database (px_session px));
          finish_login msg_len ud px
        }
      })"

section \<open>Queries\<close>

definition handle_query_default :: "'w ext \<Rightarrow> cstring \<Rightarrow> 'w proxy \<Rightarrow> ('w proxy \<times> int) option" where
  "handle_query_default E sql px = do {
     (px, rc) \<leftarrow> connect_to_default E px;
     if rc < 0 then do {
       px \<leftarrow> error_ready ''FATAL'' ''08001'' ''cannot connect to backend'' px;
       Some (px, 0)
     }
     else do {
       let (px, rc) = send_query E sql px;
       if rc < 0 then do {
         px \<leftarrow> error_ready ''ERROR'' ''XX000'' (PQerrorMessage E (backend_conn (px_session px)) (px_world px)) px;
         Some (px, 0)
       }
       else Some (px, 0)
     }
   }"

definition handle_query ::
    "'w ext \<Rightarrow> (cstring \<Rightarrow> PgQueryError + cstring) \<Rightarrow> cstring \<Rightarrow> 'w proxy \<Rightarrow> ('w proxy \<times> int) option" where
  "handle_query E pg sql px =
     (case px_map px of
        None \<Rightarrow> handle_query_default E sql px
      | Some m \<Rightarrow>
          if map_shard_count m = 0 then handle_query_default E sql px
          else do {
            (parsed, rc) \<leftarrow> parse_query pg sql;
            if rc < 0 then do {
              px \<leftarrow> error_ready ''ERROR'' ''42601'' ''syntax error in query'' px;
              Some (px, 0)
            }
            else do {
              (parsed, decision) \<leftarrow> router_decide m parsed;
              (case route_type decision of
                 ROUTE_SINGLE \<Rightarrow>
                   (case target_shards decision of
                      [] \<Rightarrow> None
                    | shard # _ \<Rightarrow> do {
                        (px, rc) \<leftarrow> execute_single E sql (Some shard) px;
                        if rc < 0 then do {
                          px \<leftarrow> error_ready ''ERROR'' ''08001'' ''cannot connect to shard'' px;
                          Some (px, 0)
                        }
                        else Some (px, rc)
                      })
               | ROUTE_SCATTER \<Rightarrow> execute_scatter E sql (target_shards decision) (target_count decision) px
               | ROUTE_LOCAL \<Rightarrow> do {
                   msg \<leftarrow> msg_write_command_complete (msgbuf_init 64) ''SET'';
                   px \<leftarrow> queue_msg msg px;
                   msg \<leftarrow> msg_write_ready_for_query (msgbuf_reset msg) TXN_IDLE;
                   px \<leftarrow> queue_msg msg px;
                   Some (px, 0)
                 }
               | ROUTE_DEFAULT \<Rightarrow> do {
                   (px, rc) \<leftarrow> execute_single E sql None px;
                   if rc < 0 then do {
                     px \<leftarrow> error_ready ''ERROR'' ''08001'' ''cannot connect to default backend'' px;
                     Some (px, 0)
                   }
                   else Some (px, rc)
                 })
            }
          })"

section \<open>Messages\<close>

datatype step = Return int | Continue

definition init_step :: "'w proxy \<Rightarrow> ('w proxy \<times> step) option" where
  "init_step px =
     (let rb = recv_buf (px_session px) in
      if rb_len rb < 4 then Some (px, Return 0)
      else do {
        lbytes \<leftarrow> mem_read 0 4 (rb_data rb);
        let msg_len = unat (ntohl_bytes lbytes);
        if msg_len < 4 \<or> 65535 < msg_len then Some (px, Return (- 1))
        else if rb_len rb < msg_len then Some (px, Return 0)
        else do {
          (px, rc) \<leftarrow> handle_startup_message msg_len px;
          Some (px, if rc < 0 then Return (- 1) else Continue)
        }
      })"

definition copy_in_step :: "'w ext \<Rightarrow> byte \<Rightarrow> 32 word \<Rightarrow> nat \<Rightarrow> 'w proxy \<Rightarrow> ('w proxy \<times> step) option" where
  "copy_in_step E msg_type msg_len total_len px =
     (if msg_type = MSG_COPY_DATA \<or> msg_type = MSG_COPY_DONE \<or> msg_type = MSG_COPY_FAIL then do {
        let payload = drop 5 (rb_data (recv_buf (px_session px)));
        let payload_len = unat (msg_len - 4);
        (px, rc) \<leftarrow> copy_handle_client_message E msg_type payload payload_len px;
        px \<leftarrow> consume total_len px;
        if rc < 0 then Some (px, Return (- 1))
        else Some (if rc = 1 then set_session (\<lambda>s. s\<lparr>sess_state := SESSION_STATE_QUERY\<rparr>) px else px, Continue)
      }
      else do { px \<leftarrow> consume total_len px; Some (px, Continue) })"

text \<open>The pointer to the text of a query is taken before the buffer is moved and read after it.\<close>

definition message_step ::
    "'w ext \<Rightarrow> (cstring \<Rightarrow> PgQueryError + cstring) \<Rightarrow> byte \<Rightarrow> nat \<Rightarrow> 'w proxy \<Rightarrow> ('w proxy \<times> step) option" where
  "message_step E pg msg_type total_len px =
     (if msg_type = MSG_QUERY then do {
        px \<leftarrow> consume total_len px;
        query \<leftarrow> c_str_at 5 (rb_data (recv_buf (px_session px)));
        (px, rc) \<leftarrow> handle_query E pg query px;
        Some (px, Return rc)
      }
      else if msg_type = MSG_TERMINATE then Some (px, Return (- 1))
      else do {
        px \<leftarrow> (if msg_type \<in> {MSG_PARSE, MSG_BIND, MSG_DESCRIBE, MSG_EXECUTE, MSG_SYNC, MSG_CLOSE}
          then error_ready ''ERROR'' ''0A000'' ''extended query protocol not yet supported'' px else Some px);
        px \<leftarrow> consume total_len px;
        Some (px, Continue)
      })"

text \<open>The body of the loop. \<open>1 + msg_len\<close> is computed in 32 bits and then widened.\<close>

definition process_step ::
    "'w ext \<Rightarrow> (cstring \<Rightarrow> PgQueryError + cstring) \<Rightarrow> 'w proxy \<Rightarrow> ('w proxy \<times> step) option" where
  "process_step E pg px =
     (let state = sess_state (px_session px); rb = recv_buf (px_session px) in
      if state = SESSION_STATE_INIT then init_step px
      else if state = SESSION_STATE_QUERY \<or> state = SESSION_STATE_SCATTER \<or> state = SESSION_STATE_COPY_OUT
      then Some (px, Return 0)
      else if rb_len rb < 5 then Some (px, Return 0)
      else do {
        header \<leftarrow> mem_read 0 5 (rb_data rb);
        let msg_type = hd header;
        let msg_len = ntohl_bytes (tl header);
        let total_len = unat (1 + msg_len);
        if msg_len < 4 \<or> 16 * 1024 * 1024 < total_len then Some (px, Return (- 1))
        else if rb_len rb < total_len then Some (px, Return 0)
        else if state = SESSION_STATE_COPY_IN then copy_in_step E msg_type msg_len total_len px
        else message_step E pg msg_type total_len px
      })"

partial_function (option) fe_protocol_process ::
    "'w ext \<Rightarrow> (cstring \<Rightarrow> PgQueryError + cstring) \<Rightarrow> 'w proxy \<Rightarrow> ('w proxy \<times> int) option" where
  "fe_protocol_process E pg px =
     (if rb_len (recv_buf (px_session px)) = 0 then Some (px, 0)
      else do {
        (px, st) \<leftarrow> process_step E pg px;
        (case st of Return rc \<Rightarrow> Some (px, rc) | Continue \<Rightarrow> fe_protocol_process E pg px)
      })"

end
