(* ===== verification/Session.thy ===== *)
theory Session imports Fe_Protocol begin

text \<open>
  The client session, second part (\<open>src/session/session.c\<close>): the handlers of the event loop. They
  read from the client and pass its bytes to the protocol code, read results from a backend or from
  the backends of a scatter and queue them for the client, and flush the send buffer. A loop that
  asks libpq for results may run for ever if libpq never stops giving them.
\<close>

section \<open>The client\<close>

text \<open>\<open>recv\<close> into the free part of the buffer.\<close>

definition rb_fill :: "RecvBuf \<Rightarrow> byte list \<Rightarrow> RecvBuf option" where
  "rb_fill rb d = do {
     data \<leftarrow> mem_write (rb_cap rb) (rb_len rb) d (rb_data rb);
     Some (rb\<lparr>rb_data := data, rb_len := rb_len rb + length d\<rparr>)
   }"

text \<open>\<open>if (session_send(session) < 0) session_destroy(session)\<close>\<close>

definition flush_or_destroy :: "'w ext \<Rightarrow> 'w proxy \<Rightarrow> 'w proxy option" where
  "flush_or_destroy E px = do {
     (px, rc) \<leftarrow> session_send E px;
     if rc < 0 then session_destroy E px else Some px
   }"

definition session_on_client_readable ::
    "'w ext \<Rightarrow> (cstring \<Rightarrow> PgQueryError + cstring) \<Rightarrow> ep_event set \<Rightarrow> 'w proxy \<Rightarrow> 'w proxy option" where
  "session_on_client_readable E pg events px =
     (if EPOLLERR \<in> events \<or> EPOLLHUP \<in> events then session_destroy E px
      else do {
        rb \<leftarrow> recvbuf_ensure (recv_buf (px_session px)) 4096;
        let px = set_session (\<lambda>s. s\<lparr>recv_buf := rb\<rparr>) px;
        let (r, w) = sys_recv E (client_fd (px_session px)) (rb_cap rb - rb_len rb) (px_world px);
        let px = px\<lparr>px_world := w\<rparr>;
        (case r of
           Recv_Again \<Rightarrow> Some px
         | Recv_Error \<Rightarrow> session_destroy E px
         | Received d \<Rightarrow>
             if d = [] then session_destroy E px
             else do {
               rb \<leftarrow> rb_fill rb d;
               let px = set_session (\<lambda>s. s\<lparr>recv_buf := rb\<rparr>) px;
               (px, rc) \<leftarrow> fe_protocol_process E pg px;
               if rc < 0 then session_destroy E px
               else if send_pos (px_session px) < mb_len (send_buf (px_session px)) then flush_or_destroy E px
               else Some px
             })
      })"

section \<open>One backend\<close>

text \<open>\<open>fe_send_error; session_send; session_destroy\<close>\<close>

definition backend_lost :: "'w ext \<Rightarrow> cstring \<Rightarrow> 'w proxy \<Rightarrow> 'w proxy option" where
  "backend_lost E msg px = do {
     px \<leftarrow> fe_send_error ''FATAL'' ''08006'' msg px;
     (px, rc) \<leftarrow> session_send E px;
     session_destroy E px
   }"

text \<open>The tag of a result with rows; \<open>snprintf\<close> into 128 bytes.\<close>

definition result_tag :: "PGresult \<Rightarrow> nat \<Rightarrow> cstring" where
  "result_tag res rows = take 127 (if PQcmdStatus res \<noteq> [] then PQcmdStatus res else ''SELECT '' @ nat_text rows)"

definition command_complete :: "cstring \<Rightarrow> 'w proxy \<Rightarrow> 'w proxy option" where
  "command_complete tag px = queue_new 64 (\<lambda>msg. msg_write_command_complete msg tag) px"

fun put_formats :: "nat \<Rightarrow> MsgBuf \<Rightarrow> MsgBuf option" where
  "put_formats 0 msg = Some msg"
| "put_formats (Suc n) msg = do { msg \<leftarrow> msgbuf_put_int16 msg 0; put_formats n msg }"

definition copy_response :: "byte \<Rightarrow> nat \<Rightarrow> MsgBuf \<Rightarrow> MsgBuf option" where
  "copy_response ty nfields msg = do {
     (msg, off) \<leftarrow> msg_begin msg ty;
     msg \<leftarrow> msgbuf_put_byte msg NUL;
     msg \<leftarrow> msgbuf_put_int16 msg (word_of_nat nfields);
     msg \<leftarrow> put_formats nfields msg;
     msg_end msg off
   }"

definition put_diag :: "byte \<Rightarrow> cstring option \<Rightarrow> MsgBuf \<Rightarrow> MsgBuf option" where
  "put_diag c field msg =
     (case field of
        None \<Rightarrow> Some msg
      | Some str \<Rightarrow> do { msg \<leftarrow> msgbuf_put_byte msg c; msgbuf_put_string msg str })"

definition error_response :: "PGresult \<Rightarrow> MsgBuf \<Rightarrow> MsgBuf option" where
  "error_response res msg = do {
     (msg, off) \<leftarrow> msg_begin msg MSG_ERROR_RESPONSE;
     msg \<leftarrow> put_diag (CHR ''S'') (diag_severity res) msg;
     msg \<leftarrow> put_diag (CHR ''C'') (diag_sqlstate res) msg;
     msg \<leftarrow> put_diag (CHR ''M'') (diag_primary res) msg;
     msg \<leftarrow> put_diag (CHR ''D'') (diag_detail res) msg;
     msg \<leftarrow> msgbuf_put_byte msg NUL;
     msg_end msg off
   }"

datatype results_end = Results_Done | Copy_In_Started | Copy_Out_Started

text \<open>The body of the result loop: the new state, whether the header has been sent, and \<open>Some e\<close> to
  leave the loop by a \<open>goto\<close>.\<close>

definition forward_one :: "PGresult \<Rightarrow> bool \<Rightarrow> 'w proxy \<Rightarrow> ('w proxy \<times> bool \<times> results_end option) option" where
  "forward_one res header_sent px =
     (case PQresultStatus res of
        PGRES_TUPLES_OK \<Rightarrow> do {
          (px, rows) \<leftarrow> session_forward_result res (\<not> header_sent) px;
          px \<leftarrow> command_complete (result_tag res rows) px;
          Some (px, True, None)
        }
      | PGRES_SINGLE_TUPLE \<Rightarrow> do {
          (px, rows) \<leftarrow> session_forward_result res (\<not> header_sent) px;
          Some (px, True, None)
        }
      | PGRES_COMMAND_OK \<Rightarrow> do {
          px \<leftarrow> command_complete (PQcmdStatus res) px;
          Some (px, header_sent, None)
        }
      | PGRES_COPY_IN \<Rightarrow> do {
          px \<leftarrow> queue_new 32 (copy_response MSG_COPY_IN_RESP (PQnfields res)) px;
          Some (set_session (\<lambda>s. s\<lparr>sess_state := SESSION_STATE_COPY_IN\<rparr>) px, header_sent, Some Copy_In_Started)
        }
      | PGRES_COPY_OUT \<Rightarrow> do {
          px \<leftarrow> queue_new 32 (copy_response MSG_COPY_OUT_RESP (PQnfields res)) px;
          Some (set_session (\<lambda>s. s\<lparr>sess_state := SESSION_STATE_COPY_OUT\<rparr>) px, header_sent, Some Copy_Out_Started)
        }
      | PGRES_FATAL_ERROR \<Rightarrow> do {
          px \<leftarrow> queue_new 256 (error_response res) px;
          Some (px, header_sent, None)
        }
      | _ \<Rightarrow> Some (px, header_sent, None))"

partial_function (option) backend_results :: "'w ext \<Rightarrow> bool \<Rightarrow> 'w proxy \<Rightarrow> ('w proxy \<times> results_end) option" where
  "backend_results E header_sent px =
     (let (res, w) = PQgetResult E (backend_conn (px_session px)) (px_world px);
          px = px\<lparr>px_world := w\<rparr>
      in case res of
           None \<Rightarrow> Some (px, Results_Done)
         | Some r \<Rightarrow> do {
             (px, header_sent, stop) \<leftarrow> forward_one r header_sent px;
             (case stop of Some e \<Rightarrow> Some (px, e) | None \<Rightarrow> backend_results E header_sent px)
           })"

text \<open>ReadyForQuery with the transaction state of the backend, and the release of a pool connection
  that is outside a transaction.\<close>

definition txn_char :: "PGTransactionStatusType \<Rightarrow> byte" where
  "txn_char t = (if t = PQTRANS_INTRANS then TXN_IN_TRANSACTION else if t = PQTRANS_INERROR then TXN_FAILED else TXN_IDLE)"

definition ready_release :: "'w ext \<Rightarrow> 'w proxy \<Rightarrow> 'w proxy option" where
  "ready_release E px =
     (let be_txn = PQtransactionStatus E (backend_conn (px_session px)) (px_world px) in do {
        px \<leftarrow> queue_ready (txn_char be_txn) px;
        (case backend_shard (px_session px) of
           Some i \<Rightarrow>
             if be_txn = PQTRANS_IDLE then do {
               let px = del_handler E (backend_ev (px_session px)) px;
               px \<leftarrow> pool_release E i (backend_conn (px_session px)) px;
               Some (set_session (\<lambda>s. s\<lparr>backend_conn := None, backend_shard := None\<rparr>) px)
             }
             else Some px
         | None \<Rightarrow> Some px)
      })"

definition copy_data_message :: "byte list \<Rightarrow> int \<Rightarrow> MsgBuf \<Rightarrow> MsgBuf option" where
  "copy_data_message buf nbytes msg = do {
     d \<leftarrow> mem_read 0 (nat nbytes) buf;
     msg \<leftarrow> msgbuf_put_byte msg MSG_COPY_DATA;
     msg \<leftarrow> msgbuf_put_int32 msg (word_of_int (nbytes + 4));
     msgbuf_put_bytes msg d
   }"

partial_function (option) copy_out_loop :: "'w ext \<Rightarrow> 'w proxy \<Rightarrow> ('w proxy \<times> int) option" where
  "copy_out_loop E px =
     (let ((nbytes, buf), w) = PQgetCopyData E (backend_conn (px_session px)) (px_world px);
          px = px\<lparr>px_world := w\<rparr>
      in if 0 < nbytes then do {
           px \<leftarrow> queue_new (nat nbytes + 8) (copy_data_message buf nbytes) px;
           copy_out_loop E px
         }
         else Some (px, nbytes))"

definition copy_out_read :: "'w ext \<Rightarrow> 'w proxy \<Rightarrow> 'w proxy option" where
  "copy_out_read E px = do {
     (px, nbytes) \<leftarrow> copy_out_loop E px;
     if nbytes = - 1 then do {
       px \<leftarrow> queue_new 8 (\<lambda>msg. do { msg \<leftarrow> msgbuf_put_byte msg MSG_COPY_DONE; msgbuf_put_int32 msg 4 }) px;
       let (final_res, w) = PQgetResult E (backend_conn (px_session px)) (px_world px);
       let px = px\<lparr>px_world := w\<rparr>;
       px \<leftarrow> (case final_res of
          Some r \<Rightarrow> if PQresultStatus r = PGRES_COMMAND_OK then command_complete (PQcmdStatus r) px else Some px
        | None \<Rightarrow> Some px);
       px \<leftarrow> ready_release E px;
       Some (set_session (\<lambda>s. s\<lparr>sess_state := SESSION_STATE_READY\<rparr>) px)
     }
     else Some px
   }"

definition session_on_backend_readable :: "'w ext \<Rightarrow> ep_event set \<Rightarrow> 'w proxy \<Rightarrow> 'w proxy option" where
  "session_on_backend_readable E events px =
     (if EPOLLERR \<in> events \<or> EPOLLHUP \<in> events then backend_lost E ''backend connection lost'' px
      else if backend_conn (px_session px) = None then Some px
      else
        let (ok, w) = PQconsumeInput E (backend_conn (px_session px)) (px_world px);
            px = px\<lparr>px_world := w\<rparr>
        in if ok = 0 then backend_lost E ''backend connection error'' px
           else
             let (busy, w) = PQisBusy E (backend_conn (px_session px)) (px_world px);
                 px = px\<lparr>px_world := w\<rparr>
             in if busy then Some px
                else do {
                  (px, e) \<leftarrow> backend_results E False px;
                  px \<leftarrow> (case e of
                     Results_Done \<Rightarrow> do {
                       px \<leftarrow> ready_release E px;
                       Some (set_session (\<lambda>s. s\<lparr>backend_busy := False, sess_state := SESSION_STATE_READY\<rparr>) px)
                     }
                   | Copy_In_Started \<Rightarrow> Some px
                   | Copy_Out_Started \<Rightarrow> copy_out_read E px);
                  flush_or_destroy E px
                })"

section \<open>Scatter\<close>

partial_function (option) scatter_results :: "'w ext \<Rightarrow> PGconn \<Rightarrow> 'w proxy \<Rightarrow> 'w proxy option" where
  "scatter_results E conn px =
     (let (res, w) = PQgetResult E conn (px_world px);
          px = px\<lparr>px_world := w\<rparr>
      in case res of
           None \<Rightarrow> Some px
         | Some r \<Rightarrow>
             if PQresultStatus r = PGRES_TUPLES_OK \<or> PQresultStatus r = PGRES_SINGLE_TUPLE then do {
               (px, rows) \<leftarrow> session_forward_result r (\<not> scatter_header_sent (px_session px)) px;
               scatter_results E conn (set_session (\<lambda>s. s\<lparr>scatter_header_sent := True\<rparr>) px)
             }
             else scatter_results E conn px)"

definition check_complete :: "'w ext \<Rightarrow> 'w proxy \<Rightarrow> 'w proxy option" where
  "check_complete E px =
     (if scatter_count (px_session px) \<le> scatter_done (px_session px) then do {
        px \<leftarrow> command_complete (if \<not> scatter_header_sent (px_session px) then ''SELECT 0'' else ''SELECT'') px;
        px \<leftarrow> queue_ready TXN_IDLE px;
        px \<leftarrow> session_release_scatter E px;
        flush_or_destroy E (set_session (\<lambda>s. s\<lparr>sess_state := SESSION_STATE_READY\<rparr>) px)
      }
      else Some px)"

definition session_on_scatter_readable :: "'w ext \<Rightarrow> nat \<Rightarrow> ep_event set \<Rightarrow> 'w proxy \<Rightarrow> 'w proxy option" where
  "session_on_scatter_readable E i events px =
     (if i < length (scatter_conns (px_session px)) then
        let sc = scatter_conns (px_session px) ! i in
        if EPOLLERR \<in> events \<or> EPOLLHUP \<in> events then do {
          shard \<leftarrow> sc_shard sc;
          check_complete E (sc_finished i px)
        }
        else if sc_conn sc = None then Some px
        else
          let (ok, w) = PQconsumeInput E (sc_conn sc) (px_world px);
              px = px\<lparr>px_world := w\<rparr>
          in if ok = 0 then do {
               shard \<leftarrow> sc_shard sc;
               check_complete E (sc_finished i px)
             }
             else
               let (busy, w) = PQisBusy E (sc_conn sc) (px_world px);
                   px = px\<lparr>px_world := w\<rparr>
               in if busy then Some px
                  else do {
                    px \<leftarrow> scatter_results E (sc_conn sc) px;
                    check_complete E (sc_finished i px)
                  }
      else None)"

end
