(* ===== verification/Log.thy ===== *)
theory Log
  imports Json_Tree
begin

text \<open>
  \<open>src/log.c\<close> and \<open>log.h\<close>: the levels in their order, and what a call of \<open>log_msg\<close> does: the line
  it writes to the standard error (if any) and whether it ends the process. The time stamp and the
  formatted message are arguments. The other components of the model leave logging out: it changes
  nothing they read.
\<close>

datatype LogLevel = LOG_DEBUG | LOG_INFO | LOG_WARN | LOG_ERROR | LOG_FATAL

text \<open>The numbers of the enumeration give its order.\<close>

fun level_num :: "LogLevel \<Rightarrow> nat" where
  "level_num LOG_DEBUG = 0"
| "level_num LOG_INFO = 1"
| "level_num LOG_WARN = 2"
| "level_num LOG_ERROR = 3"
| "level_num LOG_FATAL = 4"

lemma level_num_inject: "level_num a = level_num b \<Longrightarrow> a = b"
  by (cases a; cases b) simp_all

instantiation LogLevel :: linorder
begin

definition less_eq_LogLevel :: "LogLevel \<Rightarrow> LogLevel \<Rightarrow> bool" where
  "less_eq_LogLevel a b \<longleftrightarrow> level_num a \<le> level_num b"

definition less_LogLevel :: "LogLevel \<Rightarrow> LogLevel \<Rightarrow> bool" where
  "less_LogLevel a b \<longleftrightarrow> level_num a < level_num b"

instance
  by standard (auto simp: less_eq_LogLevel_def less_LogLevel_def dest: level_num_inject)

end

fun level_name :: "LogLevel \<Rightarrow> cstring" where
  "level_name LOG_DEBUG = ''DEBUG''"
| "level_name LOG_INFO = ''INFO''"
| "level_name LOG_WARN = ''WARN''"
| "level_name LOG_ERROR = ''ERROR''"
| "level_name LOG_FATAL = ''FATAL''"

text \<open>\<open>log_init\<close> sets the global level; the previous one is lost.\<close>

definition log_init :: "LogLevel \<Rightarrow> LogLevel \<Rightarrow> LogLevel" where
  "log_init level g_log_level = level"

definition log_msg ::
    "LogLevel \<Rightarrow> LogLevel \<Rightarrow> cstring \<Rightarrow> cstring \<Rightarrow> int \<Rightarrow> cstring \<Rightarrow> cstring option \<times> bool" where
  "log_msg g_log_level level timebuf file line msg =
     (if level < g_log_level then (None, False)
      else
        (Some (timebuf @ '' ['' @ level_name level @ ''] '' @ file @ '':'' @ int_text line @ '': '' @ msg @ [CHR 0x0A]),
         level = LOG_FATAL))"

lemma le_FATAL [simp]: "(l :: LogLevel) \<le> LOG_FATAL"
  by (cases l) (simp_all add: less_eq_LogLevel_def)

lemma not_FATAL_less [simp]: "\<not> LOG_FATAL < l"
  by (simp add: not_less)

text \<open>A message is written exactly when its level is at least the level set by \<open>log_init\<close>; a
  fatal message is written and ends the process at every setting, and nothing else ends it.\<close>

theorem log_threshold:
  "(fst (log_msg (log_init l g) level t f n m) \<noteq> None \<longleftrightarrow> l \<le> level) \<and>
   (snd (log_msg (log_init l g) level t f n m) \<longleftrightarrow> level = LOG_FATAL)"
  by (auto simp: log_msg_def log_init_def not_less)

end
