(* ===== verification/Config.thy ===== *)
theory Config
  imports Shard_Map Log
begin

text \<open>
  \<open>src/config.c\<close> and \<open>config.h\<close>: the configuration file. The file is its bytes (or \<open>None\<close> when it
  cannot be opened); \<open>fgets\<close> cuts it into lines of at most 1023 bytes, each line changes the state
  of the loop, and the shard map is built from the state at the end. The fixed-size arrays of the
  C code appear as the truncation that \<open>strncpy\<close> does. The functions cannot fault.
\<close>

definition MAX_SHARDS :: nat where "MAX_SHARDS = 64"
definition MAX_TABLES :: nat where "MAX_TABLES = 64"

record ShagresCfg =
  listen_addr :: cstring
  listen_port :: int
  max_clients :: int
  log_level :: LogLevel
  auth_method :: int
  default_pool_size :: int
  max_pool_size :: int
  idle_timeout :: int
  backend_conninfo :: cstring
  shard_map :: ShardMap

record TmpTableRule =
  tmp_table_name :: cstring
  tmp_shard_column :: cstring
  tmp_method :: cstring
  tmp_shard_list :: cstring
  tmp_broadcast :: bool

record load_state =
  ld_cfg :: ShagresCfg
  tmp_shards :: "Shard list"
  tmp_rules :: "TmpTableRule list"
  current_section :: cstring
  current_section_arg :: cstring

section \<open>Strings\<close>

text \<open>After the leading white space is skipped, the first character stops the second loop.\<close>

definition trim :: "cstring \<Rightarrow> cstring" where
  "trim s = rev (dropWhile isspace (rev (dropWhile isspace s)))"

definition my_strdup :: "cstring option \<Rightarrow> cstring option" where
  "my_strdup s = s"

text \<open>\<open>strncpy(dst, src, n)\<close> into an array of \<open>n + 1\<close> bytes whose last byte is zero.\<close>

definition strncpy :: "nat \<Rightarrow> cstring \<Rightarrow> cstring" where
  "strncpy n s = take n s"

text \<open>\<open>strchr\<close>, as the text before and after the character.\<close>

fun split_at :: "char \<Rightarrow> cstring \<Rightarrow> (cstring \<times> cstring) option" where
  "split_at c [] = None"
| "split_at c (x # xs) =
     (if x = c then Some ([], xs) else map_option (\<lambda>(a, b). (x # a, b)) (split_at c xs))"

text \<open>\<open>strtok\<close> with one delimiter: the maximal pieces that are not empty.\<close>

function strtok_all :: "char \<Rightarrow> cstring \<Rightarrow> cstring list" where
  "strtok_all d s =
     (case dropWhile (\<lambda>c. c = d) s of
        [] \<Rightarrow> []
      | x # xs \<Rightarrow> (x # takeWhile (\<lambda>c. c \<noteq> d) xs) # strtok_all d (dropWhile (\<lambda>c. c \<noteq> d) xs))"
  by pat_completeness auto
termination
proof (relation "measure (\<lambda>(d, s). length s)", goal_cases)
  case (2 d s x xs)
  then have "length (x # xs) \<le> length s" by (metis length_dropWhile_le)
  then show ?case using length_dropWhile_le [of "\<lambda>c. c \<noteq> d" xs] by simp
qed simp

declare strtok_all.simps [simp del]

text \<open>\<open>fgets(line, 1024, f)\<close>: up to a newline (kept), the end of the file or 1023 bytes; the line is
  then read as a C string.\<close>

fun fgets :: "nat \<Rightarrow> byte list \<Rightarrow> byte list \<times> byte list" where
  "fgets 0 f = ([], f)"
| "fgets n [] = ([], [])"
| "fgets (Suc n) (c # f) =
     (if c = CHR 0x0A then ([c], f) else case fgets n f of (l, r) \<Rightarrow> (c # l, r))"

lemma fgets_shorter: "0 < n \<Longrightarrow> f \<noteq> [] \<Longrightarrow> length (snd (fgets n f)) < length f"
proof (induction n f rule: fgets.induct)
  case (3 n c f)
  then show ?case by (cases n; cases f) (auto split: prod.splits)
qed simp_all

definition c_line :: "byte list \<Rightarrow> cstring" where
  "c_line bs = takeWhile (\<lambda>c. c \<noteq> NUL) bs"

section \<open>Loading\<close>

definition shard_map_zero :: ShardMap where
  "shard_map_zero = \<lparr>map_shards = [], map_shard_count = 0, table_rules = [], rule_count = 0, pool_size = 0\<rparr>"

definition config_default :: ShagresCfg where
  "config_default = \<lparr>listen_addr = ''0.0.0.0'', listen_port = 15432, max_clients = 1024,
     log_level = LOG_INFO, auth_method = 0, default_pool_size = 20, max_pool_size = 100,
     idle_timeout = 300, backend_conninfo = ''host=127.0.0.1 port=5432 dbname=postgres'',
     shard_map = shard_map_zero\<rparr>"

fun find_shard_index :: "Shard list \<Rightarrow> cstring \<Rightarrow> nat option" where
  "find_shard_index [] name = None"
| "find_shard_index (s # shards) name =
     (if shard_name s = Some name then Some 0 else map_option Suc (find_shard_index shards name))"

fun find_tmp_rule :: "TmpTableRule list \<Rightarrow> cstring \<Rightarrow> nat option" where
  "find_tmp_rule [] name = None"
| "find_tmp_rule (r # rules) name =
     (if tmp_table_name r = name then Some 0 else map_option Suc (find_tmp_rule rules name))"

definition section_header :: "cstring \<Rightarrow> load_state \<Rightarrow> load_state" where
  "section_header p st =
     (case split_at (CHR '']'') p of
        None \<Rightarrow> st
      | Some (before, _) \<Rightarrow>
          (let sec = tl before in
           case split_at (CHR '':'') sec of
             Some (name, arg) \<Rightarrow> st\<lparr>current_section := strncpy 127 name, current_section_arg := strncpy 127 arg\<rparr>
           | None \<Rightarrow> st\<lparr>current_section := strncpy 127 sec, current_section_arg := []\<rparr>))"

definition global_key :: "cstring \<Rightarrow> cstring \<Rightarrow> ShagresCfg \<Rightarrow> ShagresCfg" where
  "global_key key val cfg =
     (if key = ''listen_addr'' then cfg\<lparr>listen_addr := val\<rparr>
      else if key = ''listen_port'' then cfg\<lparr>listen_port := atoi val\<rparr>
      else if key = ''max_clients'' then cfg\<lparr>max_clients := atoi val\<rparr>
      else if key = ''log_level'' then
        (if val = ''debug'' then cfg\<lparr>log_level := LOG_DEBUG\<rparr>
         else if val = ''info'' then cfg\<lparr>log_level := LOG_INFO\<rparr>
         else if val = ''warn'' then cfg\<lparr>log_level := LOG_WARN\<rparr>
         else if val = ''error'' then cfg\<lparr>log_level := LOG_ERROR\<rparr>
         else cfg)
      else cfg)"

definition auth_key :: "cstring \<Rightarrow> cstring \<Rightarrow> ShagresCfg \<Rightarrow> ShagresCfg" where
  "auth_key key val cfg =
     (if key = ''method'' then (if val = ''trust'' then cfg\<lparr>auth_method := 0\<rparr> else cfg) else cfg)"

definition pool_key :: "cstring \<Rightarrow> cstring \<Rightarrow> ShagresCfg \<Rightarrow> ShagresCfg" where
  "pool_key key val cfg =
     (if key = ''default_pool_size'' then cfg\<lparr>default_pool_size := atoi val\<rparr>
      else if key = ''max_pool_size'' then cfg\<lparr>max_pool_size := atoi val\<rparr>
      else if key = ''idle_timeout'' then cfg\<lparr>idle_timeout := atoi val\<rparr>
      else cfg)"

definition backend_key :: "cstring \<Rightarrow> cstring \<Rightarrow> ShagresCfg \<Rightarrow> ShagresCfg" where
  "backend_key key val cfg = (if key = ''conninfo'' then cfg\<lparr>backend_conninfo := val\<rparr> else cfg)"

definition new_shard :: "cstring \<Rightarrow> Shard" where
  "new_shard name = \<lparr>shard_name = Some name, shard_conninfo = None, key_range_start = 0,
     key_range_end = 0, shard_pool = conn_pool_zero\<rparr>"

definition set_shard_key :: "cstring \<Rightarrow> cstring \<Rightarrow> Shard \<Rightarrow> Shard" where
  "set_shard_key key val s =
     (if key = ''conninfo'' then s\<lparr>shard_conninfo := Some val\<rparr>
      else if key = ''key_range_start'' then s\<lparr>key_range_start := strtoull val\<rparr>
      else if key = ''key_range_end'' then s\<lparr>key_range_end := strtoull val\<rparr>
      else s)"

definition shard_key :: "cstring \<Rightarrow> cstring \<Rightarrow> cstring \<Rightarrow> Shard list \<Rightarrow> Shard list" where
  "shard_key arg key val shards =
     (if MAX_SHARDS \<le> length shards then shards
      else
        let (shards, idx) =
          (case find_shard_index shards arg of
             Some i \<Rightarrow> (shards, i)
           | None \<Rightarrow> (shards @ [new_shard arg], length shards))
        in shards[idx := set_shard_key key val (shards ! idx)])"

definition new_rule :: "cstring \<Rightarrow> TmpTableRule" where
  "new_rule name = \<lparr>tmp_table_name = strncpy 127 name, tmp_shard_column = [], tmp_method = [],
     tmp_shard_list = [], tmp_broadcast = False\<rparr>"

definition set_rule_key :: "cstring \<Rightarrow> cstring \<Rightarrow> TmpTableRule \<Rightarrow> TmpTableRule" where
  "set_rule_key key val r =
     (if key = ''shard_column'' then r\<lparr>tmp_shard_column := strncpy 127 val\<rparr>
      else if key = ''method'' then r\<lparr>tmp_method := strncpy 15 val\<rparr>
      else if key = ''shards'' then r\<lparr>tmp_shard_list := strncpy 1023 val\<rparr>
      else if key = ''broadcast'' then r\<lparr>tmp_broadcast := (val = ''true'')\<rparr>
      else r)"

definition table_key :: "cstring \<Rightarrow> cstring \<Rightarrow> cstring \<Rightarrow> TmpTableRule list \<Rightarrow> TmpTableRule list" where
  "table_key arg key val rules =
     (if MAX_TABLES \<le> length rules then rules
      else
        let (rules, idx) =
          (case find_tmp_rule rules arg of
             Some i \<Rightarrow> (rules, i)
           | None \<Rightarrow> (rules @ [new_rule arg], length rules))
        in rules[idx := set_rule_key key val (rules ! idx)])"

definition key_value :: "cstring \<Rightarrow> cstring \<Rightarrow> load_state \<Rightarrow> load_state" where
  "key_value key val st =
     (let sec = current_section st; arg = current_section_arg st in
      if sec = ''global'' then st\<lparr>ld_cfg := global_key key val (ld_cfg st)\<rparr>
      else if sec = ''auth'' then st\<lparr>ld_cfg := auth_key key val (ld_cfg st)\<rparr>
      else if sec = ''pool'' then st\<lparr>ld_cfg := pool_key key val (ld_cfg st)\<rparr>
      else if sec = ''backend'' then st\<lparr>ld_cfg := backend_key key val (ld_cfg st)\<rparr>
      else if sec = ''shard'' \<and> arg \<noteq> [] then st\<lparr>tmp_shards := shard_key arg key val (tmp_shards st)\<rparr>
      else if sec = ''table'' \<and> arg \<noteq> [] then st\<lparr>tmp_rules := table_key arg key val (tmp_rules st)\<rparr>
      else st)"

definition config_line :: "cstring \<Rightarrow> load_state \<Rightarrow> load_state" where
  "config_line line st =
     (let p = trim line in
      if p = [] \<or> hd p = CHR ''#'' \<or> hd p = CHR '';'' then st
      else if hd p = CHR ''['' then section_header p st
      else
        (case split_at (CHR ''='') p of
           None \<Rightarrow> st
         | Some (k, v) \<Rightarrow> key_value (trim k) (trim v) st))"

function config_lines :: "byte list \<Rightarrow> load_state \<Rightarrow> load_state" where
  "config_lines f st =
     (if f = [] then st
      else case fgets 1023 f of (line, rest) \<Rightarrow> config_lines rest (config_line (c_line line) st))"
  by pat_completeness auto
termination
proof (relation "measure (\<lambda>(f, st). length f)")
  show "((rest, config_line (c_line line) st), f, st) \<in> measure (\<lambda>(f, st). length f)"
    if "f \<noteq> []" "(line, rest) = fgets 1023 f" for f st line rest
    using fgets_shorter [of 1023 f] that by (metis case_prod_conv in_measure snd_conv zero_less_numeral)
qed simp

declare config_lines.simps [simp del]

text \<open>The list of shards of a rule: at most as many entries as there are shards.\<close>

fun rule_targets :: "Shard list \<Rightarrow> cstring list \<Rightarrow> nat list \<Rightarrow> nat list" where
  "rule_targets shards [] acc = acc"
| "rule_targets shards (tok # toks) acc =
     (if length acc < length shards then
        (case find_shard_index shards (trim tok) of
           Some i \<Rightarrow> rule_targets shards toks (acc @ [i])
         | None \<Rightarrow> rule_targets shards toks acc)
      else acc)"

definition build_rule :: "Shard list \<Rightarrow> TmpTableRule \<Rightarrow> TableRule" where
  "build_rule shards t =
     (let targets =
        (if tmp_shard_list t \<noteq> [] \<and> shards \<noteq> [] then rule_targets shards (strtok_all (CHR '','') (tmp_shard_list t)) []
         else if tmp_broadcast t \<and> shards \<noteq> [] then [0..<length shards]
         else [])
      in \<lparr>rule_table_name = Some (tmp_table_name t),
          shard_column = my_strdup (if tmp_shard_column t \<noteq> [] then Some (tmp_shard_column t) else None),
          rule_method = (if tmp_method t = ''hash'' then SHARD_HASH else SHARD_RANGE),
          broadcast = tmp_broadcast t, rule_shard_count = int (length targets), rule_shards = targets\<rparr>)"

definition build_map :: "load_state \<Rightarrow> ShardMap" where
  "build_map st = \<lparr>map_shards = tmp_shards st, map_shard_count = int (length (tmp_shards st)),
     table_rules = map (build_rule (tmp_shards st)) (tmp_rules st),
     rule_count = int (length (tmp_rules st)), pool_size = default_pool_size (ld_cfg st)\<rparr>"

definition config_load :: "byte list option \<Rightarrow> ShagresCfg option" where
  "config_load file =
     (case file of
        None \<Rightarrow> None
      | Some f \<Rightarrow>
          (let st = config_lines f \<lparr>ld_cfg = config_default, tmp_shards = [], tmp_rules = [],
             current_section = [], current_section_arg = []\<rparr>
           in Some ((ld_cfg st)\<lparr>shard_map := build_map st\<rparr>)))"

definition config_free :: "'w ext \<Rightarrow> ShagresCfg option \<Rightarrow> 'w \<Rightarrow> 'w option" where
  "config_free E cfg w = (case cfg of None \<Rightarrow> Some w | Some c \<Rightarrow> shard_map_destroy E (shard_map c) w)"

section \<open>Trimming\<close>

lemma trim_ends: "trim s = [] \<or> (\<not> isspace (hd (trim s)) \<and> \<not> isspace (last (trim s)))"
proof -
  define t where "t = dropWhile isspace s"
  define u where "u = dropWhile isspace (rev t)"
  have u: "u = [] \<or> \<not> isspace (hd u)" unfolding u_def using hd_dropWhile [of isspace "rev t"] by blast
  have t: "t = [] \<or> \<not> isspace (hd t)" unfolding t_def using hd_dropWhile [of isspace s] by blast
  obtain w where w: "rev t = w @ u" using takeWhile_dropWhile_id unfolding u_def by metis
  then have "t = rev u @ rev w" by (metis rev_append rev_rev_ident)
  then have "u \<noteq> [] \<Longrightarrow> hd (rev u) = hd t" by simp
  with t u \<open>t = rev u @ rev w\<close> show ?thesis
    unfolding trim_def t_def [symmetric] u_def [symmetric] by (auto simp: last_rev)
qed

lemma trim_parts: "\<exists>a b. s = a @ trim s @ b \<and> list_all isspace a \<and> list_all isspace b"
proof -
  define t where "t = dropWhile isspace s"
  define a where "a = takeWhile isspace s"
  define b where "b = takeWhile isspace (rev t)"
  have s: "s = a @ t" by (simp add: a_def t_def)
  have "rev t = b @ dropWhile isspace (rev t)" by (simp add: b_def)
  then have "t = trim s @ rev b"
    unfolding trim_def t_def [symmetric] by (metis rev_append rev_rev_ident)
  moreover have "list_all isspace a" "list_all isspace b"
    by (auto simp: a_def b_def list_all_iff dest: set_takeWhileD)
  ultimately show ?thesis
    using s by (intro exI [of _ a] exI [of _ "rev b"]) (auto simp: list_all_iff)
qed

lemma trim_id:
  assumes "s = [] \<or> (\<not> isspace (hd s) \<and> \<not> isspace (last s))"
  shows "trim s = s"
  using assms dropWhile_isspace_id [of s] dropWhile_isspace_id [of "rev s"]
  by (auto simp: trim_def hd_rev)

section \<open>The invariant of the loop\<close>

definition load_ok :: "load_state \<Rightarrow> bool" where
  "load_ok st \<longleftrightarrow>
     length (tmp_shards st) \<le> MAX_SHARDS \<and> length (tmp_rules st) \<le> MAX_TABLES \<and>
     None \<notin> set (map shard_name (tmp_shards st)) \<and>
     distinct (map shard_name (tmp_shards st)) \<and> distinct (map tmp_table_name (tmp_rules st)) \<and>
     length (current_section_arg st) \<le> 127"

lemma find_shard_index_Some:
  "find_shard_index shards name = Some i \<Longrightarrow> i < length shards \<and> shard_name (shards ! i) = Some name"
  by (induction shards arbitrary: i) (auto split: if_splits)

lemma find_shard_index_None:
  "find_shard_index shards name = None \<longleftrightarrow> Some name \<notin> set (map shard_name shards)"
  by (induction shards) auto

lemma find_tmp_rule_Some:
  "find_tmp_rule rules name = Some i \<Longrightarrow> i < length rules \<and> tmp_table_name (rules ! i) = name"
  by (induction rules arbitrary: i) (auto split: if_splits)

lemma find_tmp_rule_None:
  "find_tmp_rule rules name = None \<longleftrightarrow> name \<notin> set (map tmp_table_name rules)"
  by (induction rules) auto

lemma set_key_names [simp]:
  "shard_name (set_shard_key key val s) = shard_name s"
  "tmp_table_name (set_rule_key key val r) = tmp_table_name r"
  by (simp_all add: set_shard_key_def set_rule_key_def)

lemma map_update_same: "i < length xs \<Longrightarrow> f y = f (xs ! i) \<Longrightarrow> map f (xs[i := y]) = map f xs"
  by (metis list_update_id map_update)

lemma shard_key_names:
  "map shard_name (shard_key arg key val shards) =
     (if MAX_SHARDS \<le> length shards \<or> find_shard_index shards arg \<noteq> None then map shard_name shards
      else map shard_name shards @ [Some arg])"
  using find_shard_index_Some [of shards arg]
  by (auto simp: shard_key_def map_update_same new_shard_def split: option.splits)

lemma table_key_names:
  assumes "length arg \<le> 127"
  shows "map tmp_table_name (table_key arg key val rules) =
     (if MAX_TABLES \<le> length rules \<or> find_tmp_rule rules arg \<noteq> None then map tmp_table_name rules
      else map tmp_table_name rules @ [arg])"
  using find_tmp_rule_Some [of rules arg] assms
  by (auto simp: table_key_def map_update_same new_rule_def strncpy_def split: option.splits)

lemma shard_key_ok:
  assumes "length shards \<le> MAX_SHARDS" "None \<notin> set (map shard_name shards)" "distinct (map shard_name shards)"
  shows "length (shard_key arg key val shards) \<le> MAX_SHARDS \<and>
    None \<notin> set (map shard_name (shard_key arg key val shards)) \<and>
    distinct (map shard_name (shard_key arg key val shards))"
proof -
  have "length (shard_key arg key val shards) = length (map shard_name (shard_key arg key val shards))" by simp
  with assms find_shard_index_None [of shards arg] show ?thesis
    by (simp add: shard_key_names del: set_map length_map) auto
qed

lemma table_key_ok:
  assumes "length arg \<le> 127" "length rules \<le> MAX_TABLES" "distinct (map tmp_table_name rules)"
  shows "length (table_key arg key val rules) \<le> MAX_TABLES \<and>
    distinct (map tmp_table_name (table_key arg key val rules))"
proof -
  have "length (table_key arg key val rules) = length (map tmp_table_name (table_key arg key val rules))" by simp
  with assms find_tmp_rule_None [of rules arg] show ?thesis
    by (simp add: table_key_names [OF assms(1)] del: set_map length_map) auto
qed

lemma config_line_ok: "load_ok st \<Longrightarrow> load_ok (config_line line st)"
proof -
  assume ok: "load_ok st"
  then have "load_ok (section_header p st)" for p
    by (auto simp: section_header_def load_ok_def strncpy_def Let_def split: option.splits)
  moreover have "load_ok (key_value key val st)" for key val
    using ok shard_key_ok [of "tmp_shards st" "current_section_arg st" key val]
      table_key_ok [of "current_section_arg st" "tmp_rules st" key val]
    by (simp add: key_value_def load_ok_def Let_def del: set_map)
  ultimately show "load_ok (config_line line st)"
    using ok by (auto simp: config_line_def Let_def split: option.splits)
qed

lemma config_lines_ok: "load_ok st \<Longrightarrow> load_ok (config_lines f st)"
proof (induction f st rule: config_lines.induct)
  case (1 f st)
  then show ?case
    by (subst config_lines.simps) (simp split: prod.splits add: config_line_ok)
qed

lemma rule_targets_ok:
  "list_all (\<lambda>i. i < length shards) acc \<Longrightarrow> length acc \<le> length shards \<Longrightarrow>
    list_all (\<lambda>i. i < length shards) (rule_targets shards toks acc) \<and>
    length (rule_targets shards toks acc) \<le> length shards"
  by (induction shards toks acc rule: rule_targets.induct)
    (auto split: option.splits dest: find_shard_index_Some)

lemma build_rule_ok:
  assumes "length shards \<le> MAX_SHARDS"
  shows "list_all (\<lambda>i. i < length shards) (rule_shards (build_rule shards t))"
    and "length (rule_shards (build_rule shards t)) \<le> length shards"
    and "rule_shard_count (build_rule shards t) = int (length (rule_shards (build_rule shards t)))"
    and "rule_table_name (build_rule shards t) = Some (tmp_table_name t)"
  using rule_targets_ok [of shards "[]"]
  by (simp_all add: build_rule_def Let_def list_all_iff)

lemma build_map_ok:
  assumes "load_ok st"
  shows "map_ok (build_map st)"
proof -
  have "rule_ok (build_map st) (build_rule (tmp_shards st) t)" for t
    using build_rule_ok [of "tmp_shards st" t] assms
    by (auto simp: rule_ok_def build_map_def load_ok_def MAX_SHARDS_def)
  then show ?thesis by (auto simp: map_ok_def build_map_def list_all_iff)
qed

lemma load_ok_init:
  "load_ok \<lparr>ld_cfg = config_default, tmp_shards = [], tmp_rules = [], current_section = [], current_section_arg = []\<rparr>"
  by (simp add: load_ok_def)

lemma config_loadE:
  assumes "config_load (Some f) = Some cfg"
  obtains st where "load_ok st" "cfg = (ld_cfg st)\<lparr>shard_map := build_map st\<rparr>"
  using assms config_lines_ok [OF load_ok_init, of f] by (auto simp: config_load_def Let_def)

section \<open>Reading back a written file\<close>

lemma fgets_line:
  "CHR 0x0A \<notin> set l \<Longrightarrow> length l < n \<Longrightarrow> fgets n (l @ CHR 0x0A # rest) = (l @ [CHR 0x0A], rest)"
proof (induction l arbitrary: n)
  case Nil
  then show ?case by (cases n) simp_all
next
  case (Cons c l)
  then show ?case by (cases n) auto
qed

text \<open>A line of the file that is short enough, as one step of the loop.\<close>

definition line_ok :: "cstring \<Rightarrow> bool" where
  "line_ok l \<longleftrightarrow> CHR 0x0A \<notin> set l \<and> NUL \<notin> set l \<and> length l < 1023"

lemma config_lines_line:
  assumes "line_ok l"
  shows "config_lines (l @ CHR 0x0A # rest) st = config_lines rest (config_line (l @ [CHR 0x0A]) st)"
proof -
  have "c_line (l @ [CHR 0x0A]) = l @ [CHR 0x0A]"
    using assms unfolding c_line_def line_ok_def by (subst takeWhile_eq_all_conv) auto
  then show ?thesis
    using assms by (subst config_lines.simps) (simp add: line_ok_def fgets_line)
qed

lemma trim_newline: "trim (l @ [CHR 0x0A]) = trim l"
proof -
  have nl: "isspace (CHR 0x0A)" by (simp add: isspace_def)
  show ?thesis
  proof (cases "list_all isspace l")
    case True
    then have d: "dropWhile isspace l = []" "dropWhile isspace (l @ [CHR 0x0A]) = []"
      using nl by (auto simp: list_all_iff dropWhile_eq_Nil_conv dest: set_dropWhileD)
    show ?thesis unfolding trim_def d ..
  next
    case False
    then have "dropWhile isspace (l @ [CHR 0x0A]) = dropWhile isspace l @ [CHR 0x0A]"
      by (auto simp: list_all_iff dropWhile_append)
    with nl show ?thesis by (simp add: trim_def)
  qed
qed

lemma split_at_first: "c \<notin> set a \<Longrightarrow> split_at c (a @ c # b) = Some (a, b)"
  by (induction a) auto

definition word_ok :: "cstring \<Rightarrow> bool" where
  "word_ok v \<longleftrightarrow> v \<noteq> [] \<and> \<not> isspace (hd v) \<and> \<not> isspace (last v)"

lemma word_ok_trim: "word_ok v \<Longrightarrow> trim v = v"
  by (rule trim_id) (simp add: word_ok_def)

lemma trim_spaced: "word_ok v \<Longrightarrow> trim (v @ '' '') = v" "word_ok v \<Longrightarrow> trim (CHR '' '' # v) = v"
proof -
  have sp: "isspace (CHR '' '')" by (simp add: isspace_def)
  show "trim (v @ '' '') = v" if v: "word_ok v"
  proof -
    have "dropWhile isspace (v @ '' '') = v @ '' ''"
      using v by (cases v) (auto simp: word_ok_def)
    moreover have "dropWhile isspace (rev v) = rev v"
      using v by (intro dropWhile_isspace_id) (simp add: word_ok_def hd_rev)
    ultimately show ?thesis using sp by (simp add: trim_def)
  qed
  show "trim (CHR '' '' # v) = v" if v: "word_ok v"
    using word_ok_trim [OF v] sp by (simp add: trim_def)
qed

lemma config_line_key:
  assumes "word_ok key" "CHR ''='' \<notin> set key" "hd key \<notin> {CHR ''#'', CHR '';'', CHR ''[''}" "word_ok val"
  shows "config_line ((key @ '' = '' @ val) @ [CHR 0x0A]) st = key_value key val st"
proof -
  have "word_ok (key @ '' = '' @ val)" using assms(1,4) by (auto simp: word_ok_def)
  then have p: "trim ((key @ '' = '' @ val) @ [CHR 0x0A]) = key @ '' = '' @ val"
    by (simp only: trim_newline word_ok_trim)
  have "split_at (CHR ''='') (key @ '' = '' @ val) = Some (key @ '' '', CHR '' '' # val)"
    using split_at_first [of "CHR ''=''" "key @ '' ''" "CHR '' '' # val"] assms(2) by simp
  moreover have "hd (key @ '' = '' @ val) = hd key" "key @ '' = '' @ val \<noteq> []"
    using assms(1) by (auto simp: word_ok_def)
  ultimately show ?thesis
    unfolding config_line_def p using assms trim_spaced by (simp add: Let_def)
qed

lemma config_line_section:
  assumes "CHR '']'' \<notin> set name" "length name \<le> 127"
  shows "config_line ((''[shard:'' @ name @ '']'') @ [CHR 0x0A]) st =
    st\<lparr>current_section := ''shard'', current_section_arg := name\<rparr>"
proof -
  let ?l = "''[shard:'' @ name @ '']''"
  have "word_ok ?l" by (simp add: word_ok_def isspace_def)
  then have p: "trim (?l @ [CHR 0x0A]) = ?l" by (simp only: trim_newline word_ok_trim)
  have "split_at (CHR '']'') ?l = Some (''[shard:'' @ name, [])"
    using split_at_first [of "CHR '']''" "''[shard:'' @ name" "[]"] assms(1) by simp
  moreover have "split_at (CHR '':'') (''shard:'' @ name) = Some (''shard'', name)"
    using split_at_first [of "CHR '':''" "''shard''" name] by simp
  ultimately show ?thesis
    unfolding config_line_def p using assms(2) by (simp add: section_header_def strncpy_def)
qed

lemma shard_key_new:
  "length shards < 63 \<Longrightarrow> find_shard_index shards name = None \<Longrightarrow>
    shard_key name key val shards = shards @ [set_shard_key key val (new_shard name)]"
  by (simp add: shard_key_def MAX_SHARDS_def)

lemma find_shard_index_last:
  "find_shard_index shards name = None \<Longrightarrow> shard_name s = Some name \<Longrightarrow>
    find_shard_index (shards @ [s]) name = Some (length shards)"
  by (induction shards) auto

lemma shard_key_old:
  assumes "length shards < 63" "find_shard_index shards name = None" "shard_name s = Some name"
  shows "shard_key name key val (shards @ [s]) = shards @ [set_shard_key key val s]"
  using assms find_shard_index_last [OF assms(2,3)] by (simp add: shard_key_def MAX_SHARDS_def)

text \<open>A shard as an administrator writes it.\<close>

record shard_spec =
  sp_name :: cstring
  sp_conninfo :: cstring
  sp_lo :: nat
  sp_hi :: nat

definition spec_ok :: "shard_spec \<Rightarrow> bool" where
  "spec_ok sp \<longleftrightarrow> sp_name sp \<noteq> [] \<and> length (sp_name sp) \<le> 127 \<and> CHR '']'' \<notin> set (sp_name sp) \<and>
     CHR 0x0A \<notin> set (sp_name sp) \<and> NUL \<notin> set (sp_name sp) \<and>
     word_ok (sp_conninfo sp) \<and> CHR 0x0A \<notin> set (sp_conninfo sp) \<and> NUL \<notin> set (sp_conninfo sp) \<and>
     length (sp_conninfo sp) \<le> 1000 \<and> sp_lo sp < 2 ^ 64 \<and> sp_hi sp < 2 ^ 64"

definition shard_text :: "shard_spec \<Rightarrow> byte list" where
  "shard_text sp =
     (''[shard:'' @ sp_name sp @ '']'') @ CHR 0x0A #
     (''conninfo = '' @ sp_conninfo sp) @ CHR 0x0A #
     (''key_range_start = '' @ nat_text (sp_lo sp)) @ CHR 0x0A #
     (''key_range_end = '' @ nat_text (sp_hi sp)) @ [CHR 0x0A]"

definition spec_shard :: "shard_spec \<Rightarrow> Shard" where
  "spec_shard sp = \<lparr>shard_name = Some (sp_name sp), shard_conninfo = Some (sp_conninfo sp),
     key_range_start = word_of_nat (sp_lo sp), key_range_end = word_of_nat (sp_hi sp), shard_pool = conn_pool_zero\<rparr>"

lemma length_nat_text: "n < 10 ^ Suc k \<Longrightarrow> length (nat_text n) \<le> Suc k"
proof (induction k arbitrary: n)
  case 0
  then show ?case by (subst nat_text.simps) simp
next
  case (Suc k)
  have "n div 10 < 10 ^ Suc k" using Suc.prems by (simp add: less_mult_imp_div_less)
  from Suc.IH [OF this] show ?case by (subst nat_text.simps) simp
qed

lemma nat_text_word_ok: "word_ok (nat_text n)"
proof -
  have "list_all isdigit (nat_text n)" "nat_text n \<noteq> []"
    using nat_text_digits nat_text_first [of n] by auto
  then have "isdigit (hd (nat_text n))" "isdigit (last (nat_text n))"
    by (simp_all add: list_all_iff)
  with \<open>nat_text n \<noteq> []\<close> show ?thesis by (simp add: word_ok_def isdigit_not_sign)
qed

lemma nat_text_line_ok:
  assumes "n < 2 ^ 64"
  shows "CHR 0x0A \<notin> set (nat_text n)" "NUL \<notin> set (nat_text n)" "length (nat_text n) \<le> 20"
proof -
  show "CHR 0x0A \<notin> set (nat_text n)" "NUL \<notin> set (nat_text n)"
    using nat_text_digits [of n] by (auto simp: list_all_iff isdigit_def)
  show "length (nat_text n) \<le> 20"
    using length_nat_text [of n 19] assms by simp
qed

lemma strtoull_nat_text: "n < 2 ^ 64 \<Longrightarrow> strtoull (nat_text n) = word_of_nat n"
proof -
  obtain c cs where c: "nat_text n = c # cs" "isdigit c" using nat_text_first by blast
  with isdigit_not_sign [OF c(2)] digits_val_nat_text [of n]
  have "strto_parts (nat_text n) = (False, n)" by (simp add: strto_parts_def)
  then show "n < 2 ^ 64 \<Longrightarrow> strtoull (nat_text n) = word_of_nat n" by (simp add: strtoull_def)
qed

lemma key_value_shard:
  assumes "current_section st = ''shard''" "current_section_arg st = name" "name \<noteq> []"
  shows "key_value key val st = st\<lparr>tmp_shards := shard_key name key val (tmp_shards st)\<rparr>"
  using assms by (simp add: key_value_def)

lemma shard_keys_text:
  assumes "spec_ok sp" "current_section st = ''shard''" "current_section_arg st = sp_name sp"
    and "length (tmp_shards st) < 63" "find_shard_index (tmp_shards st) (sp_name sp) = None"
  shows "key_value ''key_range_end'' (nat_text (sp_hi sp))
      (key_value ''key_range_start'' (nat_text (sp_lo sp)) (key_value ''conninfo'' (sp_conninfo sp) st)) =
    st\<lparr>tmp_shards := tmp_shards st @ [spec_shard sp]\<rparr>"
proof -
  have ne: "sp_name sp \<noteq> []" and lt: "sp_lo sp < 2 ^ 64" "sp_hi sp < 2 ^ 64"
    using assms(1) by (simp_all add: spec_ok_def)
  show ?thesis
    using assms(2-5) ne strtoull_nat_text [OF lt(1)] strtoull_nat_text [OF lt(2)]
    by (simp add: key_value_shard shard_key_new shard_key_old set_shard_key_def new_shard_def spec_shard_def)
qed

lemma shard_text_step:
  assumes "spec_ok sp" "length (tmp_shards st) < 63" "find_shard_index (tmp_shards st) (sp_name sp) = None"
  shows "config_lines (shard_text sp @ rest) st =
    config_lines rest (st\<lparr>current_section := ''shard'', current_section_arg := sp_name sp,
      tmp_shards := tmp_shards st @ [spec_shard sp]\<rparr>)"
proof -
  let ?st = "st\<lparr>current_section := ''shard'', current_section_arg := sp_name sp\<rparr>"
  have lines: "line_ok (''[shard:'' @ sp_name sp @ '']'')" "line_ok (''conninfo'' @ '' = '' @ sp_conninfo sp)"
    "line_ok (''key_range_start'' @ '' = '' @ nat_text (sp_lo sp))"
    "line_ok (''key_range_end'' @ '' = '' @ nat_text (sp_hi sp))"
    using assms(1) nat_text_line_ok [of "sp_lo sp"] nat_text_line_ok [of "sp_hi sp"]
    by (simp_all add: spec_ok_def line_ok_def)
  have t: "shard_text sp @ rest = (''[shard:'' @ sp_name sp @ '']'') @ CHR 0x0A #
     (''conninfo'' @ '' = '' @ sp_conninfo sp) @ CHR 0x0A #
     (''key_range_start'' @ '' = '' @ nat_text (sp_lo sp)) @ CHR 0x0A #
     (''key_range_end'' @ '' = '' @ nat_text (sp_hi sp)) @ CHR 0x0A # rest"
    by (simp add: shard_text_def)
  have "config_lines (shard_text sp @ rest) st = config_lines rest
      (config_line ((''key_range_end'' @ '' = '' @ nat_text (sp_hi sp)) @ [CHR 0x0A])
       (config_line ((''key_range_start'' @ '' = '' @ nat_text (sp_lo sp)) @ [CHR 0x0A])
        (config_line ((''conninfo'' @ '' = '' @ sp_conninfo sp) @ [CHR 0x0A])
         (config_line ((''[shard:'' @ sp_name sp @ '']'') @ [CHR 0x0A]) st))))"
    unfolding t config_lines_line [OF lines(1)] config_lines_line [OF lines(2)]
      config_lines_line [OF lines(3)] config_lines_line [OF lines(4)] ..
  also have "config_line ((''[shard:'' @ sp_name sp @ '']'') @ [CHR 0x0A]) st = ?st"
    using assms(1) by (intro config_line_section) (simp_all add: spec_ok_def)
  also have "config_line ((''conninfo'' @ '' = '' @ sp_conninfo sp) @ [CHR 0x0A]) ?st =
      key_value ''conninfo'' (sp_conninfo sp) ?st"
    using assms(1) by (intro config_line_key) (simp_all add: spec_ok_def word_ok_def isspace_def)
  also have "config_line ((''key_range_start'' @ '' = '' @ nat_text (sp_lo sp)) @ [CHR 0x0A]) s =
      key_value ''key_range_start'' (nat_text (sp_lo sp)) s" for s
    by (intro config_line_key nat_text_word_ok) (simp_all add: word_ok_def isspace_def)
  also have "config_line ((''key_range_end'' @ '' = '' @ nat_text (sp_hi sp)) @ [CHR 0x0A]) s =
      key_value ''key_range_end'' (nat_text (sp_hi sp)) s" for s
    by (intro config_line_key nat_text_word_ok) (simp_all add: word_ok_def isspace_def)
  finally show ?thesis
    using shard_keys_text [of sp ?st] assms by simp
qed

lemma shard_texts:
  "list_all spec_ok sps \<Longrightarrow> length (tmp_shards st) + length sps \<le> 63 \<Longrightarrow>
    distinct (map shard_name (tmp_shards st) @ map (\<lambda>sp. Some (sp_name sp)) sps) \<Longrightarrow>
    tmp_shards (config_lines (concat (map shard_text sps)) st) = tmp_shards st @ map spec_shard sps \<and>
    tmp_rules (config_lines (concat (map shard_text sps)) st) = tmp_rules st \<and>
    ld_cfg (config_lines (concat (map shard_text sps)) st) = ld_cfg st"
proof (induction sps arbitrary: st)
  case Nil
  then show ?case by (simp add: config_lines.simps [of "[]"])
next
  case (Cons sp sps)
  let ?st = "st\<lparr>current_section := ''shard'', current_section_arg := sp_name sp,
      tmp_shards := tmp_shards st @ [spec_shard sp]\<rparr>"
  have "find_shard_index (tmp_shards st) (sp_name sp) = None"
    using Cons.prems(3) by (auto simp: find_shard_index_None)
  then have "config_lines (concat (map shard_text (sp # sps))) st = config_lines (concat (map shard_text sps)) ?st"
    using shard_text_step [of sp st "concat (map shard_text sps)"] Cons.prems(1,2) by simp
  moreover have "distinct (map shard_name (tmp_shards ?st) @ map (\<lambda>sp. Some (sp_name sp)) sps)"
    using Cons.prems(3) by (auto simp: spec_shard_def)
  ultimately show ?case using Cons.IH [of ?st] Cons.prems(1,2) by simp
qed

section \<open>Properties\<close>

text \<open>C28: Whatever the bytes of the file are, loading it returns a shard map that satisfies the
  assumptions of the router: every count is the length of its array, every pointer of a rule is a
  shard of the map. There are at most 64 shards and 64 rules, no two with the same name, and no
  rule has more shards than there are, so a scatter never asks for more than 64 connections.\<close>

theorem config_map_ok:
  assumes "config_load (Some f) = Some cfg"
  shows "map_ok (shard_map cfg) \<and> length (map_shards (shard_map cfg)) \<le> 64 \<and>
    length (table_rules (shard_map cfg)) \<le> 64 \<and>
    distinct (map shard_name (map_shards (shard_map cfg))) \<and>
    distinct (map rule_table_name (table_rules (shard_map cfg))) \<and>
    list_all (\<lambda>r. rule_shard_count r \<le> 64) (table_rules (shard_map cfg))"
proof -
  obtain st where st: "load_ok st" "cfg = (ld_cfg st)\<lparr>shard_map := build_map st\<rparr>"
    using assms by (rule config_loadE)
  have len: "length (tmp_shards st) \<le> 64" using st(1) by (simp add: load_ok_def MAX_SHARDS_def)
  have "rule_shard_count (build_rule (tmp_shards st) t) \<le> 64" for t
    using build_rule_ok(2,3) [of "tmp_shards st" t] len by (simp add: MAX_SHARDS_def)
  moreover have names: "map rule_table_name (map (build_rule (tmp_shards st)) (tmp_rules st)) = map Some (map tmp_table_name (tmp_rules st))"
    using build_rule_ok(4) [of "tmp_shards st"] len by (simp add: MAX_SHARDS_def)
  have "distinct (map rule_table_name (map (build_rule (tmp_shards st)) (tmp_rules st)))"
    unfolding names using st(1) by (simp only: distinct_map [of Some] load_ok_def) simp
  ultimately show ?thesis
    using st build_map_ok [OF st(1)]
    by (simp add: build_map_def load_ok_def MAX_SHARDS_def MAX_TABLES_def list_all_iff)
qed

theorem config_map_ok_witness:
  "config_load (Some []) = Some (config_default\<lparr>shard_map := shard_map_zero\<lparr>pool_size := 20\<rparr>\<rparr>) \<and>
   map_ok (shard_map_zero\<lparr>pool_size := 20\<rparr>)"
proof -
  have "config_load (Some []) = Some (config_default\<lparr>shard_map := shard_map_zero\<lparr>pool_size := 20\<rparr>\<rparr>)"
    by (simp add: config_load_def config_lines.simps [of "[]"] build_map_def shard_map_zero_def
        config_default_def)
  from config_map_ok [OF this] this show ?thesis by simp
qed

text \<open>C29: Round trip: a file with up to 63 shard sections, written as an administrator writes them,
  loads as exactly these shards in this order, with the connection strings and the 64-bit ranges
  given; nothing else of the default configuration changes.\<close>

theorem shard_sections_round_trip:
  assumes "list_all spec_ok sps" "length sps \<le> 63" "distinct (map sp_name sps)"
  shows "config_load (Some (concat (map shard_text sps))) =
    Some (config_default\<lparr>shard_map := \<lparr>map_shards = map spec_shard sps, map_shard_count = int (length sps),
      table_rules = [], rule_count = 0, pool_size = 20\<rparr>\<rparr>)"
proof -
  let ?st = "\<lparr>ld_cfg = config_default, tmp_shards = [], tmp_rules = [], current_section = [], current_section_arg = []\<rparr>"
  have "distinct (map shard_name (tmp_shards ?st) @ map (\<lambda>sp. Some (sp_name sp)) sps)"
    using assms(3) by (simp add: distinct_map inj_on_def)
  from shard_texts [OF assms(1) _ this] assms(2) show ?thesis
    by (simp add: config_load_def build_map_def) (simp add: config_default_def)
qed

definition demo_spec :: shard_spec where
  "demo_spec = \<lparr>sp_name = ''s0'', sp_conninfo = ''host=a'', sp_lo = 0, sp_hi = 1000\<rparr>"

theorem shard_sections_round_trip_witness:
  "config_load (Some (shard_text demo_spec)) =
    Some (config_default\<lparr>shard_map := \<lparr>map_shards = [spec_shard demo_spec], map_shard_count = 1,
      table_rules = [], rule_count = 0, pool_size = 20\<rparr>\<rparr>)"
  using shard_sections_round_trip [of "[demo_spec]"]
  by (simp add: spec_ok_def demo_spec_def word_ok_def isspace_def)

text \<open>The 64th shard loses its settings: with 63 shards present, only the first key of a new
  section takes effect, and the following ones are dropped, although the shard exists; with fewer
  shards all of them take effect.\<close>

theorem last_shard_truncated:
  assumes "find_shard_index shards name = None" "length shards \<le> 63"
  shows "shard_key name k2 v2 (shard_key name k1 v1 shards) =
    shards @ [if length shards = 63 then set_shard_key k1 v1 (new_shard name)
      else set_shard_key k2 v2 (set_shard_key k1 v1 (new_shard name))]"
proof (cases "length shards = 63")
  case True
  with assms(1) show ?thesis
    by (simp add: shard_key_def MAX_SHARDS_def list_update_append nth_append)
next
  case False
  with assms have lt: "length shards < 63" by simp
  have "shard_name (set_shard_key k1 v1 (new_shard name)) = Some name" by (simp add: new_shard_def)
  from shard_key_old [OF lt assms(1) this] shard_key_new [OF lt assms(1)] False show ?thesis by simp
qed

theorem last_shard_truncated_witness:
  "shard_key ''last'' ''key_range_end'' ''9'' (shard_key ''last'' ''conninfo'' ''c''
      (map (\<lambda>i. new_shard (nat_text i)) [0..<63])) =
    map (\<lambda>i. new_shard (nat_text i)) [0..<63] @ [(new_shard ''last'')\<lparr>shard_conninfo := Some ''c''\<rparr>]"
proof -
  have "''last'' \<noteq> nat_text i" for i
    using nat_text_digits [of i] by (auto simp: isdigit_def dest!: sym [of "''last''"])
  then have "find_shard_index (map (\<lambda>i. new_shard (nat_text i)) [0..<63]) ''last'' = None"
    by (auto simp: find_shard_index_None new_shard_def)
  from last_shard_truncated [OF this, of "''key_range_end''" "''9''" "''conninfo''" "''c''"] show ?thesis
    by (simp add: set_shard_key_def)
qed

text \<open>Trimming removes exactly the white space at both ends: what it returns starts and ends
  with no white space (or is empty) and the argument is that text between white space.\<close>

theorem trim_exact:
  "(trim s = [] \<or> (\<not> isspace (hd (trim s)) \<and> \<not> isspace (last (trim s)))) \<and>
   (\<exists>a b. s = a @ trim s @ b \<and> list_all isspace a \<and> list_all isspace b) \<and> trim (trim s) = trim s"
  using trim_ends [of s] trim_parts [of s] trim_id [of "trim s"] by simp

end
