(* ===== verification/Sharegres_Main.thy ===== *)
theory Sharegres_Main
  imports Session Config
begin

text \<open>
  \<open>src/main.c\<close>: the command line, the start of the proxy, the listener, and the event loop running
  over all sessions. The state of the process is the list of the live sessions, each at the address of
  its structure, the shard map they share, and the outside world. A handler that epoll calls for a
  session that does not exist any more reads freed memory: the model returns \<open>None\<close>. The sequence of
  options that \<open>getopt\<close> returns is an argument; the system calls that only \<open>main.c\<close> makes are the
  fields of the record \<open>os\<close>.
\<close>

section \<open>The state\<close>

record 'w os =
  os_socket :: "'w \<Rightarrow> int \<times> 'w"
  os_setsockopt :: "int \<Rightarrow> 'w \<Rightarrow> 'w"
  os_bind :: "int \<Rightarrow> cstring \<Rightarrow> 16 word \<Rightarrow> 'w \<Rightarrow> int \<times> 'w"
  os_listen :: "int \<Rightarrow> int \<Rightarrow> 'w \<Rightarrow> int \<times> 'w"
  os_accept4 :: "int \<Rightarrow> 'w \<Rightarrow> int \<times> 'w"
  os_calloc :: "nat list \<Rightarrow> 'w \<Rightarrow> nat option \<times> 'w"
  os_getpid :: "32 word"
  os_file :: "cstring \<Rightarrow> 'w \<Rightarrow> byte list option"
  os_epoll_create :: "'w \<Rightarrow> int \<times> 'w"
  os_epoll_wait :: "int \<Rightarrow> 'w \<Rightarrow> wait_result \<times> 'w"
  os_signalled :: "'w \<Rightarrow> bool"
  os_clock :: "'w \<Rightarrow> timespec \<times> 'w"

record ListenerCtx =
  lst_ev :: EventHandler
  lst_conninfo :: "cstring option"

record 'w sys =
  sys_sessions :: "ClientSession list"
  sys_map :: ShardMap
  sys_world :: 'w

text \<open>The part of the state a session's handler works on, and its effect on the whole.\<close>

definition view :: "'w sys \<Rightarrow> ClientSession \<Rightarrow> 'w proxy" where
  "view st s = \<lparr>px_session = s, px_map = Some (sys_map st), px_world = sys_world st, px_alive = True\<rparr>"

definition find_session :: "nat \<Rightarrow> 'w sys \<Rightarrow> ClientSession option" where
  "find_session a st = find (\<lambda>s. sess_addr s = a) (sys_sessions st)"

definition put_back :: "nat \<Rightarrow> 'w proxy \<Rightarrow> 'w sys \<Rightarrow> 'w sys" where
  "put_back a px st = \<lparr>
     sys_sessions = (if px_alive px then map (\<lambda>s. if sess_addr s = a then px_session px else s) (sys_sessions st)
       else filter (\<lambda>s. sess_addr s \<noteq> a) (sys_sessions st)),
     sys_map = (case px_map px of Some m \<Rightarrow> m | None \<Rightarrow> sys_map st),
     sys_world = px_world px\<rparr>"

section \<open>The listener\<close>

text \<open>\<open>log_fatal\<close> ends the process with status 1, before the \<open>return -1\<close> behind it.\<close>

definition create_listener :: "'w os \<Rightarrow> cstring \<Rightarrow> int \<Rightarrow> 'w \<Rightarrow> int option \<times> 'w" where
  "create_listener S addr port w =
     (let (fd, w) = os_socket S w in
      if fd < 0 then (None, w)
      else
        let w = os_setsockopt S fd w;
            w = os_setsockopt S fd w;
            (rc, w) = os_bind S fd addr (word_of_int port) w
        in if rc < 0 then (None, w)
           else
             let (rc, w) = os_listen S fd 128 w
             in if rc < 0 then (None, w) else (Some fd, w))"

text \<open>The loop of \<open>on_accept\<close>. \<open>calloc\<close> is told the addresses in use: it returns another one.\<close>

partial_function (option) on_accept :: "'w ext \<Rightarrow> 'w os \<Rightarrow> ListenerCtx \<Rightarrow> 'w sys \<Rightarrow> 'w sys option" where
  "on_accept E S ctx st =
     (let (client_fd, w) = os_accept4 S (ev_fd (lst_ev ctx)) (sys_world st) in
      if client_fd < 0 then Some (st\<lparr>sys_world := w\<rparr>)
      else
        let w = os_setsockopt S client_fd w;
            (addr, w) = os_calloc S (map sess_addr (sys_sessions st)) w
        in (case session_create E addr (os_getpid S) client_fd (lst_conninfo ctx) (Some (sys_map st)) w of
              None \<Rightarrow> on_accept E S ctx (st\<lparr>sys_world := sys_close E client_fd w\<rparr>)
            | Some px \<Rightarrow>
                on_accept E S ctx (st\<lparr>sys_sessions := px_session px # sys_sessions st, sys_world := px_world px\<rparr>)))"

section \<open>Dispatch\<close>

text \<open>The session and the callback that a handler pointer leads to, with the number of the scatter
  connection; \<open>None\<close> if the memory is not that of a live session.\<close>

definition handler_at :: "handler_ptr \<Rightarrow> 'w sys \<Rightarrow> (ClientSession \<times> Callback option \<times> nat) option" where
  "handler_at ptr st =
     (case ptr of
        HP_Listener \<Rightarrow> None
      | HP_Client a \<Rightarrow> map_option (\<lambda>s. (s, ev_callback (ev_handler s), 0)) (find_session a st)
      | HP_Backend a \<Rightarrow> map_option (\<lambda>s. (s, ev_callback (backend_ev s), 0)) (find_session a st)
      | HP_Scatter a i \<Rightarrow>
          do {
            s \<leftarrow> find_session a st;
            if i < length (scatter_conns s) then Some (s, ev_callback (sc_ev (scatter_conns s ! i)), i) else None
          })"

definition call_handler ::
    "'w ext \<Rightarrow> (cstring \<Rightarrow> PgQueryError + cstring) \<Rightarrow> Callback option \<Rightarrow> nat \<Rightarrow> ep_event set \<Rightarrow> 'w proxy \<Rightarrow> 'w proxy option" where
  "call_handler E pg cb i events px =
     (case cb of
        None \<Rightarrow> Some px
      | Some On_Client_Readable \<Rightarrow> session_on_client_readable E pg events px
      | Some On_Client_Writable \<Rightarrow> session_on_client_writable E events px
      | Some On_Backend_Readable \<Rightarrow> session_on_backend_readable E events px
      | Some On_Scatter_Readable \<Rightarrow> session_on_scatter_readable E i events px
      | Some On_Accept \<Rightarrow> None)"

definition dispatch ::
    "'w ext \<Rightarrow> 'w os \<Rightarrow> (cstring \<Rightarrow> PgQueryError + cstring) \<Rightarrow> ListenerCtx \<Rightarrow> handler_ptr \<Rightarrow> ep_event set \<Rightarrow>
     'w sys \<Rightarrow> 'w sys option" where
  "dispatch E S pg ctx ptr events st =
     (if ptr = HP_Listener then
        (if ev_callback (lst_ev ctx) = Some On_Accept then on_accept E S ctx st else Some st)
      else do {
        (s, cb, i) \<leftarrow> handler_at ptr st;
        px \<leftarrow> call_handler E pg cb i events (view st s);
        Some (put_back (sess_addr s) px st)
      })"

datatype timer_cb = On_Health_Check

definition on_health_check :: "'w ext \<Rightarrow> timer_cb \<Rightarrow> 'w sys \<Rightarrow> 'w sys option" where
  "on_health_check E cb st = do {
     (m, w) \<leftarrow> health_check_all E (Some (sys_map st)) (sys_world st);
     m \<leftarrow> m;
     Some (st\<lparr>sys_map := m, sys_world := w\<rparr>)
   }"

definition on_world :: "('w \<Rightarrow> 'a \<times> 'w) \<Rightarrow> 'w sys \<Rightarrow> 'a \<times> 'w sys" where
  "on_world f st = (let (x, w) = f (sys_world st) in (x, st\<lparr>sys_world := w\<rparr>))"

section \<open>The main program\<close>

record Cli =
  cli_config_file :: "cstring option"
  cli_basedir :: "cstring option"
  cli_backend :: "cstring option"
  cli_port :: int
  cli_debug :: bool

definition cli_zero :: Cli where
  "cli_zero = \<lparr>cli_config_file = None, cli_basedir = None, cli_backend = None, cli_port = 0, cli_debug = False\<rparr>"

text \<open>The options as \<open>getopt\<close> returns them, with their arguments; \<open>Inl\<close> is the exit status.\<close>

fun parse_options :: "(char \<times> cstring) list \<Rightarrow> Cli \<Rightarrow> int + Cli" where
  "parse_options [] cli = Inr cli"
| "parse_options ((opt, arg) # opts) cli =
     (if opt = CHR ''c'' then parse_options opts (cli\<lparr>cli_config_file := Some arg\<rparr>)
      else if opt = CHR ''d'' then parse_options opts (cli\<lparr>cli_basedir := Some arg\<rparr>)
      else if opt = CHR ''l'' then parse_options opts (cli\<lparr>cli_port := atoi arg\<rparr>)
      else if opt = CHR ''b'' then parse_options opts (cli\<lparr>cli_backend := Some arg\<rparr>)
      else if opt = CHR ''D'' then parse_options opts (cli\<lparr>cli_debug := True\<rparr>)
      else if opt = CHR ''h'' then Inl 0
      else Inl 1)"

definition config_path :: "Cli \<Rightarrow> cstring" where
  "config_path cli =
     (case cli_config_file cli of
        Some f \<Rightarrow> take 1023 f
      | None \<Rightarrow> (case cli_basedir cli of Some d \<Rightarrow> take 1023 (d @ ''/sharegres.cnf'') | None \<Rightarrow> []))"

definition apply_overrides :: "Cli \<Rightarrow> ShagresCfg \<Rightarrow> ShagresCfg" where
  "apply_overrides cli cfg =
     (let cfg = (if 0 < cli_port cli then cfg\<lparr>listen_port := cli_port cli\<rparr> else cfg);
          cfg = (case cli_backend cli of Some b \<Rightarrow> cfg\<lparr>backend_conninfo := b\<rparr> | None \<Rightarrow> cfg)
      in if cli_debug cli then cfg\<lparr>log_level := LOG_DEBUG\<rparr> else cfg)"

definition load_cfg :: "'w os \<Rightarrow> Cli \<Rightarrow> 'w \<Rightarrow> ShagresCfg option" where
  "load_cfg S cli w =
     map_option (apply_overrides cli)
       (if config_path cli \<noteq> [] then config_load (os_file S (config_path cli) w) else Some config_default)"

definition init_shards :: "ShagresCfg \<Rightarrow> ShagresCfg option" where
  "init_shards cfg =
     (if 0 < map_shard_count (shard_map cfg) then do {
        (m, rc) \<leftarrow> shard_map_init (shard_map cfg);
        Some (cfg\<lparr>shard_map := m\<rparr>)
      }
      else Some cfg)"

definition listener_ctx :: "int \<Rightarrow> ShagresCfg \<Rightarrow> ListenerCtx" where
  "listener_ctx fd cfg = \<lparr>lst_ev = event_handler_zero\<lparr>ev_fd := fd, ev_callback := Some On_Accept\<rparr>,
     lst_conninfo = Some (backend_conninfo cfg)\<rparr>"

text \<open>From the listener to the running loop and the clean-up; the process then ends with status 0.\<close>

definition serve ::
    "'w ext \<Rightarrow> 'w os \<Rightarrow> (cstring \<Rightarrow> PgQueryError + cstring) \<Rightarrow> int \<Rightarrow> ShagresCfg \<Rightarrow> timer_cb EventLoop \<Rightarrow> 'w \<Rightarrow> (int \<times> 'w) option" where
  "serve E S pg fd cfg loop w = do {
     let ctx = listener_ctx fd cfg;
     let (h, rc, w) = event_loop_add E HP_Listener (lst_ev ctx) {EPOLLIN} w;
     let ctx = ctx\<lparr>lst_ev := h\<rparr>;
     let st = \<lparr>sys_sessions = [], sys_map = shard_map cfg, sys_world = w\<rparr>;
     let (tq, tid, st) =
       (if 0 < map_shard_count (shard_map cfg)
        then timer_add (on_world (os_clock S)) (loop_timers loop) 30000 On_Health_Check st
        else (loop_timers loop, 0, st));
     (loop, st) \<leftarrow> event_loop_run (\<lambda>ms. on_world (os_epoll_wait S ms)) (\<lambda>st. os_signalled S (sys_world st))
       (dispatch E S pg ctx) (on_world (os_clock S)) (on_health_check E) (loop\<lparr>loop_timers := tq\<rparr>) st;
     let w = sys_close E fd (sys_world st);
     let (loop, w) = event_loop_destroy E loop w;
     w \<leftarrow> config_free E (Some (cfg\<lparr>shard_map := sys_map st\<rparr>)) w;
     Some (0, w)
   }"

definition loop_zero :: "timer_cb EventLoop" where
  "loop_zero = \<lparr>epfd = 0, running = False, loop_timers = []\<rparr>"

definition main ::
    "'w ext \<Rightarrow> 'w os \<Rightarrow> (cstring \<Rightarrow> PgQueryError + cstring) \<Rightarrow> (char \<times> cstring) list \<Rightarrow> 'w \<Rightarrow> (int \<times> 'w) option" where
  "main E S pg opts w =
     (case parse_options opts cli_zero of
        Inl code \<Rightarrow> Some (code, w)
      | Inr cli \<Rightarrow>
          (case load_cfg S cli w of
             None \<Rightarrow> Some (1, w)
           | Some cfg \<Rightarrow> do {
               cfg \<leftarrow> init_shards cfg;
               let (epfd, w) = os_epoll_create S w;
               let (loop, rc) = event_loop_init epfd loop_zero;
               if rc < 0 then Some (1, w)
               else
                 let (fd, w) = create_listener S (listen_addr cfg) (listen_port cfg) w in
                 (case fd of
                    None \<Rightarrow> Some (1, w)
                  | Some fd \<Rightarrow> serve E S pg fd cfg loop w)
             }))"

end
