(* ===== verification/Fe_Queries.thy ===== *)
theory Fe_Queries imports Fe_Protocol begin

text \<open>
  What becomes of a query (\<open>handle_query\<close>, \<open>execute_single\<close>, \<open>execute_scatter\<close> of
  \<open>src/protocol/fe_protocol.c\<close>): how each of them moves connections between the pools and the session,
  and what the client is told. The relations \<open>same_but_backend\<close>, \<open>same_but_scatter\<close> and
  \<open>same_but_query\<close> say which part of the state a step leaves alone.
\<close>

section \<open>Lemmas on backends\<close>

text \<open>Two states that differ at most in the backend connection, the pools and the world; the state of
  the session may differ as well.\<close>

definition but_backend :: "'w proxy \<Rightarrow> ClientSession \<times> ShardMap option \<times> bool" where
  "but_backend px = ((px_session px)\<lparr>backend_conn := None, backend_ev := event_handler_zero, backend_busy := False,
     backend_shard := None, sess_state := SESSION_STATE_INIT\<rparr>, routing px, px_alive px)"

definition same_but_backend :: "'w proxy \<Rightarrow> 'w proxy \<Rightarrow> bool" where
  "same_but_backend px px' \<longleftrightarrow> but_backend px' = but_backend px"

lemma same_but_backend_refl [simp]: "same_but_backend px px"
  by (simp add: same_but_backend_def)

lemma same_but_backend_trans [trans]:
  "same_but_backend a b \<Longrightarrow> same_but_backend b c \<Longrightarrow> same_but_backend a c"
  by (simp add: same_but_backend_def)

lemma same_but_backendD:
  assumes "same_but_backend px px'"
  shows "routing px' = routing px" "px_alive px' = px_alive px"
    "sess_addr (px_session px') = sess_addr (px_session px)"
    "client_fd (px_session px') = client_fd (px_session px)"
    "ev_handler (px_session px') = ev_handler (px_session px)"
    "recv_buf (px_session px') = recv_buf (px_session px)"
    "send_buf (px_session px') = send_buf (px_session px)"
    "send_pos (px_session px') = send_pos (px_session px)"
    "scatter_conns (px_session px') = scatter_conns (px_session px)"
    "scatter_count (px_session px') = scatter_count (px_session px)"
  using assms
  by (cases "px_session px"; cases "px_session px'"; simp add: same_but_backend_def but_backend_def)+

lemma same_but_backend_queued: "same_but_backend px px' \<Longrightarrow> queued px' = queued px"
  by (simp add: queued_def same_but_backendD)

lemma watch_backend_facts:
  "same_but_backend px (watch_backend E px)"
  "px_map (watch_backend E px) = px_map px"
  "backend_conn (px_session (watch_backend E px)) = backend_conn (px_session px)"
  "backend_shard (px_session (watch_backend E px)) = backend_shard (px_session px)"
  "scatter_conns (px_session (watch_backend E px)) = scatter_conns (px_session px)"
  "scatter_count (px_session (watch_backend E px)) = scatter_count (px_session px)"
  "sess_state (px_session (watch_backend E px)) = sess_state (px_session px)"
  by (simp_all add: watch_backend_def same_but_backend_def but_backend_def routing_def Let_def case_prod_beta)

lemma watch_backend_conns [simp]: "conns_ok others (watch_backend E px) = conns_ok others px"
  by (rule conns_ok_cong) (simp_all add: watch_backend_facts)

lemma borrowed_backend:
  assumes "backend_conn s = None" "conn \<noteq> None"
  shows "(\<lambda>j. borrowed s j + others j)(i := Suc (borrowed s i + others i)) =
    (\<lambda>j. borrowed (s\<lparr>backend_conn := conn, backend_shard := Some i\<rparr>) j + others j)"
  using assms by (auto simp: borrowed_def fun_eq_iff)

lemma connect_to_shard_facts:
  assumes "null_is_bad E" "conns_ok others px" "backend_conn (px_session px) = None" "i < nshards px"
  obtains px' rc where "connect_to_shard E i px = Some (px', rc)" "conns_ok others px'" "same_but_backend px px'"
    "sess_state (px_session px') = sess_state (px_session px)"
    "rc = 0 \<and> backend_conn (px_session px') \<noteq> None \<and> backend_shard (px_session px') = Some i \<or>
     rc = - 1 \<and> backend_conn (px_session px') = None"
proof -
  let ?s = "px_session px" and ?held = "\<lambda>j. borrowed (px_session px) j + others j"
  from pool_acquire_facts [OF assms(1) conns_okD(1) [OF assms(2)] assms(4)] obtain conn m' w where
    acq: "pool_acquire E i px = Some (conn, px\<lparr>px_map := m', px_world := w\<rparr>)"
      "pools_hold (px\<lparr>px_map := m', px_world := w\<rparr>) (if conn = None then ?held else ?held(i := Suc (?held i)))"
      "routing (px\<lparr>px_map := m', px_world := w\<rparr>) = routing px" .
  let ?px = "px\<lparr>px_map := m', px_world := w\<rparr>"
  have n: "nshards ?px = nshards px" by (rule nshards_routing [OF acq(3)])
  show ?thesis
  proof (cases "conn = None")
    case True
    with acq(2) conns_okD(2-7) [OF assms(2)] n have "conns_ok others ?px"
      by (simp add: conns_ok_def Let_def)
    with True acq assms(3) show ?thesis
      by (intro that [of ?px "- 1"]) (simp_all add: connect_to_shard_def same_but_backend_def but_backend_def)
  next
    case False
    define px1 where "px1 = set_session (\<lambda>s. s\<lparr>backend_conn := conn, backend_shard := Some i\<rparr>)
      (set_world (PQsetnonblocking E conn) ?px)"
    have s1: "px_session px1 = ?s\<lparr>backend_conn := conn, backend_shard := Some i\<rparr>" and m1: "px_map px1 = m'"
      by (simp_all add: px1_def)
    have rt: "routing px1 = routing px" using acq(3) by (simp add: routing_def m1)
    have "pools_hold px1 (\<lambda>j. borrowed (px_session px1) j + others j)"
      using acq(2) False unfolding s1 borrowed_backend [OF assms(3) False, of others i, symmetric]
      by (simp add: pools_hold_def m1)
    then have "conns_ok others px1"
      using conns_okD(3-7) [OF assms(2)] assms(4) nshards_routing [OF rt]
      unfolding conns_ok_def s1 by (simp add: Let_def)
    moreover have sb: "same_but_backend px px1"
      using rt by (simp add: same_but_backend_def but_backend_def s1 px1_def)
    moreover have "connect_to_shard E i px = Some (watch_backend E px1, 0)"
      using False acq(1) by (simp add: connect_to_shard_def px1_def Let_def)
    ultimately show ?thesis
      using False same_but_backend_trans [OF sb watch_backend_facts(1)]
      by (intro that [of "watch_backend E px1" 0]) (simp_all add: watch_backend_facts s1)
  qed
qed

lemma conns_ok_no_shard:
  assumes "conns_ok others px" "backend_conn (px_session px) = None"
  shows "conns_ok others (set_session (\<lambda>s. s\<lparr>backend_shard := None\<rparr>) px)"
  using assms by (simp add: conns_ok_def Let_def borrowed_def pools_hold_def nshards_def)

lemma drop_backend_facts:
  assumes "conns_ok others px" "backend_conn (px_session px) \<noteq> None"
  obtains px' where "drop_backend E px = Some px'"
    "conns_ok others px'" "same_but_backend px px'" "backend_conn (px_session px') = None"
    "backend_shard (px_session px') = None" "sess_state (px_session px') = sess_state (px_session px)"
    "sess_conninfo (px_session px') = sess_conninfo (px_session px)"
proof -
  from end_backend_facts [OF assms] obtain px1 where
    px1: "end_backend E px = Some px1" "px_session px1 = (px_session px)\<lparr>backend_conn := None\<rparr>"
      "conns_ok others px1" "routing px1 = routing px" "px_alive px1 = px_alive px" .
  let ?px = "set_session (\<lambda>s. s\<lparr>backend_shard := None\<rparr>) px1"
  have "conns_ok others ?px" using px1(2,3) by (intro conns_ok_no_shard) simp_all
  moreover have "same_but_backend px ?px"
    using px1(2,4,5) by (simp add: same_but_backend_def but_backend_def routing_def)
  ultimately show ?thesis using px1(1,2) by (intro that [of ?px]) (simp_all add: drop_backend_def)
qed

lemma connect_new_facts:
  assumes "null_is_bad E" "conns_ok others px" "backend_conn (px_session px) = None" "PQconnectdb E ci (px_world px) = (conn, w)"
  defines "px1 \<equiv> set_session (\<lambda>s. s\<lparr>backend_conn := conn\<rparr>) (px\<lparr>px_world := w\<rparr>)"
  shows "conns_ok others (set_session (\<lambda>s. s\<lparr>backend_conn := None\<rparr>) (set_world (PQfinish E conn) px1))"
    and "conns_ok others (watch_backend E (set_session (\<lambda>s. s\<lparr>backend_shard := None\<rparr>) (set_world (PQsetnonblocking E conn) px1)))"
    and "same_but_backend px (set_session (\<lambda>s. s\<lparr>backend_conn := None\<rparr>) (set_world (PQfinish E conn) px1))"
    and "same_but_backend px (watch_backend E (set_session (\<lambda>s. s\<lparr>backend_shard := None\<rparr>) (set_world (PQsetnonblocking E conn) px1)))"
proof -
  have b: "borrowed ((px_session px)\<lparr>backend_conn := c, backend_shard := None\<rparr>) = borrowed (px_session px)" for c
    using assms(3) by (simp add: borrowed_def fun_eq_iff)
  show "conns_ok others (set_session (\<lambda>s. s\<lparr>backend_conn := None\<rparr>) (set_world (PQfinish E conn) px1))"
    using assms(2,3) by (subst conns_ok_cong [of _ px]) (simp_all add: px1_def)
  show "conns_ok others (watch_backend E (set_session (\<lambda>s. s\<lparr>backend_shard := None\<rparr>) (set_world (PQsetnonblocking E conn) px1)))"
    unfolding watch_backend_conns
    using assms(2) by (simp add: conns_ok_def Let_def px1_def b pools_hold_def nshards_def)
  show "same_but_backend px (set_session (\<lambda>s. s\<lparr>backend_conn := None\<rparr>) (set_world (PQfinish E conn) px1))"
    by (simp add: px1_def same_but_backend_def but_backend_def routing_def)
  have "same_but_backend px (set_session (\<lambda>s. s\<lparr>backend_shard := None\<rparr>) (set_world (PQsetnonblocking E conn) px1))"
    by (simp add: px1_def same_but_backend_def but_backend_def routing_def)
  from same_but_backend_trans [OF this watch_backend_facts(1)]
  show "same_but_backend px (watch_backend E (set_session (\<lambda>s. s\<lparr>backend_shard := None\<rparr>) (set_world (PQsetnonblocking E conn) px1)))" .
qed

lemma connect_to_default_facts:
  assumes "null_is_bad E" "conns_ok others px"
  obtains px' rc where "connect_to_default E px = Some (px', rc)" "conns_ok others px'" "same_but_backend px px'"
    "sess_state (px_session px') = sess_state (px_session px)"
    "rc = 0 \<and> backend_conn (px_session px') \<noteq> None \<or> rc = - 1 \<and> backend_conn (px_session px') = None"
proof (cases "backend_conn (px_session px) \<noteq> None \<and> PQstatus E (backend_conn (px_session px)) (px_world px) = CONNECTION_OK")
  case True
  with assms(2) show ?thesis by (intro that [of px 0]) (simp_all add: connect_to_default_def)
next
  case False
  obtain px1 where px1: "(if backend_conn (px_session px) \<noteq> None
        then drop_backend E px else Some px) = Some px1"
      "conns_ok others px1" "same_but_backend px px1" "backend_conn (px_session px1) = None"
      "sess_state (px_session px1) = sess_state (px_session px)"
  proof (cases "backend_conn (px_session px) = None")
    case True
    with assms(2) show ?thesis by (intro that [of px]) simp_all
  next
    case False
    from drop_backend_facts [OF assms(2) False, of E] obtain px1 where
      "drop_backend E px = Some px1"
      "conns_ok others px1" "same_but_backend px px1" "backend_conn (px_session px1) = None"
      "sess_state (px_session px1) = sess_state (px_session px)" .
    with False show ?thesis by (intro that [of px1]) simp_all
  qed
  obtain conn w where c: "PQconnectdb E (sess_conninfo (px_session px1)) (px_world px1) = (conn, w)" by fastforce
  note new = connect_new_facts [OF assms(1) px1(2,4) c]
  show ?thesis
  proof (cases "PQstatus E conn w = CONNECTION_OK")
    case True
    let ?px = "watch_backend E (set_session (\<lambda>s. s\<lparr>backend_shard := None\<rparr>) (set_world (PQsetnonblocking E conn)
      (set_session (\<lambda>s. s\<lparr>backend_conn := conn\<rparr>) (px1\<lparr>px_world := w\<rparr>))))"
    have "connect_to_default E px = Some (?px, 0)"
      using False px1(1) c True by (auto simp add: connect_to_default_def Let_def)
    with new(2) same_but_backend_trans [OF px1(3) new(4)] null_is_bad_not_None [OF assms(1) True] px1(5)
    show ?thesis by (intro that [of ?px 0]) (simp_all add: watch_backend_facts)
  next
    case bad: False
    let ?px = "set_session (\<lambda>s. s\<lparr>backend_conn := None\<rparr>) (set_world (PQfinish E conn)
      (set_session (\<lambda>s. s\<lparr>backend_conn := conn\<rparr>) (px1\<lparr>px_world := w\<rparr>)))"
    have "connect_to_default E px = Some (?px, - 1)"
      using False px1(1) c bad by (auto simp add: connect_to_default_def Let_def)
    with new(1) same_but_backend_trans [OF px1(3) new(3)] px1(5)
    show ?thesis by (intro that [of ?px "- 1"]) simp_all
  qed
qed

lemma send_query_facts:
  assumes "send_query E sql px = (px', rc)"
  shows "conns_ok others px' = conns_ok others px" "same_but_backend px px'"
    "backend_conn (px_session px') = backend_conn (px_session px)"
    "backend_shard (px_session px') = backend_shard (px_session px)"
    "rc = 0 \<and> sess_state (px_session px') = SESSION_STATE_QUERY \<or>
     rc = - 1 \<and> sess_state (px_session px') = sess_state (px_session px)"
proof -
  have m: "px_map px' = px_map px" "scatter_conns (px_session px') = scatter_conns (px_session px)"
    "scatter_count (px_session px') = scatter_count (px_session px)"
    and c: "backend_conn (px_session px') = backend_conn (px_session px)"
    "backend_shard (px_session px') = backend_shard (px_session px)"
    using assms by (auto simp: send_query_def Let_def case_prod_beta split: if_splits)
  show "backend_conn (px_session px') = backend_conn (px_session px)"
    "backend_shard (px_session px') = backend_shard (px_session px)" by (fact c)+
  show "conns_ok others px' = conns_ok others px" by (rule conns_ok_cong) (simp_all add: m c)
  show "same_but_backend px px'" 
    "rc = 0 \<and> sess_state (px_session px') = SESSION_STATE_QUERY \<or>
     rc = - 1 \<and> sess_state (px_session px') = sess_state (px_session px)"
    using assms by (auto simp: send_query_def Let_def case_prod_beta same_but_backend_def but_backend_def routing_def
        split: if_splits)
qed

lemma other_backend_facts:
  assumes "conns_ok others px"
  obtains px' where "(if backend_conn (px_session px) \<noteq> None \<and> backend_shard (px_session px) \<noteq> shard
        then drop_backend E px else Some px) = Some px'"
      "conns_ok others px'" "same_but_backend px px'"
      "backend_conn (px_session px') = None \<or> backend_shard (px_session px') = shard"
      "sess_state (px_session px') = sess_state (px_session px)"
proof (cases "backend_conn (px_session px) \<noteq> None \<and> backend_shard (px_session px) \<noteq> shard")
  case True
  then have "backend_conn (px_session px) \<noteq> None" by simp
  from drop_backend_facts [OF assms this, of E] obtain px' where
    "drop_backend E px = Some px'" "conns_ok others px'" "same_but_backend px px'"
    "backend_conn (px_session px') = None" "sess_state (px_session px') = sess_state (px_session px)" .
  with True show ?thesis by (intro that [of px']) simp_all
next
  case False
  with assms show ?thesis by (intro that [of px]) auto
qed

lemma connect_to_default_shard:
  "backend_conn (px_session px) = None \<Longrightarrow> connect_to_default E px = Some (px', rc) \<Longrightarrow> 0 \<le> rc \<Longrightarrow>
    backend_shard (px_session px') = None"
  by (auto simp: connect_to_default_def Let_def case_prod_beta watch_backend_facts split: if_splits)

lemma ensure_backend_facts:
  assumes "null_is_bad E" "conns_ok others px" "\<And>i. shard = Some i \<Longrightarrow> i < nshards px"
    and "backend_conn (px_session px) = None \<or> backend_shard (px_session px) = shard"
  obtains px' rc where "(if backend_conn (px_session px) = None then
         (case shard of Some i \<Rightarrow> connect_to_shard E i px | None \<Rightarrow> connect_to_default E px)
       else Some (px, 0)) = Some (px', rc)"
      "conns_ok others px'" "same_but_backend px px'"
      "sess_state (px_session px') = sess_state (px_session px)"
      "rc = 0 \<and> backend_conn (px_session px') \<noteq> None \<and> backend_shard (px_session px') = shard \<or> rc = - 1"
proof (cases "backend_conn (px_session px) = None")
  case False
  with assms(2,4) show ?thesis by (intro that [of px 0]) auto
next
  case True
  show ?thesis
  proof (cases shard)
    case None
    from connect_to_default_facts [OF assms(1,2)] obtain px' rc where
      "connect_to_default E px = Some (px', rc)" "conns_ok others px'" "same_but_backend px px'"
      "sess_state (px_session px') = sess_state (px_session px)"
      "rc = 0 \<and> backend_conn (px_session px') \<noteq> None \<or> rc = - 1 \<and> backend_conn (px_session px') = None" .
    with True None connect_to_default_shard [OF True, of E px' rc] show ?thesis
      by (intro that [of px' rc]) auto
  next
    case (Some i)
    with assms(3) have "i < nshards px" by simp
    from connect_to_shard_facts [OF assms(1,2) True this] obtain px' rc where
      "connect_to_shard E i px = Some (px', rc)" "conns_ok others px'" "same_but_backend px px'"
      "sess_state (px_session px') = sess_state (px_session px)"
      "rc = 0 \<and> backend_conn (px_session px') \<noteq> None \<and> backend_shard (px_session px') = Some i \<or>
       rc = - 1 \<and> backend_conn (px_session px') = None" .
    with True Some show ?thesis by (intro that [of px' rc]) auto
  qed
qed

text \<open>After a successful \<open>execute_single\<close> the query is on a connection to the shard it was meant for.\<close>

lemma execute_single_facts:
  assumes "null_is_bad E" "conns_ok others px" "\<And>i. shard = Some i \<Longrightarrow> i < nshards px"
  obtains px' rc where "execute_single E sql shard px = Some (px', rc)" "conns_ok others px'" "same_but_backend px px'"
    "rc = 0 \<and> sess_state (px_session px') = SESSION_STATE_QUERY \<and> backend_conn (px_session px') \<noteq> None \<and>
       backend_shard (px_session px') = shard \<or>
     rc = - 1 \<and> sess_state (px_session px') = sess_state (px_session px)"
proof -
  from other_backend_facts [OF assms(2)] obtain px1 where
    px1: "(if backend_conn (px_session px) \<noteq> None \<and> backend_shard (px_session px) \<noteq> shard
        then drop_backend E px else Some px) = Some px1"
      "conns_ok others px1" "same_but_backend px px1"
      "backend_conn (px_session px1) = None \<or> backend_shard (px_session px1) = shard"
      "sess_state (px_session px1) = sess_state (px_session px)" .
  have "nshards px1 = nshards px" by (rule nshards_routing [OF same_but_backendD(1) [OF px1(3)]])
  with assms(3) have n: "\<And>i. shard = Some i \<Longrightarrow> i < nshards px1" by simp
  from ensure_backend_facts [OF assms(1) px1(2) n px1(4)] obtain px2 rc where
    px2: "(if backend_conn (px_session px1) = None then
         (case shard of Some i \<Rightarrow> connect_to_shard E i px1 | None \<Rightarrow> connect_to_default E px1)
       else Some (px1, 0)) = Some (px2, rc)"
      "conns_ok others px2" "same_but_backend px1 px2"
      "sess_state (px_session px2) = sess_state (px_session px1)"
      "rc = 0 \<and> backend_conn (px_session px2) \<noteq> None \<and> backend_shard (px_session px2) = shard \<or> rc = - 1"
    by blast
  note sb2 = same_but_backend_trans [OF px1(3) px2(3)]
  obtain px3 rc3 where q: "send_query E sql px2 = (px3, rc3)" by fastforce
  note px3 = send_query_facts [OF q]
  have ex: "execute_single E sql shard px = (if rc < 0 then Some (px2, - 1) else Some (px3, rc3))"
    unfolding execute_single_def px1(1) bind.simps px2(1) by (simp add: q)
  show ?thesis
  proof (cases "rc < 0")
    case True
    with ex px1(5) px2(2,4) sb2 show ?thesis by (intro that [of px2 "- 1"]) simp_all
  next
    case False
    with ex px1(5) px2(2,4,5) px3 same_but_backend_trans [OF sb2 px3(2)] show ?thesis
      by (intro that [of px3 rc3]) auto
  qed
qed

section \<open>Lemmas on scatter\<close>

definition but_scatter :: "'w proxy \<Rightarrow> ClientSession \<times> ShardMap option \<times> bool" where
  "but_scatter px = ((px_session px)\<lparr>scatter_conns := [], scatter_count := 0, scatter_done := 0,
     scatter_header_sent := False, sess_state := SESSION_STATE_INIT\<rparr>, routing px, px_alive px)"

definition same_but_scatter :: "'w proxy \<Rightarrow> 'w proxy \<Rightarrow> bool" where
  "same_but_scatter px px' \<longleftrightarrow> but_scatter px' = but_scatter px"

lemma same_but_scatter_refl [simp]: "same_but_scatter px px"
  by (simp add: same_but_scatter_def)

lemma same_but_scatter_trans [trans]:
  "same_but_scatter a b \<Longrightarrow> same_but_scatter b c \<Longrightarrow> same_but_scatter a c"
  by (simp add: same_but_scatter_def)

lemma same_but_scatterD:
  assumes "same_but_scatter px px'"
  shows "routing px' = routing px" "px_alive px' = px_alive px"
    "sess_addr (px_session px') = sess_addr (px_session px)"
    "client_fd (px_session px') = client_fd (px_session px)"
    "ev_handler (px_session px') = ev_handler (px_session px)"
    "recv_buf (px_session px') = recv_buf (px_session px)"
    "send_buf (px_session px') = send_buf (px_session px)"
    "send_pos (px_session px') = send_pos (px_session px)"
    "backend_conn (px_session px') = backend_conn (px_session px)"
    "backend_shard (px_session px') = backend_shard (px_session px)"
  using assms
  by (cases "px_session px"; cases "px_session px'"; simp add: same_but_scatter_def but_scatter_def)+

text \<open>A new entry \<open>x\<close> in a free place of the array.\<close>

lemma borrowed_entry:
  assumes "i < length (scatter_conns s)" "sc_conn (scatter_conns s ! i) = None"
  shows "borrowed (s\<lparr>scatter_conns := (scatter_conns s)[i := x]\<rparr>) j = borrowed s j + (if takes j x then 1 else 0)"
proof -
  have "\<not> takes j (scatter_conns s ! i)" using assms(2) by (simp add: takes_def)
  with length_filter_update [OF assms(1), of "takes j" x] show ?thesis by (auto simp: borrowed_def)
qed

lemma conns_ok_entry:
  assumes "conns_ok others px" "i < nat (scatter_count (px_session px))"
    and "sc_conn (scatter_conns (px_session px) ! i) = None"
    and "px_session px' = (px_session px)\<lparr>scatter_conns := (scatter_conns (px_session px))[i := x], scatter_done := d\<rparr>"
    and "routing px' = routing px" "scatter_ok (nshards px) x"
    and "pools_hold px' (\<lambda>j. (borrowed (px_session px) j + others j) + (if takes j x then 1 else 0))"
  shows "conns_ok others px'"
proof -
  note ok = conns_okD [OF assms(1)]
  have n: "nshards px' = nshards px" by (rule nshards_routing [OF assms(5)])
  have len: "i < length (scatter_conns (px_session px))"
    using assms(2) ok(3,5) by (simp add: MAX_SCATTER_SHARDS_def)
  have "borrowed (px_session px') j = borrowed (px_session px) j + (if takes j x then 1 else 0)" for j
    using borrowed_entry [OF len assms(3), of x j] by (simp add: assms(4) borrowed_def)
  then have "(\<lambda>j. borrowed (px_session px') j + others j) =
      (\<lambda>j. (borrowed (px_session px) j + others j) + (if takes j x then 1 else 0))" by (simp add: fun_eq_iff)
  with assms(7) have "pools_hold px' (\<lambda>j. borrowed (px_session px') j + others j)" by simp
  moreover have "list_all (scatter_ok (nshards px)) ((scatter_conns (px_session px))[i := x])"
    using ok(6) assms(6) by (rule list_all_update)
  ultimately show ?thesis
    using ok assms(2) unfolding conns_ok_def by (simp add: Let_def assms(4) n)
qed

lemma set_sc_simps [simp]:
  "px_session (set_sc i f px) = (px_session px)\<lparr>scatter_conns := (scatter_conns (px_session px))[i := f (scatter_conns (px_session px) ! i)]\<rparr>"
  "px_map (set_sc i f px) = px_map px" "px_alive (set_sc i f px) = px_alive px" "px_world (set_sc i f px) = px_world px"
  by (simp_all add: set_sc_def)

lemma watch_scatter_facts:
  obtains h where "px_session (watch_scatter E i conn px) =
      (px_session px)\<lparr>scatter_conns := (scatter_conns (px_session px))[i := (scatter_conns (px_session px) ! i)\<lparr>sc_ev := h\<rparr>]\<rparr>"
    "px_map (watch_scatter E i conn px) = px_map px" "px_alive (watch_scatter E i conn px) = px_alive px"
proof -
  obtain h rc w where "event_loop_add E (HP_Scatter (sess_addr (px_session px)) i)
      (event_handler_zero\<lparr>ev_fd := PQsocket E conn (px_world px), ev_callback := Some On_Scatter_Readable\<rparr>)
      {EPOLLIN} (px_world px) = (h, rc, w)" by (rule prod_cases3)
  then have "watch_scatter E i conn px = set_sc i (\<lambda>sc. sc\<lparr>sc_ev := h\<rparr>) (px\<lparr>px_world := w\<rparr>)"
    by (simp add: watch_scatter_def)
  then show ?thesis by (intro that [of h]) simp_all
qed

text \<open>What one round puts into the entry, and how many more shards are finished after it.\<close>

definition scatter_entered :: "nat \<Rightarrow> nat \<Rightarrow> 'w proxy \<Rightarrow> 'w proxy \<Rightarrow> bool" where
  "scatter_entered i k px px' \<longleftrightarrow>
     (\<exists>x. px_session px' = (px_session px)\<lparr>scatter_conns := (scatter_conns (px_session px))[i := x],
         scatter_done := scatter_done (px_session px) + (if sc_conn x = None then 1 else 0)\<rparr> \<and>
       sc_shard x = Some k \<and> sc_done x = (sc_conn x = None)) \<and>
     px_alive px' = px_alive px \<and> routing px' = routing px"

lemma entry_facts:
  assumes "conns_ok others px" "i < nat (scatter_count (px_session px))"
    and "sc_conn (scatter_conns (px_session px) ! i) = None" "k < nshards px"
    and "px_session px' = (px_session px)\<lparr>scatter_conns := (scatter_conns (px_session px))[i := x],
      scatter_done := scatter_done (px_session px) + (if sc_conn x = None then 1 else 0)\<rparr>"
    and "sc_shard x = Some k" "sc_done x = (sc_conn x = None)" "sc_from_pool x \<or> sc_conn x = None"
    and "routing px' = routing px" "px_alive px' = px_alive px"
    and "pools_hold px' (if sc_conn x = None then \<lambda>j. borrowed (px_session px) j + others j
      else (\<lambda>j. borrowed (px_session px) j + others j)(k := Suc (borrowed (px_session px) k + others k)))"
  shows "conns_ok others px' \<and> scatter_entered i k px px'"
proof
  have "takes j x \<longleftrightarrow> sc_conn x \<noteq> None \<and> j = k" for j using assms(6,8) by (auto simp: takes_def)
  then have "(\<lambda>j. (borrowed (px_session px) j + others j) + (if takes j x then 1 else 0)) =
      (if sc_conn x = None then \<lambda>j. borrowed (px_session px) j + others j
      else (\<lambda>j. borrowed (px_session px) j + others j)(k := Suc (borrowed (px_session px) k + others k)))"
    by (simp add: fun_eq_iff)
  with assms(11) have "pools_hold px' (\<lambda>j. (borrowed (px_session px) j + others j) + (if takes j x then 1 else 0))"
    by (simp only:)
  with assms(4,6,8) show "conns_ok others px'"
    by (intro conns_ok_entry [OF assms(1,2,3,5,9)]) (auto simp: scatter_ok_def)
  show "scatter_entered i k px px'"
    unfolding scatter_entered_def using assms(5-7,9,10) by (intro conjI exI [of _ x])
qed

lemma scatter_rest_facts:
  assumes "conns_ok others px" "i < nat (scatter_count (px_session px))"
    and "sc_conn (scatter_conns (px_session px) ! i) = None" "k < nshards px"
    and "px_session px1 = (px_session px)\<lparr>scatter_conns := (scatter_conns (px_session px))[i := x]\<rparr>"
    and "x = scatter_conn_zero\<lparr>sc_shard := Some k, sc_conn := conn, sc_from_pool := True\<rparr>" "conn \<noteq> None"
    and "routing px1 = routing px" "px_alive px1 = px_alive px"
    and "pools_hold px1 ((\<lambda>j. borrowed (px_session px) j + others j)(k := Suc (borrowed (px_session px) k + others k)))"
  shows "\<exists>px'. (if (rc :: int) = 0 then do {
            px \<leftarrow> pool_release E k conn px1;
            Some (sc_finished i (set_sc i (\<lambda>sc. sc\<lparr>sc_conn := None\<rparr>) px))
          }
          else Some (watch_scatter E i conn (set_world (PQflush E conn) px1))) = Some px' \<and>
    conns_ok others px' \<and> scatter_entered i k px px'"
proof (cases "rc = 0")
  case True
  note entry = entry_facts [OF assms(1-4)]
  have len: "i < length (scatter_conns (px_session px))"
    using assms(2) conns_okD(3,5) [OF assms(1)] by (simp add: MAX_SCATTER_SHARDS_def)
  have "k < nshards px1" using assms(4) nshards_routing [OF assms(8)] by simp
  let ?held = "\<lambda>j. borrowed (px_session px) j + others j"
  have h1: "0 < (?held(k := Suc (?held k))) k"
    and h2: "(?held(k := Suc (?held k)))(k := (?held(k := Suc (?held k))) k - 1) = ?held" by auto
  from pool_release_facts [OF assms(10) \<open>k < nshards px1\<close> h1 assms(7), of E, unfolded h2] obtain m' w where
    rel: "pool_release E k conn px1 = Some (px1\<lparr>px_map := m', px_world := w\<rparr>)"
      "pools_hold (px1\<lparr>px_map := m', px_world := w\<rparr>) ?held"
      "routing (px1\<lparr>px_map := m', px_world := w\<rparr>) = routing px1" .
  let ?px' = "sc_finished i (set_sc i (\<lambda>sc. sc\<lparr>sc_conn := None\<rparr>) (px1\<lparr>px_map := m', px_world := w\<rparr>))"
  have "conns_ok others ?px' \<and> scatter_entered i k px ?px'"
  proof (rule entry [of _ "x\<lparr>sc_conn := None, sc_done := True\<rparr>"])
    show "routing ?px' = routing px" using rel(3) assms(8) by (simp add: routing_def sc_finished_def)
  qed (use rel(2) len assms(5,6,9) in \<open>simp_all add: sc_finished_def pools_hold_def\<close>)
  with True rel(1) show ?thesis by simp
next
  case False
  have len: "i < length (scatter_conns (px_session px))"
    using assms(2) conns_okD(3,5) [OF assms(1)] by (simp add: MAX_SCATTER_SHARDS_def)
  let ?px2 = "set_world (PQflush E conn) px1"
  obtain h where h: "px_session (watch_scatter E i conn ?px2) =
      (px_session ?px2)\<lparr>scatter_conns := (scatter_conns (px_session ?px2))[i := (scatter_conns (px_session ?px2) ! i)\<lparr>sc_ev := h\<rparr>]\<rparr>"
    "px_map (watch_scatter E i conn ?px2) = px_map ?px2" "px_alive (watch_scatter E i conn ?px2) = px_alive ?px2"
    by (rule watch_scatter_facts)
  have "conns_ok others (watch_scatter E i conn ?px2) \<and> scatter_entered i k px (watch_scatter E i conn ?px2)"
  proof (rule entry_facts [OF assms(1-4), of _ "x\<lparr>sc_ev := h\<rparr>"])
    show "routing (watch_scatter E i conn ?px2) = routing px" using h(2) assms(8) by (simp add: routing_def)
    show "pools_hold (watch_scatter E i conn ?px2) (if sc_conn (x\<lparr>sc_ev := h\<rparr>) = None
        then \<lambda>j. borrowed (px_session px) j + others j
        else (\<lambda>j. borrowed (px_session px) j + others j)(k := Suc (borrowed (px_session px) k + others k)))"
      using h(2) assms(6,7,10) by (simp add: pools_hold_def del: not_None_eq)
  qed (use h len assms(5,6,7,9) in \<open>simp_all add: scatter_conn_zero_def del: not_None_eq\<close>)
  with False show ?thesis by simp
qed

lemma scatter_one_facts:
  assumes "null_is_bad E" "conns_ok others px" "i < nat (scatter_count (px_session px))"
    and "sc_conn (scatter_conns (px_session px) ! i) = None" "k < nshards px"
  shows "\<exists>px'. scatter_one E sql i k px = Some px' \<and> conns_ok others px' \<and> scatter_entered i k px px'"
proof -
  note ok = conns_okD [OF assms(2)] and entry = entry_facts [OF assms(2-5)]
  let ?s = "px_session px" and ?held = "\<lambda>j. borrowed (px_session px) j + others j"
  have len: "i < length (scatter_conns ?s)" using assms(3) ok(3,5) by (simp add: MAX_SCATTER_SHARDS_def)
  define x0 where "x0 = scatter_conn_zero\<lparr>sc_shard := Some k\<rparr>"
  let ?px0 = "set_sc i (\<lambda>_. x0) px"
  have "pools_hold ?px0 ?held" "k < nshards ?px0"
    using ok(1) assms(5) by (simp_all add: pools_hold_def nshards_def)
  from pool_acquire_facts [OF assms(1) this] obtain conn m' w where
    acq: "pool_acquire E k ?px0 = Some (conn, ?px0\<lparr>px_map := m', px_world := w\<rparr>)"
      "pools_hold (?px0\<lparr>px_map := m', px_world := w\<rparr>) (if conn = None then ?held else ?held(k := Suc (?held k)))"
      "routing (?px0\<lparr>px_map := m', px_world := w\<rparr>) = routing ?px0" .
  define px1 where "px1 = ?px0\<lparr>px_map := m', px_world := w\<rparr>"
  have acq1: "pool_acquire E k ?px0 = Some (conn, px1)" using acq(1) by (simp add: px1_def)
  have s1: "px_session px1 = ?s\<lparr>scatter_conns := (scatter_conns ?s)[i := x0]\<rparr>" "px_map px1 = m'" "px_alive px1 = px_alive px"
    by (simp_all add: px1_def)
  have rt: "routing px' = routing px" if "px_map px' = m'" for px' :: "'a proxy"
    using acq(3) that by (simp add: routing_def)
  show ?thesis
  proof (cases "conn = None")
    case True
    let ?px' = "sc_finished i px1"
    have "conns_ok others ?px' \<and> scatter_entered i k px ?px'"
      using True len acq(2)
      by (intro entry [of _ "x0\<lparr>sc_done := True\<rparr>"])
        (simp_all add: sc_finished_def s1 x0_def scatter_conn_zero_def pools_hold_def rt)
    with True len acq(1) show ?thesis by (simp add: scatter_one_def px1_def x0_def)
  next
    case False
    define px2 where "px2 = set_world (PQsetnonblocking E conn) (set_sc i (\<lambda>sc. sc\<lparr>sc_conn := conn, sc_from_pool := True\<rparr>) px1)"
    obtain rc w2 where q: "PQsendQuery E conn sql (px_world px2) = (rc, w2)" by fastforce
    have held: "pools_hold px1 (?held(k := Suc (?held k)))" using acq(2) False by (simp add: px1_def)
    have "\<exists>px'. (if rc = 0 then do {
            px \<leftarrow> pool_release E k conn (px2\<lparr>px_world := w2\<rparr>);
            Some (sc_finished i (set_sc i (\<lambda>sc. sc\<lparr>sc_conn := None\<rparr>) px))
          }
          else Some (watch_scatter E i conn (set_world (PQflush E conn) (px2\<lparr>px_world := w2\<rparr>)))) = Some px' \<and>
        conns_ok others px' \<and> scatter_entered i k px px'"
      using False len held
      by (intro scatter_rest_facts [OF assms(2-5), of _ "x0\<lparr>sc_conn := conn, sc_from_pool := True\<rparr>"])
        (simp_all add: px2_def s1 x0_def pools_hold_def rt)
    moreover have "scatter_one E sql i k px = (if rc = 0 then do {
            px \<leftarrow> pool_release E k conn (px2\<lparr>px_world := w2\<rparr>);
            Some (sc_finished i (set_sc i (\<lambda>sc. sc\<lparr>sc_conn := None\<rparr>) px))
          }
          else Some (watch_scatter E i conn (set_world (PQflush E conn) (px2\<lparr>px_world := w2\<rparr>))))"
      using len False q acq1 by (simp add: scatter_one_def x0_def [symmetric] px2_def Let_def del: not_None_eq)
    ultimately show ?thesis by simp
  qed
qed

lemma scatter_entered_same: "scatter_entered i k px px' \<Longrightarrow> same_but_scatter px px'"
  by (auto simp: scatter_entered_def same_but_scatter_def but_scatter_def)

definition failed :: "ScatterConn \<Rightarrow> bool" where
  "failed sc \<longleftrightarrow> sc_conn sc = None"

lemma drop_update_hd: "i < length xs \<Longrightarrow> drop i (xs[i := x]) = x # drop (Suc i) xs"
  by (simp add: Cons_nth_drop_Suc [symmetric])

text \<open>The entries \<open>i\<close> to \<open>i + n\<close> of the array have been filled for \<open>shards\<close>.\<close>

definition scatter_filled :: "nat \<Rightarrow> nat list \<Rightarrow> 'w proxy \<Rightarrow> 'w proxy \<Rightarrow> bool" where
  "scatter_filled i shards px px' \<longleftrightarrow>
     same_but_scatter px px' \<and> sess_state (px_session px') = sess_state (px_session px) \<and>
     scatter_count (px_session px') = scatter_count (px_session px) \<and>
     scatter_header_sent (px_session px') = scatter_header_sent (px_session px) \<and>
     (\<exists>new. scatter_conns (px_session px') = take i (scatter_conns (px_session px)) @ new @
         drop (i + length shards) (scatter_conns (px_session px)) \<and>
       map sc_shard new = map Some shards \<and>
       list_all (\<lambda>sc. sc_done sc = failed sc) new \<and>
       scatter_done (px_session px') = scatter_done (px_session px) + int (length (filter failed new)))"

lemma scatter_loop_facts:
  assumes "null_is_bad E" "conns_ok others px" "i + length shards \<le> nat (scatter_count (px_session px))"
    and "list_all (\<lambda>k. k < nshards px) shards"
    and "list_all (\<lambda>sc. sc_conn sc = None) (drop i (scatter_conns (px_session px)))"
  shows "\<exists>px'. scatter_loop E sql i (length shards) shards px = Some px' \<and> conns_ok others px' \<and>
    scatter_filled i shards px px'"
  using assms(2-5)
proof (induction shards arbitrary: i px)
  case Nil
  then show ?case by (simp add: scatter_filled_def)
next
  case (Cons k shards)
  let ?L = "scatter_conns (px_session px)"
  have i: "i < nat (scatter_count (px_session px))" and len: "i < length ?L"
    using Cons.prems(2) conns_okD(3,5) [OF Cons.prems(1)] by (simp_all add: MAX_SCATTER_SHARDS_def)
  have free: "sc_conn (?L ! i) = None" "list_all (\<lambda>sc. sc_conn sc = None) (drop (Suc i) ?L)"
    using Cons.prems(4) len by (simp_all add: Cons_nth_drop_Suc [symmetric])
  from Cons.prems(3) have k: "k < nshards px" by simp
  from scatter_one_facts [OF assms(1) Cons.prems(1) i free(1) k] obtain px1 where
    px1: "scatter_one E sql i k px = Some px1" "conns_ok others px1" "scatter_entered i k px px1" by blast
  from px1(3) obtain x where x: "px_session px1 = (px_session px)\<lparr>scatter_conns := ?L[i := x],
      scatter_done := scatter_done (px_session px) + (if sc_conn x = None then 1 else 0)\<rparr>"
      "sc_shard x = Some k" "sc_done x = (sc_conn x = None)" "routing px1 = routing px"
    unfolding scatter_entered_def by (elim conjE exE) (rule that)
  have "\<exists>px'. scatter_loop E sql (Suc i) (length shards) shards px1 = Some px' \<and> conns_ok others px' \<and>
      scatter_filled (Suc i) shards px1 px'"
    using Cons.prems(2,3) free(2) nshards_routing [OF x(4)] by (intro Cons.IH [OF px1(2)]) (simp_all add: x(1))
  then obtain px2 new where px2: "scatter_loop E sql (Suc i) (length shards) shards px1 = Some px2" "conns_ok others px2"
      "same_but_scatter px1 px2" "sess_state (px_session px2) = sess_state (px_session px1)"
      "scatter_count (px_session px2) = scatter_count (px_session px1)"
      "scatter_header_sent (px_session px2) = scatter_header_sent (px_session px1)"
      "scatter_conns (px_session px2) = take (Suc i) (scatter_conns (px_session px1)) @ new @
         drop (Suc i + length shards) (scatter_conns (px_session px1))"
      "map sc_shard new = map Some shards" "list_all (\<lambda>sc. sc_done sc = failed sc) new"
      "scatter_done (px_session px2) = scatter_done (px_session px1) + int (length (filter failed new))"
    by (auto simp: scatter_filled_def)
  have "same_but_scatter px px2"
    using scatter_entered_same [OF px1(3)] px2(3) by (rule same_but_scatter_trans)
  then have "scatter_filled i (k # shards) px px2"
    unfolding scatter_filled_def using px2 x len
    by (intro conjI exI [of _ "x # new"]) (simp_all add: take_Suc_conv_app_nth failed_def)
  with px1(1) px2(1,2) show ?case by auto
qed

definition no_scatter :: "'w proxy \<Rightarrow> bool" where
  "no_scatter px \<longleftrightarrow> list_all (\<lambda>sc. sc_conn sc = None) (scatter_conns (px_session px))"

text \<open>A scatter in flight: one entry for each shard, in order; the shards that could not be reached
  are counted as done; at least one was reached.\<close>

definition scattering :: "nat list \<Rightarrow> 'w proxy \<Rightarrow> bool" where
  "scattering shards px \<longleftrightarrow>
     (let s = px_session px; entries = take (length shards) (scatter_conns s) in
      sess_state s = SESSION_STATE_SCATTER \<and> scatter_count s = int (length shards) \<and> \<not> scatter_header_sent s \<and>
      map sc_shard entries = map Some shards \<and> list_all (\<lambda>sc. sc_done sc = failed sc) entries \<and>
      scatter_done s = int (length (filter failed entries)) \<and> scatter_done s < scatter_count s)"

definition error_frames :: "cstring \<Rightarrow> cstring \<Rightarrow> cstring \<Rightarrow> byte list" where
  "error_frames sev code m = frame MSG_ERROR_RESPONSE ([CHR ''S''] @ (sev @ [NUL]) @ [CHR ''C''] @ (code @ [NUL]) @
     [CHR ''M''] @ (m @ [NUL]) @ [NUL]) @ frame MSG_READY_FOR_QUERY [TXN_IDLE]"

lemma queues_ready: "queues (queue_ready c :: 'w proxy \<Rightarrow> 'w proxy option) (frame MSG_READY_FOR_QUERY [c])"
proof -
  have "queue_ready c = (queue_new 16 (\<lambda>msg. msg_write_ready_for_query msg c) :: 'w proxy \<Rightarrow> 'w proxy option)"
    by (rule ext) (simp add: queue_ready_def)
  then show ?thesis by (simp add: queues_queue_new msg_write_appends(4))
qed

lemma queues_error_ready: "queues (error_ready sev code m :: 'w proxy \<Rightarrow> 'w proxy option) (error_frames sev code m)"
proof -
  have "error_ready sev code m = (\<lambda>px :: 'w proxy. Option.bind (put_out (\<lambda>b. msg_write_error b sev code m) px) (queue_ready TXN_IDLE))"
    by (rule ext) (simp add: error_ready_def fe_send_error_def)
  then show ?thesis
    unfolding error_frames_def by (simp only:) (intro queues_bind queues_put_out msg_write_appends(5) queues_ready)
qed

lemma conns_ok_count:
  assumes "conns_ok others px" "no_scatter px" "0 \<le> n" "n \<le> 64"
  shows "conns_ok others (set_session (\<lambda>s. s\<lparr>scatter_count := n, scatter_done := d, scatter_header_sent := h\<rparr>) px)"
  using assms
  by (auto simp: conns_ok_def Let_def borrowed_def pools_hold_def nshards_def no_scatter_def list_all_iff
      dest!: in_set_dropD)

lemma same_but_scatter_out: "same_but_scatter px px' \<Longrightarrow> same_but_scatter (set_out b px) (set_out b px')"
  by (cases "px_session px"; cases "px_session px'") (simp add: same_but_scatter_def but_scatter_def routing_def)

lemma set_out_id: "send_buf (px_session px) = b \<Longrightarrow> set_out b px = px"
  by (auto simp: set_out_def set_session_def)

lemma conns_ok_state [simp]:
  "conns_ok others (set_session (\<lambda>s. s\<lparr>sess_state := st\<rparr>) px) = conns_ok others px"
  "conns_ok others (set_out b px) = conns_ok others px"
  by (rule conns_ok_cong; simp)+

lemma all_failed:
  assumes "int (length xs) \<le> int (length (filter failed xs))"
  shows "list_all (\<lambda>sc. sc_conn sc = None) xs"
  using assms length_filter_less [of _ xs failed] by (force simp: list_all_iff failed_def)

text \<open>The session in which a scatter starts, and what the loop over the shards makes of it.\<close>

abbreviation scatter_begin :: "nat \<Rightarrow> 'w proxy \<Rightarrow> 'w proxy" where
  "scatter_begin n \<equiv> set_session (\<lambda>s. s\<lparr>scatter_count := int n, scatter_done := 0, scatter_header_sent := False\<rparr>)"

lemma scatter_started:
  assumes "null_is_bad E" "conns_ok others px" "no_scatter px" "list_all (\<lambda>k. k < nshards px) shards" "length shards \<le> MAX_SCATTER_SHARDS"
  obtains px1 new where "scatter_loop E sql 0 (length shards) shards (scatter_begin (length shards) px) = Some px1"
    "conns_ok others px1" "same_but_scatter px px1" "scatter_count (px_session px1) = int (length shards)"
    "\<not> scatter_header_sent (px_session px1)" "scatter_conns (px_session px1) = new @ drop (length shards) (scatter_conns (px_session px))"
    "map sc_shard new = map Some shards" "list_all (\<lambda>sc. sc_done sc = failed sc) new"
    "scatter_done (px_session px1) = int (length (filter failed new))" "length new = length shards"
proof -
  let ?px0 = "scatter_begin (length shards) px"
  have ok0: "conns_ok others ?px0" using assms(5) by (intro conns_ok_count assms) (simp_all add: MAX_SCATTER_SHARDS_def)
  have "nshards ?px0 = nshards px" by (simp add: nshards_def)
  with assms(3,4) obtain px1 where px1: "scatter_loop E sql 0 (length shards) shards ?px0 = Some px1"
      "conns_ok others px1" "scatter_filled 0 shards ?px0 px1"
    using scatter_loop_facts [OF assms(1) ok0, of 0 shards sql] by (auto simp: no_scatter_def)
  from px1(3) obtain new where new: "same_but_scatter ?px0 px1" "scatter_count (px_session px1) = int (length shards)"
      "\<not> scatter_header_sent (px_session px1)"
      "scatter_conns (px_session px1) = new @ drop (length shards) (scatter_conns (px_session px))"
      "map sc_shard new = map Some shards" "list_all (\<lambda>sc. sc_done sc = failed sc) new"
      "scatter_done (px_session px1) = int (length (filter failed new))"
    by (auto simp: scatter_filled_def)
  have "same_but_scatter px px1" using new(1) by (simp add: same_but_scatter_def but_scatter_def routing_def)
  from that [OF px1(1,2) this new(2-7)] arg_cong [OF new(5), of length] show ?thesis by simp
qed

lemma execute_scatter_facts:
  assumes "null_is_bad E" "conns_ok others px" "no_scatter px" "buf_ok (send_buf (px_session px))"
    and "list_all (\<lambda>k. k < nshards px) shards"
  shows "if MAX_SCATTER_SHARDS < length shards
    then execute_scatter E sql shards (int (length shards)) px = Some (px, - 1)
    else \<exists>px' b. execute_scatter E sql shards (int (length shards)) px = Some (px', 0) \<and> conns_ok others px' \<and>
      same_but_scatter (set_out b px) px' \<and> buf_ok b \<and>
      (scattering shards px' \<and> contents b = queued px \<or>
       no_scatter px' \<and> sess_state (px_session px') = SESSION_STATE_READY \<and>
         contents b = queued px @ error_frames ''ERROR'' ''08001'' ''all scatter connections failed'')"
proof (cases "MAX_SCATTER_SHARDS < length shards")
  case True
  then show ?thesis by (simp add: execute_scatter_def)
next
  case False
  let ?n = "int (length shards)"
  from False scatter_started [OF assms(1-3,5), of sql] obtain px1 new where
    px1: "scatter_loop E sql 0 (length shards) shards (scatter_begin (length shards) px) = Some px1" "conns_ok others px1"
    and sb: "same_but_scatter px px1" and new: "scatter_count (px_session px1) = ?n"
      "\<not> scatter_header_sent (px_session px1)" "scatter_conns (px_session px1) = new @ drop (length shards) (scatter_conns (px_session px))"
      "map sc_shard new = map Some shards" "list_all (\<lambda>sc. sc_done sc = failed sc) new"
      "scatter_done (px_session px1) = int (length (filter failed new))" "length new = length shards" by (auto simp: not_less)
  show ?thesis
  proof (cases "?n \<le> scatter_done (px_session px1)")
    case True
    have "buf_ok (send_buf (px_session px1))" using assms(4) same_but_scatterD(7) [OF sb] by simp
    with queues_error_ready obtain b where
      b: "error_ready ''ERROR'' ''08001'' ''all scatter connections failed'' px1 = Some (set_out b px1)" "buf_ok b"
        "contents b = queued px1 @ error_frames ''ERROR'' ''08001'' ''all scatter connections failed''" by (rule queuesD)
    let ?px = "set_session (\<lambda>s. s\<lparr>sess_state := SESSION_STATE_READY\<rparr>) (set_out b px1)"
    have "list_all (\<lambda>sc. sc_conn sc = None) new" using True new(6,7) by (intro all_failed) simp
    with assms(3) have "no_scatter ?px" by (auto simp: no_scatter_def new(3) list_all_iff dest: in_set_dropD)
    moreover have "same_but_scatter (set_out b px) ?px"
      using same_but_scatter_out [OF sb, of b] by (simp add: same_but_scatter_def but_scatter_def routing_def)
    moreover have "execute_scatter E sql shards ?n px = Some (?px, 0)"
      using False True px1(1) b(1) by (simp add: execute_scatter_def)
    moreover have "queued px1 = queued px" using same_but_scatterD(7) [OF sb] by (simp add: queued_def)
    ultimately show ?thesis using False b(2,3) px1(2) by auto
  next
    case busy: False
    let ?px = "set_session (\<lambda>s. s\<lparr>sess_state := SESSION_STATE_SCATTER\<rparr>) px1"
    have "execute_scatter E sql shards ?n px = Some (?px, 0)"
      using False busy px1(1) by (simp add: execute_scatter_def)
    moreover have "scattering shards ?px"
      using new busy by (simp add: scattering_def Let_def)
    moreover have "same_but_scatter (set_out (send_buf (px_session px)) px) ?px"
      using sb by (simp add: set_out_id same_but_scatter_def but_scatter_def routing_def)
    ultimately show ?thesis
      using False px1(2) assms(4) by (auto simp: queued_def intro!: exI [of _ ?px] exI [of _ "send_buf (px_session px)"])
  qed
qed

section \<open>Lemmas on queries\<close>

definition but_query :: "'w proxy \<Rightarrow> ClientSession \<times> ShardMap option \<times> bool" where
  "but_query px = ((px_session px)\<lparr>backend_conn := None, backend_ev := event_handler_zero, backend_busy := False,
     backend_shard := None, sess_state := SESSION_STATE_INIT, scatter_conns := [], scatter_count := 0, scatter_done := 0,
     scatter_header_sent := False, send_buf := msgbuf_init 0\<rparr>, routing px, px_alive px)"

definition same_but_query :: "'w proxy \<Rightarrow> 'w proxy \<Rightarrow> bool" where
  "same_but_query px px' \<longleftrightarrow> but_query px' = but_query px"

lemma same_but_query_refl [simp]: "same_but_query px px"
  by (simp add: same_but_query_def)

lemma same_but_query_trans [trans]:
  "same_but_query a b \<Longrightarrow> same_but_query b c \<Longrightarrow> same_but_query a c"
  by (simp add: same_but_query_def)

lemma same_but_queryI:
  "same_but_backend px px' \<Longrightarrow> same_but_query px px'"
  "same_but_scatter px px' \<Longrightarrow> same_but_query px px'"
  "same_but_query px (set_out b px)"
  "same_but_query px (set_session (\<lambda>s. s\<lparr>sess_state := st\<rparr>) px)"
  by ((cases "px_session px"; cases "px_session px'"; simp add: same_but_query_def but_query_def same_but_backend_def
      but_backend_def same_but_scatter_def but_scatter_def routing_def; fail)+)

lemma same_but_queryD:
  assumes "same_but_query px px'"
  shows "routing px' = routing px" "px_alive px' = px_alive px"
    "sess_addr (px_session px') = sess_addr (px_session px)"
    "client_fd (px_session px') = client_fd (px_session px)"
    "ev_handler (px_session px') = ev_handler (px_session px)"
    "recv_buf (px_session px') = recv_buf (px_session px)"
    "send_pos (px_session px') = send_pos (px_session px)"
  using assms
  by (cases "px_session px"; cases "px_session px'"; simp add: same_but_query_def but_query_def)+

text \<open>The answer that the proxy gives itself: one message and a ReadyForQuery.\<close>

definition replied :: "'w proxy \<Rightarrow> 'w proxy \<Rightarrow> bool" where
  "replied px px' \<longleftrightarrow> (\<exists>ty p. ty \<in> {MSG_ERROR_RESPONSE, MSG_CMD_COMPLETE} \<and>
     queued px' = queued px @ frame ty p @ frame MSG_READY_FOR_QUERY [TXN_IDLE])"

text \<open>What can have become of a query: it is running on one backend, it is running on the shards of a
  rule, it has been answered by the proxy, or there were too many shards.\<close>

definition query_outcome :: "'w proxy \<Rightarrow> 'w proxy \<Rightarrow> int \<Rightarrow> bool" where
  "query_outcome px px' rc \<longleftrightarrow>
     rc = 0 \<and> sess_state (px_session px') = SESSION_STATE_QUERY \<and> no_scatter px' \<and>
       backend_conn (px_session px') \<noteq> None \<and> queued px' = queued px \<or>
     rc = 0 \<and> (\<exists>shards. scattering shards px') \<and> queued px' = queued px \<or>
     rc = 0 \<and> no_scatter px' \<and>
       sess_state (px_session px') \<in> {sess_state (px_session px), SESSION_STATE_READY} \<and> replied px px' \<or>
     rc = - 1 \<and> px' = px"

definition query_done :: "(nat \<Rightarrow> nat) \<Rightarrow> 'w proxy \<Rightarrow> 'w proxy \<Rightarrow> int \<Rightarrow> bool" where
  "query_done others px px' rc \<longleftrightarrow>
     conns_ok others px' \<and> buf_ok (send_buf (px_session px')) \<and> same_but_query px px' \<and> query_outcome px px' rc"

lemma error_reply:
  assumes "conns_ok others px1" "buf_ok (send_buf (px_session px1))" "same_but_query px px1" "no_scatter px1"
    and "queued px1 = queued px" "sess_state (px_session px1) = sess_state (px_session px)"
  shows "\<exists>px'. error_ready sev code m px1 = Some px' \<and> query_done others px px' 0"
proof -
  obtain b where b: "error_ready sev code m px1 = Some (set_out b px1)" "buf_ok b"
      "contents b = queued px1 @ error_frames sev code m"
    using queues_error_ready assms(2) by (rule queuesD)
  have "replied px (set_out b px1)"
    unfolding replied_def using b(3) assms(5) by (auto simp: error_frames_def queued_def)
  moreover have "no_scatter (set_out b px1)" using assms(4) by (simp add: no_scatter_def)
  ultimately have "query_done others px (set_out b px1) 0"
    using assms b(2) same_but_query_trans [OF assms(3) same_but_queryI(3), of b]
    by (simp add: query_done_def query_outcome_def)
  with b(1) show ?thesis by simp
qed

lemma backend_reply:
  assumes "conns_ok others px1" "same_but_backend px px1" "no_scatter px" "buf_ok (send_buf (px_session px))"
    and "sess_state (px_session px1) = sess_state (px_session px)"
  shows "\<exists>px'. error_ready sev code m px1 = Some px' \<and> query_done others px px' 0"
  using assms same_but_backendD(7,9) [OF assms(2)] same_but_backend_queued [OF assms(2)]
  by (intro error_reply same_but_queryI(1)) (simp_all add: no_scatter_def)

lemma backend_running:
  assumes "conns_ok others px1" "same_but_backend px px1" "no_scatter px" "buf_ok (send_buf (px_session px))"
    and "sess_state (px_session px1) = SESSION_STATE_QUERY" "backend_conn (px_session px1) \<noteq> None"
  shows "query_done others px px1 0"
  using assms same_but_backendD(7,9) [OF assms(2)] same_but_backend_queued [OF assms(2)] same_but_queryI(1) [OF assms(2)]
  by (simp add: query_done_def query_outcome_def no_scatter_def)

lemma single_outcome:
  assumes "null_is_bad E" "conns_ok others px" "no_scatter px" "buf_ok (send_buf (px_session px))"
    and "\<And>i. shard = Some i \<Longrightarrow> i < nshards px"
  shows "\<exists>px'. do {
      (px, rc) \<leftarrow> execute_single E sql shard px;
      if rc < 0 then do { px \<leftarrow> error_ready sev code m px; Some (px, 0) } else Some (px, rc)
    } = Some (px', 0) \<and> query_done others px px' 0"
proof -
  from execute_single_facts [OF assms(1,2,5)] obtain px1 rc where
    px1: "execute_single E sql shard px = Some (px1, rc)" "conns_ok others px1" "same_but_backend px px1"
    "rc = 0 \<and> sess_state (px_session px1) = SESSION_STATE_QUERY \<and> backend_conn (px_session px1) \<noteq> None \<and>
       backend_shard (px_session px1) = shard \<or>
     rc = - 1 \<and> sess_state (px_session px1) = sess_state (px_session px)" by blast
  from px1(4) show ?thesis
  proof
    assume "rc = 0 \<and> sess_state (px_session px1) = SESSION_STATE_QUERY \<and> backend_conn (px_session px1) \<noteq> None \<and>
       backend_shard (px_session px1) = shard"
    with px1(1) backend_running [OF px1(2,3) assms(3,4)] show ?thesis by simp
  next
    assume "rc = - 1 \<and> sess_state (px_session px1) = sess_state (px_session px)"
    with px1(1) backend_reply [OF px1(2,3) assms(3,4), of sev code m] show ?thesis by auto
  qed
qed

lemma default_outcome:
  assumes "null_is_bad E" "conns_ok others px" "no_scatter px" "buf_ok (send_buf (px_session px))"
  shows "\<exists>px'. handle_query_default E sql px = Some (px', 0) \<and> query_done others px px' 0"
proof -
  from connect_to_default_facts [OF assms(1,2)] obtain px1 rc where
    px1: "connect_to_default E px = Some (px1, rc)" "conns_ok others px1" "same_but_backend px px1"
    "sess_state (px_session px1) = sess_state (px_session px)"
    "rc = 0 \<and> backend_conn (px_session px1) \<noteq> None \<or> rc = - 1 \<and> backend_conn (px_session px1) = None" .
  obtain px2 rc2 where q: "send_query E sql px1 = (px2, rc2)" by fastforce
  note px2 = send_query_facts [OF q]
  have ok2: "conns_ok others px2" "same_but_backend px px2"
    using px1(2) px2(1) same_but_backend_trans [OF px1(3) px2(2)] by simp_all
  from px1(5) show ?thesis
  proof
    assume bad: "rc = - 1 \<and> backend_conn (px_session px1) = None"
    from backend_reply [OF px1(2,3) assms(3,4) px1(4), of "''FATAL''" "''08001''" "''cannot connect to backend''"]
      bad px1(1) show ?thesis
      by (auto simp: handle_query_default_def)
  next
    assume good: "rc = 0 \<and> backend_conn (px_session px1) \<noteq> None"
    from px2(5) show ?thesis
    proof
      assume "rc2 = 0 \<and> sess_state (px_session px2) = SESSION_STATE_QUERY"
      with backend_running [OF ok2 assms(3,4)] good px1(1) q px2(3) show ?thesis
        by (simp add: handle_query_default_def)
    next
      assume "rc2 = - 1 \<and> sess_state (px_session px2) = sess_state (px_session px1)"
      with backend_reply [OF ok2 assms(3,4), of "''ERROR''" "''XX000''"
          "PQerrorMessage E (backend_conn (px_session px2)) (px_world px2)"] good px1(1,4) q show ?thesis
        by (auto simp: handle_query_default_def)
    qed
  qed
qed

lemma decide_rule_targets:
  assumes "rule_ok m r" "decide_rule m p r = Some (p', d)"
  shows "list_all (\<lambda>i. i < length (map_shards m)) (target_shards d)"
  using assms key_target_in [OF assms(1)]
  by (auto simp: decide_rule_def Let_def bind_eq_Some_conv rule_ok_def list_all_iff split: if_splits option.splits)

lemma decision_valid:
  assumes "map_ok m" "router_decide m p = Some (p', d)"
  shows "list_all (\<lambda>i. i < length (map_shards m)) (target_shards d)"
    and "route_type d = ROUTE_SINGLE \<Longrightarrow> \<exists>s. target_shards d = [s]"
    and "route_type d = ROUTE_SCATTER \<Longrightarrow> target_count d = int (length (target_shards d))"
proof -
  have "list_all (\<lambda>i. i < length (map_shards m)) (target_shards d)"
    if "find (\<lambda>r. rule_table_name r = table_name p) (table_rules m) = Some r" "decide_rule m p r = Some (p', d)" for r
    using decide_rule_targets [OF map_ok_find(1) [OF assms(1) that(1)] that(2)] .
  with assms(2) show "list_all (\<lambda>i. i < length (map_shards m)) (target_shards d)"
    by (auto simp: router_decide_cases [OF assms(1)] route_zero_def split: if_splits option.splits)
  from router_decide_ok [OF assms] show "route_type d = ROUTE_SINGLE \<Longrightarrow> \<exists>s. target_shards d = [s]"
    "route_type d = ROUTE_SCATTER \<Longrightarrow> target_count d = int (length (target_shards d))"
    by (auto simp: decision_ok_def split: option.splits)
qed

lemma local_outcome:
  assumes "conns_ok others px" "no_scatter px" "buf_ok (send_buf (px_session px))"
  shows "\<exists>px'. do {
      msg \<leftarrow> msg_write_command_complete (msgbuf_init 64) ''SET'';
      px \<leftarrow> queue_msg msg px;
      msg \<leftarrow> msg_write_ready_for_query (msgbuf_reset msg) TXN_IDLE;
      px \<leftarrow> queue_msg msg px;
      Some (px, 0)
    } = Some (px', 0) \<and> query_done others px px' 0"
proof -
  have "buf_ok (msgbuf_init 64)" by simp
  with msg_write_appends(6) obtain m1 where m1: "msg_write_command_complete (msgbuf_init 64) ''SET'' = Some m1" "buf_ok m1"
      "contents m1 = contents (msgbuf_init 64) @ frame MSG_CMD_COMPLETE (''SET'' @ [NUL])" by (rule appendsD)
  obtain m2 where m2: "msg_write_ready_for_query (msgbuf_reset m1) TXN_IDLE = Some m2" "buf_ok m2"
      "contents m2 = contents (msgbuf_reset m1) @ frame MSG_READY_FOR_QUERY [TXN_IDLE]"
    using msg_write_appends(4) buf_ok_reset(1) [OF m1(2)] by (rule appendsD)
  have q: "queues (\<lambda>px. Option.bind (queue_msg m1 px) (queue_msg m2)) (contents m1 @ contents m2)"
    by (intro queues_bind queues_queue_msg m1 m2)
  then obtain b where b: "Option.bind (queue_msg m1 px) (queue_msg m2) = Some (set_out b px)" "buf_ok b"
      "contents b = queued px @ contents m1 @ contents m2" using assms(3) by (rule queuesD)
  have "replied px (set_out b px)"
    unfolding replied_def using b(3) m1(3) m2(3) by (auto simp: queued_def)
  then have "query_done others px (set_out b px) 0"
    using assms b(2) same_but_queryI(3) [of px b] by (simp add: query_done_def query_outcome_def no_scatter_def)
  with b(1) m1(1) m2(1) show ?thesis by (auto simp: bind_eq_Some_conv)
qed

lemma scatter_outcome:
  assumes "null_is_bad E" "conns_ok others px" "no_scatter px" "buf_ok (send_buf (px_session px))"
    and "list_all (\<lambda>k. k < nshards px) shards"
  shows "\<exists>px' rc. execute_scatter E sql shards (int (length shards)) px = Some (px', rc) \<and> query_done others px px' rc"
proof (cases "MAX_SCATTER_SHARDS < length shards")
  case True
  with execute_scatter_facts [OF assms, of sql] have "execute_scatter E sql shards (int (length shards)) px = Some (px, - 1)"
    by simp
  with assms(2,4) show ?thesis by (simp add: query_done_def query_outcome_def)
next
  case False
  with execute_scatter_facts [OF assms, of sql] obtain px' b where
    r: "execute_scatter E sql shards (int (length shards)) px = Some (px', 0)" "conns_ok others px'"
      "same_but_scatter (set_out b px) px'" "buf_ok b"
      "scattering shards px' \<and> contents b = queued px \<or>
       no_scatter px' \<and> sess_state (px_session px') = SESSION_STATE_READY \<and>
         contents b = queued px @ error_frames ''ERROR'' ''08001'' ''all scatter connections failed''" by auto
  have b: "send_buf (px_session px') = b" using same_but_scatterD(7) [OF r(3)] by simp
  have "same_but_query px px'"
    using same_but_query_trans [OF same_but_queryI(3) same_but_queryI(2) [OF r(3)]] .
  moreover have "query_outcome px px' 0"
    using r(5) b by (auto simp: query_outcome_def replied_def queued_def error_frames_def)
  ultimately show ?thesis using r(1,2,4) b by (auto simp: query_done_def)
qed

text \<open>A query that libpg_query and the router can handle without a fault.\<close>

definition routable :: "(cstring \<Rightarrow> PgQueryError + cstring) \<Rightarrow> ShardMap \<Rightarrow> cstring \<Rightarrow> bool" where
  "routable pg m sql \<longleftrightarrow> (\<exists>p rc. parse_query pg sql = Some (p, rc) \<and> (rc < 0 \<or> router_decide m p \<noteq> None))"

lemma routed_outcome:
  assumes "null_is_bad E" "conns_ok others px" "no_scatter px" "buf_ok (send_buf (px_session px))"
    and "px_map px = Some m" "map_shard_count m \<noteq> 0" "parse_query pg sql = Some (p, rc)" "\<not> rc < 0" "router_decide m p = Some (p', d)"
  shows "\<exists>px' rc. handle_query E pg sql px = Some (px', rc) \<and> query_done others px px' rc"
proof -
  from conns_okD(1) [OF assms(2)] assms(5) have "map_ok m" by (simp add: pools_hold_def)
  note valid = decision_valid [OF this assms(9)]
  have n: "nshards px = length (map_shards m)" by (simp add: nshards_def assms(5))
  have single: "\<exists>px'. do {
      (px, rc) \<leftarrow> execute_single E sql shard px;
      if rc < 0 then do { px \<leftarrow> error_ready ''ERROR'' ''08001'' msg px; Some (px, 0) } else Some (px, rc)
    } = Some (px', 0) \<and> query_done others px px' 0" if "\<And>s. shard = Some s \<Longrightarrow> s < nshards px" for shard msg
    by (intro single_outcome assms(1-4) that)
  show ?thesis
  proof (cases "route_type d")
    case ROUTE_SINGLE
    with valid(2) obtain s where s: "target_shards d = [s]" by blast
    with single [of "Some s" "''cannot connect to shard''"] valid(1) n assms(5-9) ROUTE_SINGLE show ?thesis
      by (auto simp: handle_query_def)
  next
    case ROUTE_SCATTER
    have "handle_query E pg sql px = execute_scatter E sql (target_shards d) (int (length (target_shards d))) px"
      using assms(5-9) ROUTE_SCATTER valid(3) by (simp add: handle_query_def)
    with scatter_outcome [OF assms(1-4), of "target_shards d" sql] valid(1) n show ?thesis by simp
  next
    case ROUTE_LOCAL
    from local_outcome [OF assms(2-4)] assms(5-9) ROUTE_LOCAL show ?thesis by (auto simp: handle_query_def)
  next
    case ROUTE_DEFAULT
    with single [of None "''cannot connect to default backend''"] assms(5-9) show ?thesis by (auto simp: handle_query_def)
  qed
qed

lemma handle_query_facts:
  assumes "null_is_bad E" "conns_ok others px" "no_scatter px" "buf_ok (send_buf (px_session px))"
    and "\<And>m. px_map px = Some m \<Longrightarrow> map_shard_count m \<noteq> 0 \<Longrightarrow> routable pg m sql"
  shows "\<exists>px' rc. handle_query E pg sql px = Some (px', rc) \<and> query_done others px px' rc"
proof (cases "\<exists>m. px_map px = Some m \<and> map_shard_count m \<noteq> 0")
  case False
  then have "handle_query E pg sql px = handle_query_default E sql px"
    by (auto simp: handle_query_def split: option.splits)
  with default_outcome [OF assms(1-4), of sql] show ?thesis by auto
next
  case True
  then obtain m where m: "px_map px = Some m" "map_shard_count m \<noteq> 0" by blast
  from assms(5) [OF m] obtain p rc where p: "parse_query pg sql = Some (p, rc)"
    "rc < 0 \<or> router_decide m p \<noteq> None" by (auto simp: routable_def)
  show ?thesis
  proof (cases "rc < 0")
    case True
    with backend_reply [OF assms(2) same_but_backend_refl assms(3,4) refl,
        of "''ERROR''" "''42601''" "''syntax error in query''"] m p(1) show ?thesis
      by (auto simp: handle_query_def)
  next
    case False
    with p(2) obtain p' d where "router_decide m p = Some (p', d)" by auto
    from routed_outcome [OF assms(1-4) m p(1) False this] show ?thesis .
  qed
qed

lemma handle_query_routable:
  assumes "handle_query E pg sql px = Some r" "px_map px = Some m" "map_shard_count m \<noteq> 0"
  shows "routable pg m sql"
  using assms by (auto simp: handle_query_def routable_def bind_eq_Some_conv split: if_splits)

section \<open>Properties\<close>



end
