(* ===== verification/Fe_Messages.thy ===== *)
theory Fe_Messages imports Fe_Queries begin

text \<open>
  The loop over the receive buffer (\<open>fe_protocol_process\<close> of \<open>src/protocol/fe_protocol.c\<close>): the
  invariant of a session and that every message keeps it, when the loop ends, and what the messages
  of a login, a query and a COPY do.
\<close>

section \<open>The receive buffer\<close>

definition rb_ok :: "RecvBuf \<Rightarrow> bool" where
  "rb_ok rb \<longleftrightarrow> rb_len rb \<le> length (rb_data rb) \<and> length (rb_data rb) \<le> rb_cap rb \<and> 0 < rb_cap rb"

definition received :: "'w proxy \<Rightarrow> byte list" where
  "received px = take (rb_len (recv_buf (px_session px))) (rb_data (recv_buf (px_session px)))"

abbreviation in_ok :: "'w proxy \<Rightarrow> bool" where
  "in_ok px \<equiv> rb_ok (recv_buf (px_session px))"

lemma received_length: "in_ok px \<Longrightarrow> length (received px) = rb_len (recv_buf (px_session px))"
  by (simp add: received_def rb_ok_def)

lemma received_read:
  assumes "in_ok px" "off + n \<le> length (received px)"
  shows "mem_read off n (rb_data (recv_buf (px_session px))) = Some (take n (drop off (received px)))"
  using assms by (auto simp: received_def rb_ok_def mem_read_def drop_take min_def split: if_splits)

definition set_rb :: "RecvBuf \<Rightarrow> 'w proxy \<Rightarrow> 'w proxy" where
  "set_rb rb px = set_session (\<lambda>s. s\<lparr>recv_buf := rb\<rparr>) px"

lemma consume_facts:
  assumes "in_ok px" "n \<le> length (received px)"
  obtains rb where "consume n px = Some (set_rb rb px)" "rb_ok rb" "rb_cap rb = rb_cap (recv_buf (px_session px))"
    "received (set_rb rb px) = drop n (received px)"
    "rb_data rb = drop n (received px) @ drop (length (received px) - n) (rb_data (recv_buf (px_session px)))"
proof -
  let ?rb = "recv_buf (px_session px)"
  define rb where "rb = ?rb\<lparr>rb_data := drop n (received px) @ drop (length (received px) - n) (rb_data ?rb),
    rb_len := rb_len ?rb - n\<rparr>"
  have len: "length (received px) = rb_len ?rb" "rb_len ?rb \<le> length (rb_data ?rb)"
    using received_length [OF assms(1)] assms(1) by (simp_all add: rb_ok_def)
  have "mem_move n (rb_len ?rb - n) (rb_data ?rb) = Some (rb_data rb)"
    using assms(2) len by (simp add: mem_move_def received_def take_drop rb_def)
  then have c: "consume n px = Some (set_rb rb px)"
    using assms(2) len by (simp add: consume_def rb_consume_def set_rb_def rb_def)
  have r: "rb_ok rb" "rb_cap rb = rb_cap ?rb" "received (set_rb rb px) = drop n (received px)"
    using assms len by (simp_all add: rb_ok_def rb_def received_def set_rb_def)
  show ?thesis
    by (rule that [OF c r]) (simp add: rb_def)
qed

lemma consume_0: "in_ok px \<Longrightarrow> consume 0 px = Some px"
  by (simp add: consume_def rb_consume_def mem_move_def rb_ok_def set_session_def)

lemma set_rb_simps [simp]:
  "px_session (set_rb rb px) = (px_session px)\<lparr>recv_buf := rb\<rparr>" "px_map (set_rb rb px) = px_map px"
  "px_world (set_rb rb px) = px_world px" "px_alive (set_rb rb px) = px_alive px"
  by (simp_all add: set_rb_def)

lemma set_rb_conns [simp]: "conns_ok others (set_rb rb px) = conns_ok others px"
  by (rule conns_ok_cong) simp_all

lemma set_rb_same [simp]:
  "no_scatter (set_rb rb px) = no_scatter px" "queued (set_rb rb px) = queued px" "out_ok (set_rb rb px) = out_ok px"
  "routing (set_rb rb px) = routing px"
  by (simp_all add: no_scatter_def queued_def out_ok_def routing_def)

section \<open>The invariant of a session\<close>

definition sess_inv :: "(nat \<Rightarrow> nat) \<Rightarrow> 'w proxy \<Rightarrow> bool" where
  "sess_inv others px \<longleftrightarrow> conns_ok others px \<and> out_ok px \<and> in_ok px \<and>
     (sess_state (px_session px) \<noteq> SESSION_STATE_SCATTER \<longrightarrow> no_scatter px)"

definition step_ok :: "(nat \<Rightarrow> nat) \<Rightarrow> 'w proxy \<Rightarrow> 'w proxy \<Rightarrow> bool" where
  "step_ok others px px' \<longleftrightarrow> sess_inv others px' \<and> routing px' = routing px \<and> px_alive px' = px_alive px \<and>
     sess_addr (px_session px') = sess_addr (px_session px) \<and> client_fd (px_session px') = client_fd (px_session px)"

lemma step_ok_trans [trans]: "step_ok others a b \<Longrightarrow> step_ok others b c \<Longrightarrow> step_ok others a c"
  by (simp add: step_ok_def)

lemma out_step:
  assumes "buf_ok b" "contents b = queued px @ xs" "sess_inv others px"
  shows "step_ok others px (set_out b px)"
proof -
  have ok: "buf_ok (send_buf (px_session px))" "send_pos (px_session px) \<le> mb_len (send_buf (px_session px))"
    using assms(3) by (simp_all add: sess_inv_def out_ok_def)
  have "mb_len (send_buf (px_session px)) \<le> mb_len b"
    using contents_length [OF ok(1)] contents_length [OF assms(1)] assms(2) by (simp add: queued_def)
  with ok(2) assms show ?thesis by (simp add: step_ok_def sess_inv_def out_ok_def no_scatter_def routing_def)
qed

lemma inv_out: "sess_inv others px \<Longrightarrow> buf_ok (send_buf (px_session px))"
  by (simp add: sess_inv_def out_ok_def)

lemma queue_step:
  assumes "queues f xs" "sess_inv others px"
  obtains b where "f px = Some (set_out b px)" "step_ok others px (set_out b px)" "queued (set_out b px) = queued px @ xs"
proof -
  obtain b where b: "f px = Some (set_out b px)" "buf_ok b" "contents b = queued px @ xs"
    using assms(1) inv_out [OF assms(2)] by (rule queuesD)
  from that [OF b(1) out_step [OF b(2,3) assms(2)]] b(3) show ?thesis by (simp add: queued_def)
qed

lemma consume_step:
  assumes "sess_inv others px" "n \<le> length (received px)"
  obtains rb where "consume n px = Some (set_rb rb px)" "step_ok others px (set_rb rb px)"
    "received (set_rb rb px) = drop n (received px)"
proof -
  have "in_ok px" using assms(1) by (simp add: sess_inv_def)
  from consume_facts [OF this assms(2)] obtain rb where
    "consume n px = Some (set_rb rb px)" "rb_ok rb" "received (set_rb rb px) = drop n (received px)" .
  with assms(1) show ?thesis by (intro that) (simp_all add: step_ok_def sess_inv_def)
qed

section \<open>Processing keeps the invariant\<close>

lemma step_ok_refl: "sess_inv others px \<Longrightarrow> step_ok others px px"
  by (simp add: step_ok_def)

lemma step_ok_inv: "step_ok others px px' \<Longrightarrow> sess_inv others px'"
  by (simp add: step_ok_def)

lemma step_ok_state:
  assumes "sess_inv others px" "sess_state (px_session px) \<noteq> SESSION_STATE_SCATTER"
  shows "step_ok others px (set_session (\<lambda>s. s\<lparr>sess_state := st\<rparr>) px)"
  using assms by (simp add: step_ok_def sess_inv_def out_ok_def no_scatter_def routing_def)

definition param_payload :: "cstring \<times> cstring \<Rightarrow> byte list" where
  "param_payload = (\<lambda>(n, v). (n @ [NUL]) @ v @ [NUL])"

definition startup_messages :: "32 word \<Rightarrow> 32 word \<Rightarrow> (byte \<times> byte list) list" where
  "startup_messages pid key =
     [(MSG_AUTH_REQUEST, htonl_bytes 0)] @
     map (\<lambda>nv. (MSG_PARAM_STATUS, param_payload nv))
       [(''server_version'', ''16.0 (Sharegres)''), (''server_encoding'', ''UTF8''), (''client_encoding'', ''UTF8''),
        (''is_superuser'', ''off''), (''DateStyle'', ''ISO, MDY''), (''integer_datetimes'', ''on''),
        (''standard_conforming_strings'', ''on'')] @
     [(MSG_BACKEND_KEY, htonl_bytes pid @ htonl_bytes key), (MSG_READY_FOR_QUERY, [TXN_IDLE])]"

definition startup_bytes :: "32 word \<Rightarrow> 32 word \<Rightarrow> byte list" where
  "startup_bytes pid key = concat (map (\<lambda>m. frame (fst m) (snd m)) (startup_messages pid key))"

lemma appends_bind_param:
  assumes "appends buf_ok contents f xs"
  shows "appends buf_ok contents (\<lambda>b. Option.bind (msg_write_param_status b n v) f)
    (frame MSG_PARAM_STATUS (param_payload (n, v)) @ xs)"
  using appends_bind [OF msg_write_appends(2) assms] by (simp add: param_payload_def)

lemma startup_response_appends:
  "appends buf_ok contents (write_startup_response pid key) (startup_bytes pid key)"
proof -
  have "startup_bytes pid key = frame MSG_AUTH_REQUEST (htonl_bytes AUTH_OK) @
      frame MSG_PARAM_STATUS (param_payload (''server_version'', ''16.0 (Sharegres)'')) @
      frame MSG_PARAM_STATUS (param_payload (''server_encoding'', ''UTF8'')) @
      frame MSG_PARAM_STATUS (param_payload (''client_encoding'', ''UTF8'')) @
      frame MSG_PARAM_STATUS (param_payload (''is_superuser'', ''off'')) @
      frame MSG_PARAM_STATUS (param_payload (''DateStyle'', ''ISO, MDY'')) @
      frame MSG_PARAM_STATUS (param_payload (''integer_datetimes'', ''on'')) @
      frame MSG_PARAM_STATUS (param_payload (''standard_conforming_strings'', ''on'')) @
      frame MSG_BACKEND_KEY (htonl_bytes pid @ htonl_bytes key) @ frame MSG_READY_FOR_QUERY [TXN_IDLE]"
    by (simp only: startup_bytes_def startup_messages_def list.map fst_conv snd_conv concat.simps append.simps
        AUTH_OK_def append_Nil2)
  then show ?thesis
    unfolding write_startup_response_def
    by (simp only:) (intro appends_bind [OF msg_write_appends(1)] appends_bind_param
        appends_bind [OF msg_write_appends(3)] msg_write_appends(4))
qed

lemma startup_response_step:
  assumes "sess_inv others px"
  obtains b where "fe_send_startup_response px = Some (set_out b px)" "step_ok others px (set_out b px)"
    "queued (set_out b px) = queued px @ startup_bytes (sess_pid (px_session px)) (secret_key (px_session px))"
  using queue_step [OF queues_put_out [OF startup_response_appends] assms]
  unfolding fe_send_startup_response_def by metis

lemma query_done_inv:
  assumes "query_done others px px' rc" "sess_inv others px" "sess_state (px_session px) \<noteq> SESSION_STATE_SCATTER"
  shows "step_ok others px px'"
proof -
  note same = same_but_queryD [OF assms(1) [unfolded query_done_def, THEN conjunct2, THEN conjunct2, THEN conjunct1]]
  have buf: "buf_ok (send_buf (px_session px'))" "conns_ok others px'" "query_outcome px px' rc"
    using assms(1) by (simp_all add: query_done_def)
  have q: "\<exists>xs. queued px' = queued px @ xs" "sess_state (px_session px') \<noteq> SESSION_STATE_SCATTER \<longrightarrow> no_scatter px'"
    using buf(3) assms(2,3) by (auto simp: query_outcome_def replied_def scattering_def Let_def sess_inv_def)
  have "mb_len (send_buf (px_session px)) \<le> mb_len (send_buf (px_session px'))"
    using q(1) contents_length [OF buf(1)] contents_length [of "send_buf (px_session px)"] assms(2)
    by (auto simp: queued_def sess_inv_def out_ok_def)
  with buf q(2) assms(2) same show ?thesis
    by (simp add: step_ok_def sess_inv_def out_ok_def)
qed

lemma handle_query_step:
  assumes "null_is_bad E" "handle_query E pg sql px = Some (px', rc)" "sess_inv others px"
    and "sess_state (px_session px) \<noteq> SESSION_STATE_SCATTER"
  shows "step_ok others px px'"
proof -
  have "conns_ok others px" "no_scatter px" "buf_ok (send_buf (px_session px))"
    using assms(3,4) by (simp_all add: sess_inv_def out_ok_def)
  then have "\<exists>px' rc. handle_query E pg sql px = Some (px', rc) \<and> query_done others px px' rc"
    using handle_query_routable [OF assms(2)] by (intro handle_query_facts assms(1)) auto
  with assms(2) have "query_done others px px' rc" by simp
  from query_done_inv [OF this assms(3,4)] show ?thesis .
qed

lemma received_out [simp]: "received (set_out b px) = received px"
  by (simp add: received_def)

text \<open>The three things a startup packet can be: an SSL request, a cancel request, or a login.\<close>

lemma ssl_request_step:
  assumes "do { px \<leftarrow> session_queue_send xs px; px \<leftarrow> consume n px; Some (px, rc0) } = Some (px', rc)"
    and "sess_inv others px" "n \<le> length (received px)"
  shows "step_ok others px px'" "received px' = drop n (received px)"
proof -
  obtain b where b: "session_queue_send xs px = Some (set_out b px)" "step_ok others px (set_out b px)"
    using queue_step [OF queues_queue_send assms(2)] by metis
  have "n \<le> length (received (set_out b px))" using assms(3) by simp
  from consume_step [OF step_ok_inv [OF b(2)] this] obtain rb where
    rb: "consume n (set_out b px) = Some (set_rb rb (set_out b px))"
      "step_ok others (set_out b px) (set_rb rb (set_out b px))"
      "received (set_rb rb (set_out b px)) = drop n (received (set_out b px))" .
  with assms(1) b(1) have "px' = set_rb rb (set_out b px)" by simp
  with rb(3) step_ok_trans [OF b(2) rb(2)] show "step_ok others px px'" "received px' = drop n (received px)" by simp_all
qed

lemma login_step:
  assumes "sess_inv others px" "n \<le> length (received px)"
    and "sess_state (px_session px) \<noteq> SESSION_STATE_SCATTER"
  obtains px' where "finish_login n ud px = Some (px', 0)" "step_ok others px px'" "received px' = drop n (received px)"
    "queued px' = queued px @ startup_bytes (sess_pid (px_session px)) (secret_key (px_session px))"
    "sess_user (px_session px') = Some (case fst ud of None \<Rightarrow> ''unknown'' | Some u \<Rightarrow> u)"
    "sess_database (px_session px') = Some (case snd ud of Some d \<Rightarrow> d
       | None \<Rightarrow> case fst ud of None \<Rightarrow> ''unknown'' | Some u \<Rightarrow> u)"
    "sess_state (px_session px') = SESSION_STATE_READY"
proof -
  define u where "u = (case fst ud of None \<Rightarrow> ''unknown'' | Some u \<Rightarrow> u)"
  define d where "d = (case snd ud of None \<Rightarrow> u | Some d \<Rightarrow> d)"
  let ?px0 = "set_session (\<lambda>s. s\<lparr>sess_user := Some u, sess_database := Some d\<rparr>) px"
  have "conns_ok others ?px0 = conns_ok others px" by (rule conns_ok_cong) simp_all
  then have s0: "step_ok others px ?px0"
    using assms(1) by (simp add: step_ok_def sess_inv_def out_ok_def no_scatter_def routing_def)
  have r0: "received ?px0 = received px" by (simp add: received_def)
  with assms(2) have "n \<le> length (received ?px0)" by simp
  from consume_step [OF step_ok_inv [OF s0] this] obtain rb where
    rb: "consume n ?px0 = Some (set_rb rb ?px0)" "step_ok others ?px0 (set_rb rb ?px0)"
      "received (set_rb rb ?px0) = drop n (received ?px0)" .
  let ?px1 = "set_rb rb ?px0"
  obtain b where b: "fe_send_startup_response ?px1 = Some (set_out b ?px1)" "step_ok others ?px1 (set_out b ?px1)"
    "queued (set_out b ?px1) = queued ?px1 @ startup_bytes (sess_pid (px_session ?px1)) (secret_key (px_session ?px1))"
    using startup_response_step [OF step_ok_inv [OF rb(2)]] by metis
  let ?px3 = "set_session (\<lambda>s. s\<lparr>sess_state := SESSION_STATE_READY\<rparr>) (set_out b ?px1)"
  have "step_ok others (set_out b ?px1) ?px3"
    using assms(3) by (intro step_ok_state step_ok_inv [OF b(2)]) simp
  with s0 rb(2) b(2) have s3: "step_ok others px ?px3" by (blast intro: step_ok_trans)
  have q: "queued ?px1 = queued px" by (simp add: queued_def)
  have "finish_login n ud px = Some (?px3, 0)"
    using rb(1) b(1) by (simp add: finish_login_def Let_def u_def [symmetric] d_def [symmetric])
  then show ?thesis
    by (rule that) (use rb(3) b(3) s3 r0 q in \<open>simp_all add: received_def queued_def d_def u_def split: option.splits\<close>)
qed

lemma handle_startup_step:
  assumes "handle_startup_message n px = Some (px', rc)" "sess_inv others px" "n \<le> length (received px)"
    and "sess_state (px_session px) \<noteq> SESSION_STATE_SCATTER"
  shows "step_ok others px px' \<and> (0 \<le> rc \<longrightarrow> 8 \<le> n \<and> received px' = drop n (received px))"
proof (cases "n < 8")
  case True
  with assms(1,2) show ?thesis by (simp add: handle_startup_message_def step_ok_refl)
next
  case n: False
  define v where "v = ntohl_bytes (take 4 (drop 4 (received px)))"
  have "mem_read 4 4 (rb_data (recv_buf (px_session px))) = Some (take 4 (drop 4 (received px)))"
    using n assms(2,3) by (intro received_read) (simp_all add: sess_inv_def)
  with assms(1) n consider
      (ssl) "do { px \<leftarrow> session_queue_send [CHR ''N''] px; px \<leftarrow> consume n px; Some (px, 0) } = Some (px', rc)"
    | (cancel) "do { px \<leftarrow> consume n px; Some (px, - 1) } = Some (px', rc)"
    | (bad) "Some (px, - 1) = Some (px', rc)"
    | (login) ud where "finish_login n ud px = Some (px', rc)"
    by (auto simp: handle_startup_message_def v_def [symmetric] Let_def bind_eq_Some_conv [of "startup_params _ _ _ _"]
        simp del: bind_eq_Some_conv split: if_splits)
  then show ?thesis
  proof cases
    case ssl
    from ssl_request_step [OF this assms(2,3)] n show ?thesis by simp
  next
    case cancel
    obtain rb where "consume n px = Some (set_rb rb px)" "step_ok others px (set_rb rb px)"
      using consume_step [OF assms(2,3)] .
    with cancel show ?thesis by auto
  next
    case bad
    with assms(2) show ?thesis by (simp add: step_ok_refl)
  next
    case (login ud)
    from login_step [OF assms(2,3,4), of ud] obtain px1 where "finish_login n ud px = Some (px1, 0)"
      "step_ok others px px1" "received px1 = drop n (received px)" .
    with login n show ?thesis by simp
  qed
qed

lemma init_step_ok:
  assumes "init_step px = Some (px', st)" "sess_inv others px" "sess_state (px_session px) = SESSION_STATE_INIT"
  shows "step_ok others px px' \<and> (st = Continue \<longrightarrow> length (received px') < length (received px))"
proof -
  have len: "length (received px) = rb_len (recv_buf (px_session px))"
    using assms(2) by (simp add: sess_inv_def received_length)
  consider "px' = px" "st \<noteq> Continue"
    | n rc where "handle_startup_message n px = Some (px', rc)" "n \<le> length (received px)"
        "st = (if rc < 0 then Return (- 1) else Continue)"
    using assms(1) by (auto simp: init_step_def Let_def bind_eq_Some_conv len split: if_splits)
  then show ?thesis
  proof cases
    case 1
    with assms(2) show ?thesis by (simp add: step_ok_refl)
  next
    case (2 n rc)
    with handle_startup_step [OF 2(1) assms(2) 2(2)] assms(3) show ?thesis by (auto split: if_splits)
  qed
qed

lemma world_step:
  assumes "sess_inv others px" "px_session px' = px_session px" "px_map px' = px_map px" "px_alive px' = px_alive px"
  shows "step_ok others px px'" "received px' = received px" "queued px' = queued px"
proof -
  have "conns_ok others px' = conns_ok others px" by (rule conns_ok_cong) (simp_all add: assms)
  with assms show "step_ok others px px'"
    by (simp add: step_ok_def sess_inv_def out_ok_def no_scatter_def routing_def)
  show "received px' = received px" "queued px' = queued px" by (simp_all add: received_def queued_def assms)
qed

lemma received_state [simp]: "received (set_session (\<lambda>s. s\<lparr>sess_state := st\<rparr>) px) = received px"
  by (simp add: received_def)

lemma copy_in_step_ok:
  assumes "copy_in_step E ty msg_len n px = Some (px', st)" "sess_inv others px" "n \<le> length (received px)"
    and "sess_state (px_session px) \<noteq> SESSION_STATE_SCATTER"
  shows "step_ok others px px' \<and> received px' = drop n (received px)"
proof -
  consider "do { px \<leftarrow> consume n px; Some (px, Continue) } = Some (px', st)"
    | px1 rc where "copy_handle_client_message E ty (drop 5 (rb_data (recv_buf (px_session px)))) (unat (msg_len - 4)) px = Some (px1, rc)"
      "Option.bind (consume n px1) (\<lambda>px. if rc < 0 then Some (px, Return (- 1))
        else Some (if rc = 1 then set_session (\<lambda>s. s\<lparr>sess_state := SESSION_STATE_QUERY\<rparr>) px else px, Continue)) = Some (px', st)"
    using assms(1)
    by (auto simp: copy_in_step_def Let_def bind_eq_Some_conv [of "copy_handle_client_message _ _ _ _ _"]
        simp del: bind_eq_Some_conv split: if_splits)
  then show ?thesis
  proof cases
    case 1
    obtain rb where "consume n px = Some (set_rb rb px)" "step_ok others px (set_rb rb px)"
      "received (set_rb rb px) = drop n (received px)" using consume_step [OF assms(2,3)] .
    with 1 show ?thesis by auto
  next
    case (2 px1 rc)
    note fr = copy_message_frame [OF 2(1)]
    note w = world_step [OF assms(2) fr(1-3)]
    obtain rb where rb: "consume n px1 = Some (set_rb rb px1)" "step_ok others px1 (set_rb rb px1)"
        "received (set_rb rb px1) = drop n (received px1)"
      using consume_step [OF step_ok_inv [OF w(1)], of n] assms(3) w(2) by auto
    note s1 = step_ok_trans [OF w(1) rb(2)]
    have "step_ok others px (set_session (\<lambda>s. s\<lparr>sess_state := SESSION_STATE_QUERY\<rparr>) (set_rb rb px1))"
      using assms(4) fr(1) by (intro step_ok_trans [OF s1] step_ok_state step_ok_inv [OF s1]) simp
    then show ?thesis using 2(2) rb s1 w(2) by (auto split: if_splits)
  qed
qed

lemma message_step_ok:
  assumes "null_is_bad E" "message_step E pg ty n px = Some (px', st)" "sess_inv others px" "n \<le> length (received px)"
    and "sess_state (px_session px) \<noteq> SESSION_STATE_SCATTER"
  shows "step_ok others px px' \<and> (st = Continue \<longrightarrow> received px' = drop n (received px))"
proof -
  let ?ext = "{MSG_PARSE, MSG_BIND, MSG_DESCRIBE, MSG_EXECUTE, MSG_SYNC, MSG_CLOSE}"
  let ?err = "if ty \<in> ?ext then error_ready ''ERROR'' ''0A000'' ''extended query protocol not yet supported'' px else Some px"
  consider (query) px1 q rc where "consume n px = Some px1" "handle_query E pg q px1 = Some (px', rc)" "st = Return rc"
    | (stop) "px' = px" "st = Return (- 1)"
    | (other) px1 where "?err = Some px1" "consume n px1 = Some px'" "st = Continue"
    using assms(2) by (auto simp: message_step_def Let_def bind_eq_Some_conv split: if_splits)
  then show ?thesis
  proof cases
    case query
    obtain rb where rb: "consume n px = Some (set_rb rb px)" "step_ok others px (set_rb rb px)"
      using consume_step [OF assms(3,4)] by metis
    with query have px1: "px1 = set_rb rb px" by simp
    from handle_query_step [OF assms(1) query(2), of others] step_ok_inv [OF rb(2)] assms(5) px1
    have "step_ok others px1 px'" by simp
    with step_ok_trans [OF rb(2)] px1 query(3) show ?thesis by simp
  next
    case stop
    with assms(3) show ?thesis by (simp add: step_ok_refl)
  next
    case (other px1)
    have px1: "step_ok others px px1" "received px1 = received px"
    proof -
      obtain b where "error_ready ''ERROR'' ''0A000'' ''extended query protocol not yet supported'' px = Some (set_out b px)"
        "step_ok others px (set_out b px)" using queue_step [OF queues_error_ready assms(3)] by metis
      with other(1) step_ok_refl [OF assms(3)] show "step_ok others px px1" "received px1 = received px"
        by (auto split: if_splits)
    qed
    obtain rb where "consume n px1 = Some (set_rb rb px1)" "step_ok others px1 (set_rb rb px1)"
      "received (set_rb rb px1) = drop n (received px1)"
      using consume_step [OF step_ok_inv [OF px1(1)], of n] assms(4) px1(2) by auto
    with other px1 show ?thesis by (auto intro: step_ok_trans)
  qed
qed

text \<open>The header of the next message, and the case in which its total length wraps around to 0.\<close>

definition next_type :: "'w proxy \<Rightarrow> byte" where
  "next_type px = hd (received px)"

definition next_len :: "'w proxy \<Rightarrow> 32 word" where
  "next_len px = ntohl_bytes (take 4 (drop 1 (received px)))"

definition wraps :: "'w proxy \<Rightarrow> bool" where
  "wraps px \<longleftrightarrow> sess_state (px_session px) \<noteq> SESSION_STATE_INIT \<and> next_len px = - 1"

definition is_busy :: "SessionState \<Rightarrow> bool" where
  "is_busy st \<longleftrightarrow> st = SESSION_STATE_QUERY \<or> st = SESSION_STATE_SCATTER \<or> st = SESSION_STATE_COPY_OUT"

lemma process_step_cases:
  assumes "in_ok px" "sess_state (px_session px) \<noteq> SESSION_STATE_INIT"
  shows "process_step E pg px =
    (let n = unat (1 + next_len px) in
     if is_busy (sess_state (px_session px)) \<or> length (received px) < 5 then Some (px, Return 0)
     else if next_len px < 4 \<or> 16777216 < n then Some (px, Return (- 1))
     else if length (received px) < n then Some (px, Return 0)
     else if sess_state (px_session px) = SESSION_STATE_COPY_IN then copy_in_step E (next_type px) (next_len px) n px
     else message_step E pg (next_type px) n px)"
proof -
  have len: "length (received px) = rb_len (recv_buf (px_session px))" by (rule received_length [OF assms(1)])
  show ?thesis
  proof (cases "length (received px) < 5")
    case True
    with assms(2) len show ?thesis by (simp add: process_step_def is_busy_def Let_def)
  next
    case False
    then have "mem_read 0 5 (rb_data (recv_buf (px_session px))) = Some (take 5 (received px))"
      using received_read [OF assms(1), of 0 5] by simp
    moreover have "hd (take 5 (received px)) = next_type px" "tl (take 5 (received px)) = take 4 (drop 1 (received px))"
      using False by (cases "received px"; simp add: next_type_def take_Suc)+
    ultimately show ?thesis
      using False assms(2) len by (simp add: process_step_def is_busy_def Let_def next_len_def)
  qed
qed

lemma unat_total: "(m :: 32 word) \<noteq> - 1 \<Longrightarrow> 0 < unat (1 + m)"
  by (simp add: unat_gt_0 eq_neg_iff_add_eq_0 add.commute)

lemma process_step_ok:
  assumes "null_is_bad E" "process_step E pg px = Some (px', st)" "sess_inv others px"
  shows "step_ok others px px' \<and>
    (st = Continue \<and> \<not> wraps px \<longrightarrow> length (received px') < length (received px))"
proof (cases "sess_state (px_session px) = SESSION_STATE_INIT")
  case True
  with assms(2) have "init_step px = Some (px', st)" by (simp add: process_step_def)
  from init_step_ok [OF this assms(3) True] show ?thesis by blast
next
  case False
  have "in_ok px" using assms(3) by (simp add: sess_inv_def)
  note step = process_step_cases [OF this False, of E pg]
  let ?n = "unat (1 + next_len px)"
  have pos: "\<not> wraps px \<Longrightarrow> 0 < ?n" using False unat_total [of "next_len px"] by (auto simp: wraps_def)
  show ?thesis
  proof (cases "is_busy (sess_state (px_session px)) \<or> length (received px) < 5 \<or> next_len px < 4 \<or>
      16777216 < ?n \<or> length (received px) < ?n")
    case True
    with step assms(2) have "px' = px" "st \<noteq> Continue" by (auto simp: Let_def split: if_splits)
    with step_ok_refl [OF assms(3)] show ?thesis by simp
  next
    case go: False
    then have st: "sess_state (px_session px) \<noteq> SESSION_STATE_SCATTER" "?n \<le> length (received px)" "0 < length (received px)"
      by (auto simp: is_busy_def)
    have "step_ok others px px' \<and> (st = Continue \<longrightarrow> received px' = drop ?n (received px))"
    proof (cases "sess_state (px_session px) = SESSION_STATE_COPY_IN")
      case True
      with step go assms(2) have "copy_in_step E (next_type px) (next_len px) ?n px = Some (px', st)"
        by (simp add: Let_def)
      from copy_in_step_ok [OF this assms(3) st(2,1)] show ?thesis by simp
    next
      case False
      with step go assms(2) have "message_step E pg (next_type px) ?n px = Some (px', st)" by (simp add: Let_def)
      from message_step_ok [OF assms(1) this assms(3) st(2,1)] show ?thesis .
    qed
    with pos st(3) show ?thesis by auto
  qed
qed

lemma process_ok:
  assumes "null_is_bad E" "fe_protocol_process E pg px = Some (px', rc)" "sess_inv others px"
  shows "step_ok others px px'"
proof -
  define P where "P = (\<lambda>E' (pg' :: cstring \<Rightarrow> PgQueryError + cstring) (p :: 'a proxy) (r :: 'a proxy \<times> int).
    E' = E \<longrightarrow> sess_inv others p \<longrightarrow> step_ok others p (fst r))"
  have "P E pg px (px', rc)"
  proof (rule fe_protocol_process.raw_induct [of P, OF _ assms(2)], goal_cases)
    case (1 f E' pg' p r)
    show ?case
      unfolding P_def
    proof (intro impI)
      assume E: "E' = E" and inv: "sess_inv others p"
      show "step_ok others p (fst r)"
      proof (cases "rb_len (recv_buf (px_session p)) = 0")
        case True
        with 1(2) step_ok_refl [OF inv] show ?thesis by auto
      next
        case False
        with 1(2) E obtain p1 st where p1: "process_step E pg' p = Some (p1, st)"
          "(case st of Return rc \<Rightarrow> Some (p1, rc) | Continue \<Rightarrow> f E pg' p1) = Some r"
          by (auto simp: bind_eq_Some_conv)
        from process_step_ok [OF assms(1) p1(1) inv] have s1: "step_ok others p p1" ..
        show ?thesis
        proof (cases st)
          case (Return x)
          with p1(2) s1 show ?thesis by auto
        next
          case Continue
          with p1(2) 1(1) [of E pg' p1 r] step_ok_inv [OF s1] have "step_ok others p1 (fst r)" by (simp add: P_def)
          with s1 show ?thesis by (rule step_ok_trans)
        qed
      qed
    qed
  qed
  with assms(3) show ?thesis by (simp add: P_def)
qed

section \<open>Whole messages in the buffer\<close>

lemma next_frame:
  assumes "received px = frame ty p @ rest" "5 + length p \<le> 16777216"
  shows "next_type px = ty" "next_len px = word_of_nat (4 + length p)" "unat (1 + next_len px) = 5 + length p"
    "\<not> next_len px < 4" "unat (next_len px - 4) = length p"
    "drop (5 + length p) (received px) = rest" "5 + length p \<le> length (received px)"
proof -
  show ty: "next_type px = ty" by (simp add: next_type_def assms(1) frame_def)
  have "take 4 (drop 1 (received px)) = htonl_bytes (word_of_nat (4 + length p))"
    by (simp add: assms(1) frame_def)
  then show len: "next_len px = word_of_nat (4 + length p)" by (simp add: next_len_def)
  have u: "unat (word_of_nat n :: 32 word) = n" if "n \<le> 16777216" for n
    using that by (subst unsigned_of_nat) (simp add: take_bit_nat_eq_self)
  have "1 + next_len px = word_of_nat (5 + length p)" by (simp add: len)
  then show "unat (1 + next_len px) = 5 + length p" by (simp only: u [OF assms(2)])
  have "next_len px - 4 = word_of_nat (length p)" by (simp add: len)
  then show "unat (next_len px - 4) = length p" using u [of "length p"] assms(2) by (simp only:)
  have "unat (next_len px) = 4 + length p" unfolding len using assms(2) by (intro u) simp
  then show "\<not> next_len px < 4" by (simp add: word_less_nat_alt)
  have l: "length (frame ty p) = 5 + length p" by (simp add: frame_def)
  show "drop (5 + length p) (received px) = rest" "5 + length p \<le> length (received px)"
    unfolding assms(1) l [symmetric] by simp_all
qed

lemma process_step_frame:
  assumes "in_ok px" "sess_state (px_session px) \<noteq> SESSION_STATE_INIT" "\<not> is_busy (sess_state (px_session px))"
    and "received px = frame ty p @ rest" "5 + length p \<le> 16777216"
  shows "process_step E pg px =
    (if sess_state (px_session px) = SESSION_STATE_COPY_IN
     then copy_in_step E ty (word_of_nat (4 + length p)) (5 + length p) px
     else message_step E pg ty (5 + length p) px)"
proof -
  note nf = next_frame [OF assms(4,5)]
  have "\<not> length (received px) < 5" using nf(7) by simp
  with nf(3,4,7) assms(3,5) show ?thesis
    unfolding process_step_cases [OF assms(1,2)] Let_def nf(1) nf(3) by (simp add: nf(2))
qed

lemma process_nonempty:
  assumes "in_ok px" "received px \<noteq> []"
  shows "fe_protocol_process E pg px = do {
    (px, st) \<leftarrow> process_step E pg px;
    (case st of Return rc \<Rightarrow> Some (px, rc) | Continue \<Rightarrow> fe_protocol_process E pg px) }"
  using assms received_length [OF assms(1)] by (subst fe_protocol_process.simps) auto

lemma process_empty: "in_ok px \<Longrightarrow> received px = [] \<Longrightarrow> fe_protocol_process E pg px = Some (px, 0)"
  using received_length [of px] by (subst fe_protocol_process.simps) simp

lemma frame_not_Nil [simp]: "frame ty p \<noteq> []"
  by (simp add: frame_def)

section \<open>Properties\<close>

text \<open>C8: The processing of the receive buffer keeps the invariant of the session, whatever the bytes in
  it are: buffers well formed, pools counting exactly what is held, no scatter connection held
  outside the scatter state; and it does not touch the routing part of the shard map.\<close>

theorem process_keeps_invariant:
  assumes "null_is_bad E" "sess_inv others px" "fe_protocol_process E pg px = Some (px', rc)"
  shows "sess_inv others px' \<and> routing px' = routing px"
  using process_ok [OF assms(1,3,2)] by (simp add: step_ok_def)

definition demo_ready :: "byte list \<Rightarrow> SessionState \<Rightarrow> lab proxy" where
  "demo_ready bs st = set_session (\<lambda>s. s\<lparr>sess_state := st, recv_buf := \<lparr>rb_data = bs, rb_len = length bs, rb_cap = 8192\<rparr>\<rparr>) demo_busy"

lemma demo_ready_inv:
  assumes "length bs \<le> 8192"
  shows "sess_inv (\<lambda>i. 0) (demo_ready bs st)"
proof -
  have "conns_ok (\<lambda>i. 0) (demo_ready bs st) = conns_ok (\<lambda>i. 0) demo_busy"
    by (rule conns_ok_cong) (simp_all add: demo_ready_def)
  with demo_busy_ok assms show ?thesis
    by (simp add: sess_inv_def out_ok_def rb_ok_def no_scatter_def demo_ready_def demo_busy_def demo_proxy_def
        fresh_session_def scatter_conn_zero_def list_all_iff SEND_BUF_INITIAL_def)
qed

lemma demo_ready_received [simp]: "received (demo_ready bs st) = bs" "sess_state (px_session (demo_ready bs st)) = st"
  by (simp_all add: received_def demo_ready_def)

lemma demo_terminate:
  defines "px \<equiv> demo_ready (frame MSG_TERMINATE []) SESSION_STATE_READY"
  shows "fe_protocol_process E pg px = Some (px, - 1)"
proof -
  have "sess_inv (\<lambda>i. 0) px" unfolding px_def by (rule demo_ready_inv) (simp add: frame_def)
  then have ok: "in_ok px" by (simp add: sess_inv_def)
  have st: "sess_state (px_session px) = SESSION_STATE_READY" and rc: "received px = frame MSG_TERMINATE [] @ []"
    by (simp_all add: px_def)
  have "process_step E pg px = Some (px, Return (- 1))"
    by (subst process_step_frame [OF ok _ _ rc]) (simp_all add: st is_busy_def message_step_def)
  then show ?thesis
    by (subst process_nonempty [OF ok]) (simp_all add: rc)
qed

theorem process_keeps_invariant_witness:
  "fe_protocol_process lab_ext Inr (demo_ready (frame MSG_TERMINATE []) SESSION_STATE_READY) =
     Some (demo_ready (frame MSG_TERMINATE []) SESSION_STATE_READY, - 1) \<and>
   sess_inv (\<lambda>i. 0) (demo_ready (frame MSG_TERMINATE []) SESSION_STATE_READY)"
proof -
  have inv: "sess_inv (\<lambda>i. 0) (demo_ready (frame MSG_TERMINATE []) SESSION_STATE_READY)"
    by (rule demo_ready_inv) (simp add: frame_def)
  from process_keeps_invariant [OF lab_hyps(1) inv demo_terminate] show ?thesis
    by (simp only: demo_terminate)
qed

text \<open>One round of the loop that goes on to another round.\<close>

definition continues :: "'w ext \<Rightarrow> (cstring \<Rightarrow> PgQueryError + cstring) \<Rightarrow> 'w proxy \<Rightarrow> 'w proxy \<Rightarrow> bool" where
  "continues E pg px px' \<longleftrightarrow> received px \<noteq> [] \<and> process_step E pg px = Some (px', Continue)"



lemma continue_forever:
  assumes "rb_len (recv_buf (px_session px)) \<noteq> 0" "process_step E pg px = Some (px, Continue)"
  shows "fe_protocol_process E pg px = None"
proof (rule ccontr)
  assume "fe_protocol_process E pg px \<noteq> None"
  then obtain r where r: "fe_protocol_process E pg px = Some r" by blast
  have "\<not> (E = E \<and> pg = pg \<and> px = px)"
    by (rule fe_protocol_process.raw_induct [of "\<lambda>E' pg' px' r. \<not> (E' = E \<and> pg' = pg \<and> px' = px)", OF _ r])
      (use assms in \<open>auto; blast\<close>)
  then show False by simp
qed



lemma data_after_received:
  assumes "in_ok px"
  shows "\<exists>tail. rb_data (recv_buf (px_session px)) = received px @ tail"
  by (rule exI [of _ "drop (rb_len (recv_buf (px_session px))) (rb_data (recv_buf (px_session px)))"])
    (simp add: received_def)

lemma query_frame_text:
  "NUL \<notin> set q \<Longrightarrow> c_str_at 5 (frame MSG_QUERY (q @ [NUL]) @ tail) = Some q"
  by (simp add: c_str_at_def frame_def)

lemma query_step:
  assumes "in_ok px" "sess_state (px_session px) = SESSION_STATE_READY"
    and "received px = frame MSG_QUERY (q @ [NUL]) @ rest" "6 + length q \<le> 16777216"
    and "c_str_at 5 (rest @ drop (length rest) (rb_data (recv_buf (px_session px)))) = Some t"
  shows "\<exists>rb. rb_ok rb \<and> received (set_rb rb px) = rest \<and> fe_protocol_process E pg px = handle_query E pg t (set_rb rb px)"
proof -
  have n: "5 + length (q @ [NUL]) \<le> 16777216" using assms(4) by simp
  note nf = next_frame [OF assms(3) n]
  obtain rb where rb: "consume (5 + length (q @ [NUL])) px = Some (set_rb rb px)" "rb_ok rb"
      "received (set_rb rb px) = drop (5 + length (q @ [NUL])) (received px)"
      "rb_data rb = drop (5 + length (q @ [NUL])) (received px) @
         drop (length (received px) - (5 + length (q @ [NUL]))) (rb_data (recv_buf (px_session px)))"
    using consume_facts [OF assms(1) nf(7)] by metis
  have "length (received px) - (5 + length (q @ [NUL])) = length rest"
    using arg_cong [OF nf(6), of length] by simp
  with rb(4) nf(6) assms(5) have tx: "c_str_at 5 (rb_data rb) = Some t" by simp
  have "process_step E pg px = do { (px, rc) \<leftarrow> handle_query E pg t (set_rb rb px); Some (px, Return rc) }"
    by (subst process_step_frame [OF assms(1) _ _ assms(3) n])
      (simp_all only: assms(2) message_step_def rb(1), simp_all add: is_busy_def tx)
  then have "fe_protocol_process E pg px = handle_query E pg t (set_rb rb px)"
    using process_nonempty [OF assms(1), of E pg] assms(3)
    by (cases "handle_query E pg t (set_rb rb px)") (auto simp: case_prod_beta)
  with rb(2,3) nf(6) show ?thesis by auto
qed

lemma query_alone:
  assumes "in_ok px" "sess_state (px_session px) = SESSION_STATE_READY" "NUL \<notin> set q" "6 + length q \<le> 16777216"
    and "received px = frame MSG_QUERY (q @ [NUL])"
  shows "\<exists>rb. rb_ok rb \<and> received (set_rb rb px) = [] \<and> fe_protocol_process E pg px = handle_query E pg q (set_rb rb px)"
proof -
  obtain tail where "rb_data (recv_buf (px_session px)) = received px @ tail"
    using data_after_received [OF assms(1)] by blast
  then have "c_str_at 5 (rb_data (recv_buf (px_session px))) = Some q"
    using query_frame_text [OF assms(3)] by (simp add: assms(5))
  with query_step [OF assms(1,2), of q "[]"] assms(4,5) show ?thesis by simp
qed

text \<open>A query message that arrives alone is executed with exactly the text the client sent, and the
  buffer is empty afterwards.\<close>

theorem query_text_alone:
  assumes "in_ok px" "sess_state (px_session px) = SESSION_STATE_READY" "NUL \<notin> set q" "6 + length q \<le> 16777216"
    and "received px = frame MSG_QUERY (q @ [NUL])"
  shows "\<exists>rb. rb_ok rb \<and> received (set_rb rb px) = [] \<and> fe_protocol_process E pg px = handle_query E pg q (set_rb rb px)"
  using assms by (rule query_alone)

theorem query_text_alone_witness:
  "\<exists>rb. received (set_rb rb (demo_ready (frame MSG_QUERY (''select 1'' @ [NUL])) SESSION_STATE_READY)) = [] \<and>
     fe_protocol_process lab_ext Inr (demo_ready (frame MSG_QUERY (''select 1'' @ [NUL])) SESSION_STATE_READY) =
     handle_query lab_ext Inr ''select 1'' (set_rb rb (demo_ready (frame MSG_QUERY (''select 1'' @ [NUL])) SESSION_STATE_READY))"
proof -
  let ?px = "demo_ready (frame MSG_QUERY (''select 1'' @ [NUL])) SESSION_STATE_READY"
  have "in_ok ?px" using demo_ready_inv [of "frame MSG_QUERY (''select 1'' @ [NUL])"] by (simp add: sess_inv_def frame_def)
  from query_text_alone [OF this, of "''select 1''" lab_ext Inr] show ?thesis by auto
qed



lemma unat_small: "n \<le> 16777216 \<Longrightarrow> unat (word_of_nat n :: 32 word) = n"
  by (subst unsigned_of_nat) (simp add: take_bit_nat_eq_self)

lemma partial_startup:
  assumes "in_ok px" "sess_state (px_session px) = SESSION_STATE_INIT"
    and "received px @ later = htonl_bytes (word_of_nat (4 + length p)) @ p" "4 + length p \<le> 65535" "later \<noteq> []"
  shows "process_step E pg px = Some (px, Return 0)"
proof -
  have len: "length (received px) = rb_len (recv_buf (px_session px))" by (rule received_length [OF assms(1)])
  have lt: "length (received px) < 4 + length p"
    using arg_cong [OF assms(3), of length] assms(5) by (cases later) simp_all
  show ?thesis
  proof (cases "length (received px) < 4")
    case True
    with assms(2) len show ?thesis by (simp add: process_step_def init_step_def)
  next
    case False
    have "take 4 (received px) = take 4 (received px @ later)" using False by simp
    also have "\<dots> = htonl_bytes (word_of_nat (4 + length p))" unfolding assms(3) by simp
    finally have "mem_read 0 4 (rb_data (recv_buf (px_session px))) = Some (htonl_bytes (word_of_nat (4 + length p)))"
      using received_read [OF assms(1), of 0 4] False by simp
    with False lt assms(2,4) len unat_small [of "4 + length p"] show ?thesis
      by (simp add: process_step_def init_step_def Let_def del: of_nat_add)
  qed
qed

lemma partial_frame:
  assumes "in_ok px" "sess_state (px_session px) \<noteq> SESSION_STATE_INIT"
    and "received px @ later = frame ty p" "5 + length p \<le> 16777216" "later \<noteq> []"
  shows "process_step E pg px = Some (px, Return 0)"
proof (cases "length (received px) < 5")
  case True
  with assms(2) show ?thesis by (simp add: process_step_cases [OF assms(1)])
next
  case False
  have lt: "length (received px) < 5 + length p"
    using arg_cong [OF assms(3), of length] assms(5) by (cases later) (simp_all add: frame_def)
  have "take 4 (drop 1 (received px)) = take 4 (drop 1 (received px @ later))" using False by simp
  also have "\<dots> = htonl_bytes (word_of_nat (4 + length p))" unfolding assms(3) by (simp add: frame_def)
  finally have n: "next_len px = word_of_nat (4 + length p)" by (simp add: next_len_def)
  have "1 + next_len px = word_of_nat (5 + length p)" by (simp add: n)
  then have "unat (1 + next_len px) = 5 + length p" by (simp only: unat_small [OF assms(4)])
  moreover have "unat (next_len px) = 4 + length p" unfolding n using assms(4) by (intro unat_small) simp
  ultimately show ?thesis
    using lt assms(4) False by (simp add: process_step_cases [OF assms(1,2)] word_less_nat_alt Let_def)
qed

text \<open>C25: A message of which only a part has arrived is left alone: nothing is taken off the buffer and
  nothing changes until the rest is there. This holds for a startup packet and for every later
  message.\<close>

theorem partial_message_waits:
  assumes "in_ok px" "received px \<noteq> []" "later \<noteq> []"
    and "if sess_state (px_session px) = SESSION_STATE_INIT
      then received px @ later = htonl_bytes (word_of_nat (4 + length p)) @ p \<and> 4 + length p \<le> 65535
      else received px @ later = frame ty p \<and> 5 + length p \<le> 16777216"
  shows "fe_protocol_process E pg px = Some (px, 0)"
proof -
  have "process_step E pg px = Some (px, Return 0)"
  proof (cases "sess_state (px_session px) = SESSION_STATE_INIT")
    case True
    note m = assms(4) [unfolded if_P [OF True]]
    show ?thesis by (rule partial_startup [OF assms(1) True m [THEN conjunct1] m [THEN conjunct2] assms(3)])
  next
    case False
    note m = assms(4) [unfolded if_not_P [OF False]]
    show ?thesis by (rule partial_frame [OF assms(1) False m [THEN conjunct1] m [THEN conjunct2] assms(3)])
  qed
  then show ?thesis by (subst process_nonempty [OF assms(1,2)]) simp
qed

theorem partial_message_waits_witness:
  "fe_protocol_process lab_ext Inr (demo_ready (take 7 (frame MSG_QUERY (''select 1'' @ [NUL]))) SESSION_STATE_READY) =
     Some (demo_ready (take 7 (frame MSG_QUERY (''select 1'' @ [NUL]))) SESSION_STATE_READY, 0)"
proof -
  let ?f = "frame MSG_QUERY (''select 1'' @ [NUL])"
  have "in_ok (demo_ready (take 7 ?f) SESSION_STATE_READY)"
    using demo_ready_inv [of "take 7 ?f"] by (simp add: sess_inv_def frame_def)
  then show ?thesis
    by (rule partial_message_waits [of _ "drop 7 ?f" "''select 1'' @ [NUL]" MSG_QUERY]) (simp_all add: frame_def)
qed

section \<open>Login\<close>

definition params_body :: "(cstring \<times> cstring) list \<Rightarrow> byte list" where
  "params_body params = concat (map (\<lambda>(k, v). k @ NUL # v @ [NUL]) params) @ [NUL]"

definition startup_packet :: "(cstring \<times> cstring) list \<Rightarrow> byte list" where
  "startup_packet params = htonl_bytes (word_of_nat (8 + length (params_body params))) @ htonl_bytes 196608 @ params_body params"

definition params_ok :: "(cstring \<times> cstring) list \<Rightarrow> bool" where
  "params_ok params \<longleftrightarrow> list_all (\<lambda>(k, v). k \<noteq> [] \<and> NUL \<notin> set k \<and> NUL \<notin> set v) params \<and>
     8 + length (params_body params) \<le> 65535"

lemma startup_params_read:
  assumes "drop pos data = params_body params @ tail" "n = pos + length (params_body params)"
    and "list_all (\<lambda>(k, v). k \<noteq> [] \<and> NUL \<notin> set k \<and> NUL \<notin> set v) params"
  shows "startup_params data n pos ud = Some (fold (\<lambda>(k, v). set_param k v) params ud)"
  using assms
proof (induction params arbitrary: pos ud)
  case Nil
  then have "mem_read pos 1 data = Some [NUL]"
    by (cases "pos < length data") (simp_all add: mem_read_def params_body_def)
  with Nil(2) show ?case by (subst startup_params.simps) (simp add: params_body_def)
next
  case (Cons kv params)
  obtain k v where kv: "kv = (k, v)" by fastforce
  let ?p1 = "pos + length k + 1" and ?p2 = "pos + length k + 1 + length v + 1"
  have d: "drop pos data = k @ NUL # v @ NUL # params_body params @ tail"
    using Cons.prems(1) by (simp add: kv params_body_def)
  have k: "k \<noteq> []" "NUL \<notin> set k" "NUL \<notin> set v" using Cons.prems(3) by (simp_all add: kv)
  have d1: "drop ?p1 data = v @ NUL # params_body params @ tail"
    using arg_cong [OF d, of "drop (length k + 1)"] by (simp add: add.commute add.left_commute)
  have d2: "drop ?p2 data = params_body params @ tail"
    using arg_cong [OF d1, of "drop (length v + 1)"] by (simp add: add.commute add.left_commute)
  have n: "n = ?p2 + length (params_body params)" using Cons.prems(2) by (simp add: kv params_body_def)
  have "0 < length (params_body params)" by (simp add: params_body_def)
  with n have lt: "pos < n" "\<not> n \<le> ?p1" by simp_all
  have "mem_read pos 1 data = Some [hd k]"
    using d k(1) by (cases "pos < length data"; cases k) (simp_all add: mem_read_def)
  moreover have "hd k \<noteq> NUL" using k by (cases k) auto
  moreover have "c_str_at pos data = Some k" "c_str_at ?p1 data = Some v"
    using d d1 k(2,3) by (simp_all add: c_str_at_def)
  moreover have "startup_params data n ?p2 (set_param k v ud) = Some (fold (\<lambda>(k, v). set_param k v) params (set_param k v ud))"
    using Cons.prems(3) by (intro Cons.IH d2 n) simp
  ultimately show ?case using lt by (subst startup_params.simps) (simp add: kv Let_def)
qed

definition login_user :: "(cstring \<times> cstring) list \<Rightarrow> cstring" where
  "login_user params = (case map_of (rev params) ''user'' of None \<Rightarrow> ''unknown'' | Some u \<Rightarrow> u)"

definition login_database :: "(cstring \<times> cstring) list \<Rightarrow> cstring" where
  "login_database params = (case map_of (rev params) ''database'' of None \<Rightarrow> login_user params | Some d \<Rightarrow> d)"

lemma fold_set_param:
  "fold (\<lambda>(k, v). set_param k v) params (u, d) =
    (case map_of (rev params) ''user'' of None \<Rightarrow> u | Some x \<Rightarrow> Some x,
     case map_of (rev params) ''database'' of None \<Rightarrow> d | Some x \<Rightarrow> Some x)"
proof (induction params arbitrary: u d)
  case Nil
  then show ?case by simp
next
  case (Cons kv params)
  obtain k v where kv: "kv = (k, v)" by fastforce
  have "set_param k v (u, d) = (if k = ''user'' then Some v else u, if k = ''database'' then Some v else d)"
    by (simp add: set_param_def)
  then have "fold (\<lambda>(k, v). set_param k v) (kv # params) (u, d) =
      fold (\<lambda>(k, v). set_param k v) params (if k = ''user'' then Some v else u, if k = ''database'' then Some v else d)"
    by (simp only: kv fold_Cons o_apply prod.case)
  then show ?case
    unfolding Cons.IH by (simp only: kv rev.simps map_of_append map_add_def map_of.simps) (auto split: option.splits)
qed

lemma login_process:
  assumes "sess_inv others px" "sess_state (px_session px) = SESSION_STATE_INIT" "params_ok params"
    and "sess_user (px_session px) = None" "sess_database (px_session px) = None"
    and "received px = startup_packet params"
  shows "\<exists>px'. fe_protocol_process E pg px = Some (px', 0) \<and> sess_state (px_session px') = SESSION_STATE_READY \<and>
    sess_user (px_session px') = Some (login_user params) \<and> sess_database (px_session px') = Some (login_database params) \<and>
    queued px' = queued px @ startup_bytes (sess_pid (px_session px)) (secret_key (px_session px)) \<and> received px' = []"
proof -
  let ?n = "8 + length (params_body params)" and ?data = "rb_data (recv_buf (px_session px))"
  have ok: "in_ok px" using assms(1) by (simp add: sess_inv_def)
  have len: "length (received px) = ?n" by (simp add: assms(6) startup_packet_def)
  have small: "?n \<le> 65535" using assms(3) by (simp add: params_ok_def)
  have u: "unat (word_of_nat ?n :: 32 word) = ?n" using small by (intro unat_small) simp
  obtain tail where tail: "?data = received px @ tail" using data_after_received [OF ok] by blast
  have "drop 8 ?data = params_body params @ tail" by (simp add: tail assms(6) startup_packet_def)
  then have ud: "startup_params ?data ?n 8 (None, None) = Some (fold (\<lambda>(k, v). set_param k v) params (None, None))"
    using assms(3) by (intro startup_params_read) (simp_all add: params_ok_def)
  let ?ud = "fold (\<lambda>(k, v). set_param k v) params (None, None)"
  obtain px' where px': "finish_login ?n ?ud px = Some (px', 0)" "step_ok others px px'" "received px' = drop ?n (received px)"
    "queued px' = queued px @ startup_bytes (sess_pid (px_session px)) (secret_key (px_session px))"
    "sess_user (px_session px') = Some (case fst ?ud of None \<Rightarrow> ''unknown'' | Some u \<Rightarrow> u)"
    "sess_database (px_session px') = Some (case snd ?ud of Some d \<Rightarrow> d
       | None \<Rightarrow> case fst ?ud of None \<Rightarrow> ''unknown'' | Some u \<Rightarrow> u)"
    "sess_state (px_session px') = SESSION_STATE_READY"
    using login_step [OF assms(1), of ?n ?ud] len assms(2) by auto
  have rd: "mem_read 0 4 ?data = Some (htonl_bytes (word_of_nat ?n))" "mem_read 4 4 ?data = Some (htonl_bytes 196608)"
    using received_read [OF ok, of 0 4] received_read [OF ok, of 4 4] len by (simp_all add: assms(6) startup_packet_def)
  have "handle_startup_message ?n px = Some (px', 0)"
    using px'(1) rd(2) ud assms(4,5)
    by (simp add: handle_startup_message_def PG_SSL_REQUEST_def PG_CANCEL_REQUEST_def PG_PROTOCOL_MAJOR_def)
  then have "process_step E pg px = Some (px', Continue)"
    using assms(2) rd(1) small u len received_length [OF ok]
    by (simp add: process_step_def init_step_def Let_def del: of_nat_add)
  moreover have "received px' = []" using px'(3) len by simp
  moreover have "in_ok px'" using step_ok_inv [OF px'(2)] by (simp add: sess_inv_def)
  ultimately have "fe_protocol_process E pg px = Some (px', 0)"
    using len by (subst process_nonempty [OF ok]) (auto simp: process_empty)
  then show ?thesis
    using px' \<open>received px' = []\<close>
    by (auto simp: fold_set_param login_user_def login_database_def split: option.splits)
qed

text \<open>C20: A login: a startup packet of protocol 3.0 is answered with AuthenticationOk, the seven
  parameters, the key data and ReadyForQuery, in this order; the session is then ready, with the
  user and database of the packet, \<open>unknown\<close> for a missing user and the user's name for a missing
  database.\<close>

theorem login_answered:
  assumes "sess_inv others px" "sess_state (px_session px) = SESSION_STATE_INIT" "params_ok params"
    and "sess_user (px_session px) = None" "sess_database (px_session px) = None"
    and "received px = startup_packet params"
  shows "\<exists>px' new. fe_protocol_process E pg px = Some (px', 0) \<and> sess_state (px_session px') = SESSION_STATE_READY \<and>
    sess_user (px_session px') = Some (login_user params) \<and> sess_database (px_session px') = Some (login_database params) \<and>
    received px' = [] \<and> queued px' = queued px @ new \<and>
    parse_frames new = Some (startup_messages (sess_pid (px_session px)) (secret_key (px_session px)))"
proof -
  have "list_all (\<lambda>m. fits (snd m)) (startup_messages i j)" for i j
    by (simp add: startup_messages_def fits_def param_payload_def)
  then have "parse_frames (startup_bytes i j) = Some (startup_messages i j)" for i j
    using parse_frames_concat [of "startup_messages i j" "[]"] by (simp add: startup_bytes_def)
  with login_process [OF assms, of E pg] show ?thesis by blast
qed

theorem login_answered_witness:
  "\<exists>px'. fe_protocol_process lab_ext Inr (demo_ready (startup_packet [(''user'', ''ann'')]) SESSION_STATE_INIT) = Some (px', 0) \<and>
     sess_state (px_session px') = SESSION_STATE_READY \<and> sess_user (px_session px') = Some ''ann'' \<and>
     sess_database (px_session px') = Some ''ann''"
proof -
  let ?px = "demo_ready (startup_packet [(''user'', ''ann'')]) SESSION_STATE_INIT"
  have "sess_inv (\<lambda>i. 0) ?px" by (rule demo_ready_inv) (simp add: startup_packet_def params_body_def)
  moreover have "params_ok [(''user'', ''ann'')]" by (simp add: params_ok_def params_body_def)
  moreover have "sess_user (px_session ?px) = None" "sess_database (px_session ?px) = None"
    by (simp_all add: demo_ready_def demo_busy_def demo_proxy_def fresh_session_def)
  ultimately obtain px' where "fe_protocol_process lab_ext Inr ?px = Some (px', 0)"
      "sess_state (px_session px') = SESSION_STATE_READY"
      "sess_user (px_session px') = Some (login_user [(''user'', ''ann'')])"
      "sess_database (px_session px') = Some (login_database [(''user'', ''ann'')])"
    using login_answered [of "\<lambda>i. 0" ?px "[(''user'', ''ann'')]" lab_ext Inr] by auto
  then show ?thesis by (simp add: login_user_def login_database_def)
qed

section \<open>COPY from the client\<close>

lemma int_of_len_small: "n < 16777216 \<Longrightarrow> int_of_len n = int n"
  by (simp add: int_of_len_def signed_of_nat signed_take_bit_int_eq_self)

definition put_chunk :: "'w ext \<Rightarrow> PGconn \<Rightarrow> byte list \<Rightarrow> 'w \<Rightarrow> 'w" where
  "put_chunk E conn d w = snd (PQputCopyData E conn d (int (length d)) w)"

definition copy_frames :: "byte list list \<Rightarrow> byte list" where
  "copy_frames ds = concat (map (frame MSG_COPY_DATA) ds)"

definition copying :: "PGconn \<Rightarrow> 'w proxy \<Rightarrow> bool" where
  "copying conn px \<longleftrightarrow> in_ok px \<and> sess_state (px_session px) = SESSION_STATE_COPY_IN \<and>
     backend_conn (px_session px) = conn \<and> conn \<noteq> None"

lemma copy_data_step:
  assumes "copying conn px" "received px = frame MSG_COPY_DATA d @ rest" "5 + length d \<le> 16777216"
    and "0 \<le> fst (PQputCopyData E conn d (int (length d)) (px_world px))"
  shows "\<exists>px'. process_step E pg px = Some (px', Continue) \<and> copying conn px' \<and> received px' = rest \<and>
    px_world px' = put_chunk E conn d (px_world px)"
proof -
  have ok: "in_ok px" and st: "sess_state (px_session px) = SESSION_STATE_COPY_IN"
    and conn: "backend_conn (px_session px) = conn" "conn \<noteq> None" using assms(1) by (simp_all add: copying_def)
  note nf = next_frame [OF assms(2,3)]
  obtain tail where "rb_data (recv_buf (px_session px)) = received px @ tail" using data_after_received [OF ok] by blast
  then have pay: "mem_read 0 (length d) (drop 5 (rb_data (recv_buf (px_session px)))) = Some d"
    by (simp add: assms(2) frame_def mem_read_def)
  obtain rc w where put: "PQputCopyData E conn d (int (length d)) (px_world px) = (rc, w)" by fastforce
  let ?px1 = "px\<lparr>px_world := w\<rparr>"
  have len: "unat (word_of_nat (length d) :: 32 word) = length d" using assms(3) by (intro unat_small) simp
  have "copy_handle_client_message E MSG_COPY_DATA (drop 5 (rb_data (recv_buf (px_session px)))) (length d) px = Some (?px1, 0)"
    using conn pay put assms(3,4) int_of_len_small [of "length d"] by (simp add: copy_handle_client_message_def Let_def)
  moreover have r1: "in_ok ?px1" "received ?px1 = received px" using ok by (simp_all add: received_def)
  moreover obtain rb where rb: "consume (5 + length d) ?px1 = Some (set_rb rb ?px1)" "rb_ok rb"
      "received (set_rb rb ?px1) = drop (5 + length d) (received ?px1)"
    using consume_facts [OF r1(1), of "5 + length d"] nf(7) r1(2) by metis
  ultimately have "process_step E pg px = Some (set_rb rb ?px1, Continue)"
    by (subst process_step_frame [OF ok _ _ assms(2,3)]) (simp_all add: st is_busy_def copy_in_step_def len)
  moreover have "copying conn (set_rb rb ?px1)" using assms(1) rb(2) by (simp add: copying_def)
  moreover have "received (set_rb rb ?px1) = rest" using rb(3) r1(2) nf(6) by simp
  ultimately show ?thesis by (auto simp: put_chunk_def put)
qed

lemma copy_done_step:
  assumes "copying conn px" "received px = frame MSG_COPY_DONE [] @ rest"
    and "PQputCopyEnd E conn None (px_world px) = (rc, w)" "0 \<le> rc"
  shows "\<exists>px'. process_step E pg px = Some (px', Continue) \<and> in_ok px' \<and> received px' = rest \<and>
    sess_state (px_session px') = SESSION_STATE_QUERY \<and> px_world px' = PQflush E conn w"
proof -
  have ok: "in_ok px" and st: "sess_state (px_session px) = SESSION_STATE_COPY_IN"
    and conn: "backend_conn (px_session px) = conn" "conn \<noteq> None" using assms(1) by (simp_all add: copying_def)
  have n: "5 + length ([] :: byte list) \<le> 16777216" by simp
  note nf = next_frame [OF assms(2) n]
  let ?px1 = "px\<lparr>px_world := PQflush E conn w\<rparr>"
  have "copy_handle_client_message E MSG_COPY_DONE (drop 5 (rb_data (recv_buf (px_session px)))) 0 px = Some (?px1, 1)"
    using conn assms(3,4) by (simp add: copy_handle_client_message_def)
  moreover have r1: "in_ok ?px1" "received ?px1 = received px" using ok by (simp_all add: received_def)
  moreover obtain rb where rb: "consume (5 + length ([] :: byte list)) ?px1 = Some (set_rb rb ?px1)" "rb_ok rb"
      "received (set_rb rb ?px1) = drop (5 + length ([] :: byte list)) (received ?px1)"
    using consume_facts [OF r1(1), of "5 + length ([] :: byte list)"] nf(7) r1(2) by metis
  ultimately have "process_step E pg px =
      Some (set_session (\<lambda>s. s\<lparr>sess_state := SESSION_STATE_QUERY\<rparr>) (set_rb rb ?px1), Continue)"
    by (subst process_step_frame [OF ok _ _ assms(2) n]) (simp_all add: st is_busy_def copy_in_step_def)
  moreover have "received (set_rb rb ?px1) = rest" using rb(3) r1(2) nf(6) by simp
  ultimately show ?thesis using rb(2) by auto
qed

lemma copy_chunks:
  assumes "copying conn px" "received px = copy_frames ds @ frame MSG_COPY_DONE []"
    and "list_all (\<lambda>d. 5 + length d \<le> 16777216) ds"
    and "\<forall>d w. 0 \<le> fst (PQputCopyData E conn d (int (length d)) w)" "\<forall>w. 0 \<le> fst (PQputCopyEnd E conn None w)"
  shows "\<exists>px'. fe_protocol_process E pg px = Some (px', 0) \<and> received px' = [] \<and>
    sess_state (px_session px') = SESSION_STATE_QUERY \<and>
    px_world px' = PQflush E conn (snd (PQputCopyEnd E conn None (fold (put_chunk E conn) ds (px_world px))))"
  using assms(1-3)
proof (induction ds arbitrary: px)
  case Nil
  have ok: "in_ok px" using Nil(1) by (simp add: copying_def)
  obtain rc w where e: "PQputCopyEnd E conn None (px_world px) = (rc, w)" by fastforce
  with assms(5) have "0 \<le> rc" by (metis fst_conv)
  with copy_done_step [OF Nil(1) _ e, of "[]" pg] Nil(2) obtain px' where
    px': "process_step E pg px = Some (px', Continue)" "in_ok px'" "received px' = []"
      "sess_state (px_session px') = SESSION_STATE_QUERY" "px_world px' = PQflush E conn w"
    by (auto simp: copy_frames_def)
  have "fe_protocol_process E pg px = Some (px', 0)"
    using px' Nil(2) by (subst process_nonempty [OF ok]) (simp_all add: process_empty)
  with px' e show ?case by auto
next
  case (Cons d ds)
  have ok: "in_ok px" using Cons.prems(1) by (simp add: copying_def)
  have r: "received px = frame MSG_COPY_DATA d @ (copy_frames ds @ frame MSG_COPY_DONE [])"
    using Cons.prems(2) by (simp add: copy_frames_def)
  obtain px1 where px1: "process_step E pg px = Some (px1, Continue)" "copying conn px1"
      "received px1 = copy_frames ds @ frame MSG_COPY_DONE []" "px_world px1 = put_chunk E conn d (px_world px)"
    using copy_data_step [OF Cons.prems(1) r, of E pg] Cons.prems(3) assms(4) by auto
  have "fe_protocol_process E pg px = fe_protocol_process E pg px1"
    using px1(1) r by (subst process_nonempty [OF ok]) simp_all
  with Cons.IH [OF px1(2,3)] Cons.prems(3) px1(4) show ?case by simp
qed



end
