(* ===== verification/Session_Handlers.thy ===== *)
theory Session_Handlers imports Session Fe_Messages begin

text \<open>
  Every handler of \<open>src/session/session.c\<close> keeps the invariant of the session and the account of the
  pools, or destroys the session and gives its connections back; and what the handlers of the backends
  queue, as lists of protocol messages.
\<close>

section \<open>The handlers keep the invariant\<close>

text \<open>What a handler leaves behind: a session in order, or none; in that case the pools count exactly
  the connections of the other sessions.\<close>

definition handled :: "(nat \<Rightarrow> nat) \<Rightarrow> 'w proxy \<Rightarrow> 'w proxy \<Rightarrow> bool" where
  "handled others px px' \<longleftrightarrow> routing px' = routing px \<and>
     (if px_alive px' then sess_inv others px' \<and> sess_addr (px_session px') = sess_addr (px_session px)
      else pools_hold px' others)"

lemma handled_step:
  assumes "step_ok others px px'" "px_alive px"
  shows "handled others px px'"
  using assms by (simp add: step_ok_def handled_def)

lemma handled_after:
  assumes "step_ok others px px1" "handled others px1 px2"
  shows "handled others px px2"
  using assms by (auto simp: step_ok_def handled_def)

lemma destroy_handled:
  assumes "session_destroy E px = Some px'" "conns_ok others px"
  shows "handled others px px'"
proof -
  obtain px1 where "session_destroy E px = Some px1" "pools_hold px1 others" "routing px1 = routing px" "\<not> px_alive px1"
    using assms(2) by (rule destroy_facts)
  with assms(1) show ?thesis by (simp add: handled_def)
qed

lemma inv_conns: "sess_inv others px \<Longrightarrow> conns_ok others px"
  by (simp add: sess_inv_def)

lemma mod_client_same: "same_but_out px (mod_client E evs px)"
  "send_buf (px_session (mod_client E evs px)) = send_buf (px_session px)"
  "send_pos (px_session (mod_client E evs px)) = send_pos (px_session px)"
  by (simp_all add: mod_client_def event_loop_mod_def Let_def case_prod_beta same_but_out_def but_out_def)

lemma send_out_ok:
  assumes "session_send E px = Some (px', rc)" "buf_ok (send_buf (px_session px))"
  shows "same_but_out px px' \<and> out_ok px'"
proof -
  define P where "P = (\<lambda>(E' :: 'a ext) (p :: 'a proxy) (r :: 'a proxy \<times> int).
    buf_ok (send_buf (px_session p)) \<longrightarrow> same_but_out p (fst r) \<and> out_ok (fst r))"
  have "P E px (px', rc)"
  proof (rule session_send.raw_induct [of P, OF _ assms(1)], goal_cases)
    case (1 f E' p r)
    show ?case
      unfolding P_def
    proof (intro impI)
      assume ok: "buf_ok (send_buf (px_session p))"
      show "same_but_out p (fst r) \<and> out_ok (fst r)"
      proof (cases "send_pos (px_session p) < mb_len (send_buf (px_session p))")
        case False
        let ?p = "p\<lparr>px_session := (px_session p)\<lparr>send_buf := msgbuf_reset (send_buf (px_session p)), send_pos := 0,
             ev_handler := (ev_handler (px_session p))\<lparr>ev_callback := Some On_Client_Readable\<rparr>\<rparr>\<rparr>"
        have "same_but_out p ?p" by (simp add: same_but_out_def but_out_def)
        then have "same_but_out p (mod_client E' {EPOLLIN} ?p)" using mod_client_same(1) by (rule same_but_out_trans)
        moreover have "fst r = mod_client E' {EPOLLIN} ?p" using False 1(2) by (auto simp: Let_def)
        ultimately show ?thesis using ok by (simp add: out_ok_def mod_client_same)
      next
        case True
        obtain d where d: "mem_read (send_pos (px_session p)) (mb_len (send_buf (px_session p)) - send_pos (px_session p))
            (mb_data (send_buf (px_session p))) = Some d"
          using True 1(2) by (auto simp: Let_def bind_eq_Some_conv)
        obtain s w where sw: "sys_send E' (client_fd (px_session p)) d (px_world p) = (s, w)" by fastforce
        note code = 1(2) [simplified True d sw Let_def if_True bind.simps prod.case]
        show ?thesis
        proof (cases s)
          case (Sent n)
          let ?p = "p\<lparr>px_session := (px_session p)\<lparr>send_pos := send_pos (px_session p) + n\<rparr>, px_world := w\<rparr>"
          from code Sent have "f E' ?p = Some r" by simp
          from 1(1) [OF this] ok have "same_but_out ?p (fst r)" "out_ok (fst r)" by (simp_all add: P_def)
          moreover have "same_but_out p ?p" by (simp add: same_but_out_def but_out_def)
          ultimately show ?thesis by (blast intro: same_but_out_trans)
        next
          case Send_Again
          let ?p = "p\<lparr>px_session := (px_session p)\<lparr>ev_handler := (ev_handler (px_session p))\<lparr>ev_callback := Some On_Client_Writable\<rparr>\<rparr>,
            px_world := w\<rparr>"
          have "same_but_out p ?p" by (simp add: same_but_out_def but_out_def)
          then have "same_but_out p (mod_client E' {EPOLLOUT} ?p)" using mod_client_same(1) by (rule same_but_out_trans)
          moreover have "fst r = mod_client E' {EPOLLOUT} ?p" using code Send_Again by auto
          ultimately show ?thesis using ok True by (simp add: out_ok_def mod_client_same)
        next
          case Send_Error
          with code have "fst r = p\<lparr>px_world := w\<rparr>" by auto
          with ok True show ?thesis by (simp add: out_ok_def same_but_out_def but_out_def)
        qed
      qed
    qed
  qed
  with assms(2) show ?thesis by (simp add: P_def)
qed

lemma send_step:
  assumes "session_send E px = Some (px', rc)" "sess_inv others px"
  shows "step_ok others px px'"
proof -
  have "buf_ok (send_buf (px_session px))" using assms(2) by (simp add: sess_inv_def out_ok_def)
  from send_out_ok [OF assms(1) this] have s: "same_but_out px px'" "out_ok px'" by simp_all
  with assms(2) conns_ok_out [OF s(1), of others] same_but_outD [OF s(1)] show ?thesis
    by (simp add: step_ok_def sess_inv_def no_scatter_def routing_def)
qed

lemma flush_handled:
  assumes "flush_or_destroy E px = Some px'" "sess_inv others px" "px_alive px"
  shows "handled others px px'"
proof -
  from assms(1) obtain px1 rc where px1: "session_send E px = Some (px1, rc)"
    "(if rc < 0 then session_destroy E px1 else Some px1) = Some px'"
    by (auto simp: flush_or_destroy_def bind_eq_Some_conv)
  note s = send_step [OF px1(1) assms(2)]
  show ?thesis
  proof (cases "rc < 0")
    case True
    with px1(2) have "session_destroy E px1 = Some px'" by simp
    from destroy_handled [OF this inv_conns [OF step_ok_inv [OF s]]] show ?thesis by (rule handled_after [OF s])
  next
    case False
    with px1(2) handled_step [OF s assms(3)] show ?thesis by simp
  qed
qed

lemma writable_handled:
  assumes "session_on_client_writable E events px = Some px'" "sess_inv others px" "px_alive px"
  shows "handled others px px'"
proof (cases "EPOLLERR \<in> events \<or> EPOLLHUP \<in> events")
  case True
  with assms(1) have "session_destroy E px = Some px'" by (simp add: session_on_client_writable_def)
  with inv_conns [OF assms(2)] show ?thesis by (intro destroy_handled)
next
  case False
  with assms(1) have "flush_or_destroy E px = Some px'"
    by (simp add: session_on_client_writable_def flush_or_destroy_def)
  with assms(2,3) show ?thesis by (intro flush_handled)
qed

lemma recvbuf_ensure_facts:
  assumes "rb_ok rb"
  obtains rb' where "recvbuf_ensure rb n = Some rb'" "rb_ok rb'" "rb_data rb' = rb_data rb" "rb_len rb' = rb_len rb"
    "rb_len rb + n \<le> rb_cap rb'"
proof (cases "rb_len rb + n \<le> rb_cap rb")
  case True
  with assms show ?thesis by (intro that [of rb]) (simp_all add: recvbuf_ensure_def)
next
  case False
  obtain c where c: "grow_cap (rb_cap rb * 2) (rb_len rb + n) = Some c" "rb_len rb + n \<le> c" "rb_cap rb * 2 \<le> c"
    using grow_cap_total [of "rb_cap rb * 2" "rb_len rb + n"] assms by (auto simp: rb_ok_def)
  with False assms show ?thesis
    by (intro that [of "rb\<lparr>rb_cap := c\<rparr>"]) (auto simp: recvbuf_ensure_def rb_ok_def)
qed

lemma rb_fill_facts:
  assumes "rb_ok rb" "rb_fill rb d = Some rb'"
  shows "rb_ok rb'" "take (rb_len rb') (rb_data rb') = take (rb_len rb) (rb_data rb) @ d"
  using assms by (auto simp: rb_ok_def rb_fill_def mem_write_def bind_eq_Some_conv split: if_splits)

lemma set_rb_step:
  assumes "sess_inv others px" "rb_ok rb"
  shows "step_ok others px (set_rb rb px)"
  using assms by (simp add: step_ok_def sess_inv_def)

text \<open>What the handler does with received bytes, and that it keeps the invariant.\<close>

definition after_recv :: "'w ext \<Rightarrow> (cstring \<Rightarrow> PgQueryError + cstring) \<Rightarrow> 'w proxy \<Rightarrow> 'w proxy option" where
  "after_recv E pg px = do {
     (px, rc) \<leftarrow> fe_protocol_process E pg px;
     if rc < 0 then session_destroy E px
     else if send_pos (px_session px) < mb_len (send_buf (px_session px)) then flush_or_destroy E px
     else Some px
   }"

lemma after_recv_handled:
  assumes "null_is_bad E" "after_recv E pg px = Some px'" "sess_inv others px" "px_alive px"
  shows "handled others px px'"
proof -
  from assms(2) obtain px2 rc where p: "fe_protocol_process E pg px = Some (px2, rc)"
    and e: "(if rc < 0 then session_destroy E px2
        else if send_pos (px_session px2) < mb_len (send_buf (px_session px2)) then flush_or_destroy E px2
        else Some px2) = Some px'"
    by (auto simp: after_recv_def bind_eq_Some_conv)
  note s = process_ok [OF assms(1) p assms(3)]
  have al: "px_alive px2" using s assms(4) by (simp add: step_ok_def)
  have "handled others px2 px'"
    using e destroy_handled [OF _ inv_conns [OF step_ok_inv [OF s]]] flush_handled [OF _ step_ok_inv [OF s] al]
      handled_step [OF step_ok_refl [OF step_ok_inv [OF s]] al]
    by (auto split: if_splits)
  then show ?thesis by (rule handled_after [OF s])
qed

lemma readable_received:
  assumes "in_ok px" "EPOLLERR \<notin> events" "EPOLLHUP \<notin> events" "d \<noteq> []" "length d \<le> 4096"
    and "\<forall>n \<ge> 4096. sys_recv E (client_fd (px_session px)) n (px_world px) = (Received d, w1)"
  obtains rb where "rb_ok rb" "received (set_rb rb px) = received px @ d"
    "session_on_client_readable E pg events px = after_recv E pg ((set_rb rb px)\<lparr>px_world := w1\<rparr>)"
proof -
  from recvbuf_ensure_facts [OF assms(1), of 4096] obtain rb where rb: "recvbuf_ensure (recv_buf (px_session px)) 4096 = Some rb" "rb_ok rb"
    "rb_data rb = rb_data (recv_buf (px_session px))" "rb_len rb = rb_len (recv_buf (px_session px))"
    "rb_len (recv_buf (px_session px)) + 4096 \<le> rb_cap rb" .
  have "sys_recv E (client_fd (px_session px)) (rb_cap rb - rb_len rb) (px_world px) = (Received d, w1)"
    using assms(6) rb(4,5) by simp
  moreover have "\<exists>rb2. rb_fill rb d = Some rb2" using rb(2,4,5) assms(5) by (simp add: rb_fill_def mem_write_def rb_ok_def)
  then obtain rb2 where fill: "rb_fill rb d = Some rb2" ..
  ultimately have "session_on_client_readable E pg events px = after_recv E pg ((set_rb rb2 px)\<lparr>px_world := w1\<rparr>)"
    using assms(2-4) rb(1) unfolding session_on_client_readable_def after_recv_def Let_def set_rb_def by (cases px) (simp add: set_session_def)
  moreover have "received (set_rb rb2 px) = received px @ d"
    using rb_fill_facts(2) [OF rb(2) fill] rb(3,4) by (simp add: received_def)
  ultimately show ?thesis using that rb_fill_facts(1) [OF rb(2) fill] by blast
qed

lemma readable_handled:
  assumes "null_is_bad E" "session_on_client_readable E pg events px = Some px'" "sess_inv others px" "px_alive px"
  shows "handled others px px'"
proof (cases "EPOLLERR \<in> events \<or> EPOLLHUP \<in> events")
  case True
  with assms(2) have "session_destroy E px = Some px'" by (simp add: session_on_client_readable_def)
  with inv_conns [OF assms(3)] show ?thesis by (intro destroy_handled)
next
  case False
  have "in_ok px" using assms(3) by (simp add: sess_inv_def)
  from recvbuf_ensure_facts [OF this, of 4096] obtain rb where rb: "recvbuf_ensure (recv_buf (px_session px)) 4096 = Some rb" "rb_ok rb" .
  obtain r w where r: "sys_recv E (client_fd (px_session px)) (rb_cap rb - rb_len rb) (px_world px) = (r, w)" by fastforce
  let ?px1 = "(set_rb rb px)\<lparr>px_world := w\<rparr>"
  note s0 = set_rb_step [OF assms(3) rb(2)]
  have s1: "step_ok others px ?px1" using world_step(1) [OF step_ok_inv [OF s0], of ?px1] step_ok_trans [OF s0] by simp
  have code: "(case r of Recv_Again \<Rightarrow> Some ?px1 | Recv_Error \<Rightarrow> session_destroy E ?px1
      | Received d \<Rightarrow> if d = [] then session_destroy E ?px1
          else Option.bind (rb_fill rb d) (\<lambda>rb. after_recv E pg (set_rb rb ?px1))) = Some px'"
    using assms(2) False rb(1) r unfolding session_on_client_readable_def after_recv_def Let_def set_rb_def by (cases r) simp_all
  then consider "px' = ?px1" | "session_destroy E ?px1 = Some px'"
    | d rb2 where "rb_fill rb d = Some rb2" "after_recv E pg (set_rb rb2 ?px1) = Some px'"
    by (cases r) (auto simp: bind_eq_Some_conv split: if_splits)
  then show ?thesis
  proof cases
    case 1
    with handled_step [OF s1 assms(4)] show ?thesis by simp
  next
    case 2
    from destroy_handled [OF this inv_conns [OF step_ok_inv [OF s1]]] show ?thesis by (rule handled_after [OF s1])
  next
    case (3 d rb2)
    note s2 = step_ok_trans [OF s1 set_rb_step [OF step_ok_inv [OF s1] rb_fill_facts(1) [OF rb(2) 3(1)]]]
    have "px_alive (set_rb rb2 ?px1)" using assms(4) by simp
    from after_recv_handled [OF assms(1) 3(2) step_ok_inv [OF s2] this] show ?thesis by (rule handled_after [OF s2])
  qed
qed

lemma backend_lost_handled:
  assumes "backend_lost E m px = Some px'" "sess_inv others px"
  shows "handled others px px'"
proof -
  have q: "queues (\<lambda>px :: 'a proxy. put_out (\<lambda>b. msg_write_error b ''FATAL'' ''08006'' m) px)
      (frame MSG_ERROR_RESPONSE ([CHR ''S''] @ (''FATAL'' @ [NUL]) @ [CHR ''C''] @ (''08006'' @ [NUL]) @ [CHR ''M''] @ (m @ [NUL]) @ [NUL]))"
    by (rule queues_put_out [OF msg_write_appends(5)])
  obtain b where b: "fe_send_error ''FATAL'' ''08006'' m px = Some (set_out b px)" "step_ok others px (set_out b px)"
    using queue_step [OF q assms(2)] unfolding fe_send_error_def by metis
  with assms(1) obtain px1 rc where px1: "session_send E (set_out b px) = Some (px1, rc)" "session_destroy E px1 = Some px'"
    by (auto simp: backend_lost_def bind_eq_Some_conv)
  note s = step_ok_trans [OF b(2) send_step [OF px1(1) step_ok_inv [OF b(2)]]]
  from destroy_handled [OF px1(2) inv_conns [OF step_ok_inv [OF s]]] show ?thesis by (rule handled_after [OF s])
qed

section \<open>What a result becomes\<close>

text \<open>The messages that the protocol prescribes for a result, independent of the buffers.\<close>

definition diag_bytes :: "byte \<Rightarrow> cstring option \<Rightarrow> byte list" where
  "diag_bytes c field = (case field of None \<Rightarrow> [] | Some v \<Rightarrow> c # v @ [NUL])"

definition error_payload :: "PGresult \<Rightarrow> byte list" where
  "error_payload res = diag_bytes (CHR ''S'') (diag_severity res) @ diag_bytes (CHR ''C'') (diag_sqlstate res) @
     diag_bytes (CHR ''M'') (diag_primary res) @ diag_bytes (CHR ''D'') (diag_detail res) @ [NUL]"

definition formats_payload :: "nat \<Rightarrow> byte list" where
  "formats_payload n = NUL # htons_bytes (word_of_nat n) @ concat (replicate n (htons_bytes 0))"

definition reply_messages :: "PGresult \<Rightarrow> bool \<Rightarrow> (byte \<times> byte list) list" where
  "reply_messages res header_sent =
     (case PQresultStatus res of
        PGRES_TUPLES_OK \<Rightarrow> result_messages res (\<not> header_sent) @
          [(MSG_CMD_COMPLETE, result_tag res (PQntuples res) @ [NUL])]
      | PGRES_SINGLE_TUPLE \<Rightarrow> result_messages res (\<not> header_sent)
      | PGRES_COMMAND_OK \<Rightarrow> [(MSG_CMD_COMPLETE, PQcmdStatus res @ [NUL])]
      | PGRES_COPY_IN \<Rightarrow> [(MSG_COPY_IN_RESP, formats_payload (PQnfields res))]
      | PGRES_COPY_OUT \<Rightarrow> [(MSG_COPY_OUT_RESP, formats_payload (PQnfields res))]
      | PGRES_FATAL_ERROR \<Rightarrow> [(MSG_ERROR_RESPONSE, error_payload res)]
      | _ \<Rightarrow> [])"

definition has_rows :: "PGresult \<Rightarrow> bool" where
  "has_rows res \<longleftrightarrow> PQresultStatus res = PGRES_TUPLES_OK \<or> PQresultStatus res = PGRES_SINGLE_TUPLE"

definition copy_stop :: "PGresult \<Rightarrow> results_end option" where
  "copy_stop res = (if PQresultStatus res = PGRES_COPY_IN then Some Copy_In_Started
     else if PQresultStatus res = PGRES_COPY_OUT then Some Copy_Out_Started else None)"

definition stop_state :: "results_end option \<Rightarrow> 'w proxy \<Rightarrow> 'w proxy" where
  "stop_state e px = (case e of
       Some Copy_In_Started \<Rightarrow> set_session (\<lambda>s. s\<lparr>sess_state := SESSION_STATE_COPY_IN\<rparr>) px
     | Some Copy_Out_Started \<Rightarrow> set_session (\<lambda>s. s\<lparr>sess_state := SESSION_STATE_COPY_OUT\<rparr>) px
     | _ \<Rightarrow> px)"

definition wire :: "(byte \<times> byte list) list \<Rightarrow> byte list" where
  "wire ms = concat (map (\<lambda>m. frame (fst m) (snd m)) ms)"

lemma wire_simps [simp]: "wire [] = []" "wire (m # ms) = frame (fst m) (snd m) @ wire ms" "wire (xs @ ys) = wire xs @ wire ys"
  by (simp_all add: wire_def)

lemma put_formats_appends: "appends buf_ok contents (put_formats n) (concat (replicate n (htons_bytes 0)))"
proof (induction n)
  case 0
  then show ?case by (simp add: appends_Some)
next
  case (Suc n)
  from appends_bind [OF put_appends(2) this] show ?case by simp
qed

lemma put_diag_appends: "appends buf_ok contents (put_diag c field) (diag_bytes c field)"
proof (cases field)
  case None
  then have "put_diag c field = Some" by (intro ext) (simp add: put_diag_def)
  with None show ?thesis by (simp add: diag_bytes_def appends_Some)
next
  case (Some v)
  then have "put_diag c field = (\<lambda>msg. Option.bind (msgbuf_put_byte msg c) (\<lambda>msg. msgbuf_put_string msg v))"
    by (intro ext) (simp add: put_diag_def)
  with Some appends_bind [OF put_appends(1) put_appends(4)] show ?thesis by (simp add: diag_bytes_def)
qed

lemma copy_response_appends: "appends buf_ok contents (copy_response ty n) (frame ty (formats_payload n))"
proof -
  have p: "formats_payload n = [NUL] @ htons_bytes (word_of_nat n) @ concat (replicate n (htons_bytes 0))"
    by (simp add: formats_payload_def)
  show ?thesis
    unfolding copy_response_def p
    by (rule framed, (rule appends_bind put_appends put_formats_appends)+, simp add: Option.bind_assoc)
qed

lemma error_response_appends: "appends buf_ok contents (error_response res) (frame MSG_ERROR_RESPONSE (error_payload res))"
  unfolding error_response_def error_payload_def
  by (rule framed, (rule appends_bind put_appends put_diag_appends)+, simp add: Option.bind_assoc)

lemma queues_command_complete: "queues (command_complete tag :: 'w proxy \<Rightarrow> 'w proxy option) (wire [(MSG_CMD_COMPLETE, tag @ [NUL])])"
proof -
  have "command_complete tag = (queue_new 64 (\<lambda>msg. msg_write_command_complete msg tag) :: 'w proxy \<Rightarrow> 'w proxy option)"
    by (rule ext) (simp add: command_complete_def)
  then show ?thesis using queues_queue_new [OF msg_write_appends(6), of 64] by simp
qed

lemma queues_copy_response: "queues (queue_new 32 (copy_response ty n)) (wire [(ty, formats_payload n)])"
  using queues_queue_new [OF copy_response_appends, of 32] by simp

lemma queues_error_response: "queues (queue_new 256 (error_response res)) (wire [(MSG_ERROR_RESPONSE, error_payload res)])"
  using queues_queue_new [OF error_response_appends, of 256] by simp

lemmas forward_defs = forward_one_def reply_messages_def copy_stop_def has_rows_def stop_state_def

lemma result_bytes_wire: "result_bytes res hdr = wire (result_messages res hdr)"
  by (simp add: result_bytes_def wire_def)

lemma queues_forward: "queues (\<lambda>px :: 'w proxy. map_option fst (session_forward_result res hdr px)) (wire (result_messages res hdr))"
  unfolding queues_def
proof (intro allI impI)
  fix px :: "'w proxy"
  assume "buf_ok (send_buf (px_session px))"
  from forward_result_ok [OF this, of res hdr] show "\<exists>b. map_option fst (session_forward_result res hdr px) = Some (set_out b px) \<and>
      buf_ok b \<and> contents b = queued px @ wire (result_messages res hdr)"
    by (metis fst_conv option.map(2) result_bytes_wire)
qed

lemma forward_one_ok:
  assumes "buf_ok (send_buf (px_session px))"
  obtains b where "forward_one res hs px = Some (stop_state (copy_stop res) (set_out b px), hs \<or> has_rows res, copy_stop res)"
    "buf_ok b" "contents b = queued px @ wire (reply_messages res hs)"
proof -
  obtain b where r: "session_forward_result res (\<not> hs) px = Some (set_out b px, PQntuples res)" "buf_ok b"
    "contents b = queued px @ wire (result_messages res (\<not> hs))"
    using forward_result_ok [OF assms, of res "\<not> hs"] result_bytes_wire by metis
  have b: "buf_ok (send_buf (px_session (set_out b px)))" using r(2) by simp
  show ?thesis
  proof (cases "PQresultStatus res")
    case PGRES_TUPLES_OK
    obtain b2 where "command_complete (result_tag res (PQntuples res)) (set_out b px) = Some (set_out b2 (set_out b px))"
      "buf_ok b2" "contents b2 = queued (set_out b px) @ wire [(MSG_CMD_COMPLETE, result_tag res (PQntuples res) @ [NUL])]"
      using queues_command_complete b by (rule queuesD)
    with PGRES_TUPLES_OK r show ?thesis
      by (intro that [of b2]) (simp_all add: forward_defs queued_def)
  next
    case PGRES_SINGLE_TUPLE
    with r show ?thesis
      by (intro that [of b]) (simp_all add: forward_defs)
  next
    case PGRES_COMMAND_OK
    show ?thesis
      by (rule queuesD [OF queues_command_complete [of "PQcmdStatus res"] assms], rule that) (simp_all add: PGRES_COMMAND_OK forward_defs)
  next
    case PGRES_COPY_IN
    show ?thesis
      by (rule queuesD [OF queues_copy_response [of MSG_COPY_IN_RESP "PQnfields res"] assms], rule that) (simp_all add: PGRES_COPY_IN forward_defs)
  next
    case PGRES_COPY_OUT
    show ?thesis
      by (rule queuesD [OF queues_copy_response [of MSG_COPY_OUT_RESP "PQnfields res"] assms], rule that) (simp_all add: PGRES_COPY_OUT forward_defs)
  next
    case PGRES_FATAL_ERROR
    show ?thesis
      by (rule queuesD [OF queues_error_response [of res] assms], rule that) (simp_all add: PGRES_FATAL_ERROR forward_defs)
  qed (use assms in \<open>auto intro!: that [of "send_buf (px_session px)"] simp: forward_defs queued_def set_out_def set_session_def\<close>)
qed

section \<open>The result loop\<close>

text \<open>What a step of the backend handler keeps: the invariant, and that no scatter is in flight.\<close>

definition calm_step :: "(nat \<Rightarrow> nat) \<Rightarrow> 'w proxy \<Rightarrow> 'w proxy \<Rightarrow> bool" where
  "calm_step others px px' \<longleftrightarrow> step_ok others px px' \<and> sess_state (px_session px') \<noteq> SESSION_STATE_SCATTER"

lemma calm_trans: "calm_step others a b \<Longrightarrow> calm_step others b c \<Longrightarrow> calm_step others a c"
  by (auto simp: calm_step_def intro: step_ok_trans)

lemma calmD: "calm_step others px px' \<Longrightarrow> sess_inv others px'"
  "calm_step others px px' \<Longrightarrow> sess_state (px_session px') \<noteq> SESSION_STATE_SCATTER"
  "calm_step others px px' \<Longrightarrow> px_alive px' = px_alive px"
  by (simp_all add: calm_step_def step_ok_def)

lemma calm_refl:
  "sess_inv others px \<Longrightarrow> sess_state (px_session px) \<noteq> SESSION_STATE_SCATTER \<Longrightarrow> calm_step others px px"
  by (simp add: calm_step_def step_ok_refl)

lemma calm_state:
  assumes "sess_inv others px" "sess_state (px_session px) \<noteq> SESSION_STATE_SCATTER" "st \<noteq> SESSION_STATE_SCATTER"
  shows "calm_step others px (set_session (\<lambda>s. s\<lparr>sess_state := st\<rparr>) px)"
  using step_ok_state [OF assms(1,2)] assms(3) by (simp add: calm_step_def)

lemma calm_world:
  assumes "sess_inv others px" "sess_state (px_session px) \<noteq> SESSION_STATE_SCATTER"
  shows "calm_step others px (px\<lparr>px_world := w\<rparr>)"
  using world_step(1) [OF assms(1), of "px\<lparr>px_world := w\<rparr>"] assms(2) by (simp add: calm_step_def)

lemma calm_out:
  assumes "buf_ok b" "contents b = queued px @ xs" "sess_inv others px" "sess_state (px_session px) \<noteq> SESSION_STATE_SCATTER"
  shows "calm_step others px (set_out b px)"
  using out_step [OF assms(1-3)] assms(4) by (simp add: calm_step_def)

lemma calm_queue:
  assumes "queues f xs" "f px = Some px'" "sess_inv others px" "sess_state (px_session px) \<noteq> SESSION_STATE_SCATTER"
  shows "calm_step others px px'"
proof -
  from assms(1) inv_out [OF assms(3)] obtain b where b: "f px = Some (set_out b px)" "buf_ok b" "contents b = queued px @ xs"
    by (rule queuesD)
  from calm_out [OF b(2,3) assms(3,4)] b(1) assms(2) show ?thesis by simp
qed

lemma forward_one_calm:
  assumes "forward_one res hs px = Some (px', hs', e)" "sess_inv others px" "sess_state (px_session px) \<noteq> SESSION_STATE_SCATTER"
  shows "calm_step others px px'" "backend_conn (px_session px') = backend_conn (px_session px)"
proof -
  obtain b where b: "forward_one res hs px = Some (stop_state (copy_stop res) (set_out b px), hs \<or> has_rows res, copy_stop res)"
    "buf_ok b" "contents b = queued px @ wire (reply_messages res hs)"
    using inv_out [OF assms(2)] by (rule forward_one_ok)
  note c = calm_out [OF b(2,3) assms(2,3)]
  have px': "px' = stop_state (copy_stop res) (set_out b px)" using b(1) assms(1) by simp
  with c calm_trans [OF c calm_state [OF calmD(1,2) [OF c]]] show "calm_step others px px'"
    by (auto simp: stop_state_def split: option.splits results_end.splits)
  show "backend_conn (px_session px') = backend_conn (px_session px)"
    by (simp add: px' stop_state_def split: option.split results_end.split)
qed

lemma backend_results_calm:
  assumes "backend_results E hs px = Some (px', e)" "sess_inv others px" "sess_state (px_session px) \<noteq> SESSION_STATE_SCATTER"
  shows "calm_step others px px' \<and> backend_conn (px_session px') = backend_conn (px_session px)"
proof -
  define P where "P = (\<lambda>(E :: 'a ext) (hs :: bool) (p :: 'a proxy) (r :: 'a proxy \<times> results_end).
    sess_inv others p \<longrightarrow> sess_state (px_session p) \<noteq> SESSION_STATE_SCATTER \<longrightarrow>
      calm_step others p (fst r) \<and> backend_conn (px_session (fst r)) = backend_conn (px_session p))"
  have "P E hs px (px', e)"
  proof (rule backend_results.raw_induct [of P, OF _ assms(1)], goal_cases)
    case (1 f E h p r)
    show ?case
      unfolding P_def
    proof (intro impI)
      assume inv: "sess_inv others p" "sess_state (px_session p) \<noteq> SESSION_STATE_SCATTER"
      obtain res w where g: "PQgetResult E (backend_conn (px_session p)) (px_world p) = (res, w)" by fastforce
      note c = calm_world [OF inv, of w]
      show "calm_step others p (fst r) \<and> backend_conn (px_session (fst r)) = backend_conn (px_session p)"
      proof (cases res)
        case None
        with 1(2) g c show ?thesis by auto
      next
        case (Some x)
        with 1(2) g obtain p1 h1 st where p1: "forward_one x h (p\<lparr>px_world := w\<rparr>) = Some (p1, h1, st)"
          "(case st of Some e \<Rightarrow> Some (p1, e) | None \<Rightarrow> f E h1 p1) = Some r"
          by (auto simp: bind_eq_Some_conv)
        note c1 = calm_trans [OF c forward_one_calm(1) [OF p1(1) calmD(1,2) [OF c]]]
        have "backend_conn (px_session p1) = backend_conn (px_session p)"
          using forward_one_calm(2) [OF p1(1) calmD(1,2) [OF c]] by simp
        with p1(2) 1(1) [of E h1 p1 r] calmD(1,2) [OF c1] calm_trans [OF c1] c1 show ?thesis
          by (auto simp: P_def split: option.splits)
      qed
    qed
  qed
  with assms(2,3) show ?thesis by (simp add: P_def)
qed

lemma queues_ready_wire: "queues (queue_ready c :: 'w proxy \<Rightarrow> 'w proxy option) (wire [(MSG_READY_FOR_QUERY, [c])])"
  using queues_ready by simp

text \<open>A pool connection is given back exactly when the backend is idle; a connection that is not from
  a pool stays with the session.\<close>

definition releases :: "'w ext \<Rightarrow> 'w proxy \<Rightarrow> bool" where
  "releases E px \<longleftrightarrow> backend_shard (px_session px) \<noteq> None \<and>
     PQtransactionStatus E (backend_conn (px_session px)) (px_world px) = PQTRANS_IDLE"

definition ready_message :: "'w ext \<Rightarrow> 'w proxy \<Rightarrow> byte \<times> byte list" where
  "ready_message E px =
     (MSG_READY_FOR_QUERY, [txn_char (PQtransactionStatus E (backend_conn (px_session px)) (px_world px))])"

lemma no_shard_conns:
  assumes "conns_ok others px" "backend_conn (px_session px) = None"
  shows "conns_ok others (set_session (\<lambda>s. s\<lparr>backend_shard := None\<rparr>) px)"
proof -
  have "borrowed ((px_session px)\<lparr>backend_shard := None\<rparr>) = borrowed (px_session px)"
    using assms(2) by (simp add: borrowed_def fun_eq_iff)
  moreover have "nshards (set_session (\<lambda>s. s\<lparr>backend_shard := None\<rparr>) px) = nshards px" by (simp add: nshards_def)
  ultimately show ?thesis using assms(1) by (simp add: conns_ok_def Let_def pools_hold_def)
qed

lemma ready_release_facts:
  assumes "sess_inv others px" "sess_state (px_session px) \<noteq> SESSION_STATE_SCATTER" "backend_conn (px_session px) \<noteq> None"
  obtains px' b where "ready_release E px = Some px'" "calm_step others px px'"
    "px_session px' = (if releases E px then (px_session px)\<lparr>send_buf := b, backend_conn := None, backend_shard := None\<rparr>
       else (px_session px)\<lparr>send_buf := b\<rparr>)"
    "contents b = queued px @ wire [ready_message E px]"
proof -
  let ?t = "PQtransactionStatus E (backend_conn (px_session px)) (px_world px)"
  obtain b where b: "queue_ready (txn_char ?t) px = Some (set_out b px)" "buf_ok b"
      "contents b = queued px @ wire [(MSG_READY_FOR_QUERY, [txn_char ?t])]"
    using queues_ready_wire inv_out [OF assms(1)] by (rule queuesD)
  note c = calm_out [OF b(2,3) assms(1,2)]
  show ?thesis
  proof (cases "releases E px")
    case False
    with b(1) have "ready_release E px = Some (set_out b px)"
      by (auto simp: ready_release_def releases_def Let_def split: option.splits)
    from that [OF this c _] b(3) False show ?thesis by (simp add: ready_message_def)
  next
    case True
    then obtain i where i: "backend_shard (px_session px) = Some i" "?t = PQTRANS_IDLE" by (auto simp: releases_def)
    have "backend_conn (px_session (set_out b px)) \<noteq> None" using assms(3) by simp
    from end_backend_facts [OF inv_conns [OF calmD(1) [OF c]] this] obtain px1 where
      px1: "end_backend E (set_out b px) = Some px1" "px_session px1 = (px_session (set_out b px))\<lparr>backend_conn := None\<rparr>"
        "conns_ok others px1" "routing px1 = routing (set_out b px)" "px_alive px1 = px_alive (set_out b px)" .
    let ?px = "set_session (\<lambda>s. s\<lparr>backend_shard := None\<rparr>) px1"
    have "ready_release E px = Some ?px"
      using b(1) i px1(1) by (auto simp: ready_release_def end_backend_def give_back_def Let_def bind_eq_Some_conv
          set_session_def)
    moreover have "calm_step others (set_out b px) ?px"
      using calmD(1,2) [OF c] no_shard_conns [OF px1(3)] px1(2,4,5)
      by (simp add: calm_step_def step_ok_def sess_inv_def out_ok_def no_scatter_def routing_def)
    ultimately show ?thesis
      using that [of ?px b] calm_trans [OF c] True b(3) px1(2) by (simp add: ready_message_def)
  qed
qed

section \<open>COPY OUT\<close>

lemma copy_data_queues:
  assumes "0 < n" "mem_read 0 (nat n) buf = Some d"
  shows "queues (queue_new (nat n + 8) (copy_data_message buf n) :: 'w proxy \<Rightarrow> 'w proxy option) (wire [(MSG_COPY_DATA, d)])"
proof -
  have "length d = nat n" using assms by (auto simp: mem_read_def split: if_splits)
  then have n: "n = int (length d)" using assms(1) by simp
  have l: "(word_of_int (n + 4) :: 32 word) = word_of_nat (4 + length d)" unfolding n by simp
  have e: "copy_data_message buf n = (\<lambda>msg. Option.bind (msgbuf_put_byte msg MSG_COPY_DATA)
      (\<lambda>msg. Option.bind (msgbuf_put_int32 msg (word_of_nat (4 + length d))) (\<lambda>msg. msgbuf_put_bytes msg d)))"
    using assms(2) by (intro ext) (simp only: copy_data_message_def l bind.simps)
  have "appends buf_ok contents (copy_data_message buf n)
      ([MSG_COPY_DATA] @ htonl_bytes (word_of_nat (4 + length d)) @ d)"
    unfolding e by (intro appends_bind put_appends)
  then have "appends buf_ok contents (copy_data_message buf n) (wire [(MSG_COPY_DATA, d)])"
    by (simp add: frame_def)
  then show ?thesis by (rule queues_queue_new) simp
qed

lemma copy_out_loop_calm:
  assumes "copy_out_loop E px = Some (px', n)" "sess_inv others px" "sess_state (px_session px) \<noteq> SESSION_STATE_SCATTER"
  shows "calm_step others px px' \<and> backend_conn (px_session px') = backend_conn (px_session px)"
proof -
  define P where "P = (\<lambda>(E :: 'a ext) (p :: 'a proxy) (r :: 'a proxy \<times> int).
    sess_inv others p \<longrightarrow> sess_state (px_session p) \<noteq> SESSION_STATE_SCATTER \<longrightarrow>
      calm_step others p (fst r) \<and> backend_conn (px_session (fst r)) = backend_conn (px_session p))"
  have "P E px (px', n)"
  proof (rule copy_out_loop.raw_induct [of P, OF _ assms(1)], goal_cases)
    case (1 f E p r)
    show ?case
      unfolding P_def
    proof (intro impI)
      assume inv: "sess_inv others p" "sess_state (px_session p) \<noteq> SESSION_STATE_SCATTER"
      obtain k buf w where g: "PQgetCopyData E (backend_conn (px_session p)) (px_world p) = ((k, buf), w)"
        by (metis surj_pair)
      note c = calm_world [OF inv, of w]
      show "calm_step others p (fst r) \<and> backend_conn (px_session (fst r)) = backend_conn (px_session p)"
      proof (cases "0 < k")
        case False
        with 1(2) g c show ?thesis by auto
      next
        case True
        with 1(2) g obtain p1 where p1: "queue_new (nat k + 8) (copy_data_message buf k) (p\<lparr>px_world := w\<rparr>) = Some p1"
          "f E p1 = Some r" by (auto simp: bind_eq_Some_conv)
        obtain d where d: "mem_read 0 (nat k) buf = Some d"
          using p1(1) by (auto simp: queue_new_def copy_data_message_def bind_eq_Some_conv)
        note q = copy_data_queues [OF True d, where 'w = 'a]
        note c1 = calm_trans [OF c calm_queue [OF q p1(1) calmD(1,2) [OF c]]]
        have "backend_conn (px_session p1) = backend_conn (px_session p)"
          using queuesD [OF q inv_out [OF calmD(1) [OF c]]] p1(1) by force
        with 1(1) [OF p1(2)] calmD(1,2) [OF c1] calm_trans [OF c1] show ?thesis by (simp add: P_def)
      qed
    qed
  qed
  with assms(2,3) show ?thesis by (simp add: P_def)
qed

lemma queues_copy_done:
  "queues (queue_new 8 (\<lambda>msg. Option.bind (msgbuf_put_byte msg MSG_COPY_DONE) (\<lambda>msg. msgbuf_put_int32 msg 4)))
     (wire [(MSG_COPY_DONE, [])])"
proof -
  have "wire [(MSG_COPY_DONE, [])] = [MSG_COPY_DONE] @ htonl_bytes 4" by (simp add: frame_def)
  then show ?thesis using queues_queue_new [OF appends_bind [OF put_appends(1) put_appends(3)], of 8] by simp
qed

text \<open>What follows the end of the data: the tag of the final result, if that is a success.\<close>

definition copy_tail :: "PGresult option \<Rightarrow> (byte \<times> byte list) list" where
  "copy_tail fin = (case fin of
     Some r \<Rightarrow> if PQresultStatus r = PGRES_COMMAND_OK then [(MSG_CMD_COMPLETE, PQcmdStatus r @ [NUL])] else []
   | None \<Rightarrow> [])"

lemma copy_tail_queues:
  "queues (\<lambda>px :: 'w proxy. case fin of Some r \<Rightarrow> if PQresultStatus r = PGRES_COMMAND_OK then command_complete (PQcmdStatus r) px else Some px
     | None \<Rightarrow> Some px) (wire (copy_tail fin))"
proof (cases "\<exists>r. fin = Some r \<and> PQresultStatus r = PGRES_COMMAND_OK")
  case True
  then obtain r where "fin = Some r" "PQresultStatus r = PGRES_COMMAND_OK" by blast
  with queues_command_complete [of "PQcmdStatus r", where 'w = 'w] show ?thesis by (simp add: copy_tail_def)
next
  case False
  then have "copy_tail fin = []" "(case fin of Some r \<Rightarrow> if PQresultStatus r = PGRES_COMMAND_OK then command_complete (PQcmdStatus r) px else Some px
     | None \<Rightarrow> Some px) = Some px" for px :: "'w proxy" by (auto simp: copy_tail_def split: option.split)
  with queues_Some show ?thesis by simp
qed

lemma copy_out_read_calm:
  assumes "copy_out_read E px = Some px'" "sess_inv others px" "sess_state (px_session px) \<noteq> SESSION_STATE_SCATTER"
    and "backend_conn (px_session px) \<noteq> None"
  shows "calm_step others px px'"
proof -
  from assms(1) obtain px1 n where px1: "copy_out_loop E px = Some (px1, n)"
    by (auto simp: copy_out_read_def bind_eq_Some_conv)
  from copy_out_loop_calm [OF px1 assms(2,3)] have c1: "calm_step others px px1"
    and conn1: "backend_conn (px_session px1) \<noteq> None" using assms(4) by simp_all
  show ?thesis
  proof (cases "n = - 1")
    case False
    with assms(1) px1 c1 show ?thesis by (simp add: copy_out_read_def)
  next
    case True
    obtain b where b: "queue_new 8 (\<lambda>msg. Option.bind (msgbuf_put_byte msg MSG_COPY_DONE) (\<lambda>msg. msgbuf_put_int32 msg 4)) px1
        = Some (set_out b px1)" "buf_ok b" "contents b = queued px1 @ wire [(MSG_COPY_DONE, [])]"
      using queues_copy_done inv_out [OF calmD(1) [OF c1]] by (rule queuesD)
    obtain res w where r: "PQgetResult E (backend_conn (px_session (set_out b px1))) (px_world (set_out b px1)) = (res, w)" by fastforce
    let ?px2 = "(set_out b px1)\<lparr>px_world := w\<rparr>"
    note c2 = calm_trans [OF c1 calm_out [OF b(2,3) calmD(1,2) [OF c1]]]
    note c3 = calm_trans [OF c2 calm_world [OF calmD(1,2) [OF c2], of w]]
    obtain b3 where b3: "(case res of Some r \<Rightarrow> if PQresultStatus r = PGRES_COMMAND_OK then command_complete (PQcmdStatus r) ?px2 else Some ?px2
        | None \<Rightarrow> Some ?px2) = Some (set_out b3 ?px2)" "buf_ok b3" "contents b3 = queued ?px2 @ wire (copy_tail res)"
      using copy_tail_queues inv_out [OF calmD(1) [OF c3]] by (rule queuesD)
    note c4 = calm_trans [OF c3 calm_out [OF b3(2,3) calmD(1,2) [OF c3]]]
    have "backend_conn (px_session (set_out b3 ?px2)) \<noteq> None" using conn1 by simp
    with calmD(1,2) [OF c4] obtain px4 where px4: "ready_release E (set_out b3 ?px2) = Some px4" "calm_step others (set_out b3 ?px2) px4"
      by (rule ready_release_facts)
    note c5 = calm_trans [OF c4 px4(2)]
    have "px' = set_session (\<lambda>s. s\<lparr>sess_state := SESSION_STATE_READY\<rparr>) px4"
      using assms(1) px1 True b(1) r b3(1) px4(1) by (simp add: copy_out_read_def Let_def del: set_out_simps)
    with calm_trans [OF c5 calm_state [OF calmD(1,2) [OF c5]]] show ?thesis by simp
  qed
qed

section \<open>The backend handler\<close>

definition after_results :: "'w ext \<Rightarrow> 'w proxy \<Rightarrow> results_end \<Rightarrow> 'w proxy option" where
  "after_results E px e =
     (case e of
        Results_Done \<Rightarrow> do {
          px \<leftarrow> ready_release E px;
          Some (set_session (\<lambda>s. s\<lparr>backend_busy := False, sess_state := SESSION_STATE_READY\<rparr>) px)
        }
      | Copy_In_Started \<Rightarrow> Some px
      | Copy_Out_Started \<Rightarrow> copy_out_read E px)"

lemma backend_readable_code:
  assumes "EPOLLERR \<notin> events" "EPOLLHUP \<notin> events" "backend_conn (px_session px) \<noteq> None"
    and "PQconsumeInput E (backend_conn (px_session px)) (px_world px) = (ok, w1)" "ok \<noteq> 0"
    and "PQisBusy E (backend_conn (px_session px)) w1 = (False, w2)"
  shows "session_on_backend_readable E events px = do {
     (px, e) \<leftarrow> backend_results E False (px\<lparr>px_world := w2\<rparr>);
     px \<leftarrow> after_results E px e;
     flush_or_destroy E px
   }"
  using assms by (simp add: session_on_backend_readable_def after_results_def del: not_None_eq)

lemma busy_step:
  assumes "sess_inv others px" "sess_state (px_session px) \<noteq> SESSION_STATE_SCATTER"
  shows "calm_step others px (set_session (\<lambda>s. s\<lparr>backend_busy := False, sess_state := SESSION_STATE_READY\<rparr>) px)"
proof -
  let ?px = "set_session (\<lambda>s. s\<lparr>backend_busy := False, sess_state := SESSION_STATE_READY\<rparr>) px"
  have "conns_ok others ?px = conns_ok others px" by (rule conns_ok_cong) simp_all
  with assms show ?thesis by (simp add: calm_step_def step_ok_def sess_inv_def out_ok_def no_scatter_def routing_def)
qed

lemma after_results_calm:
  assumes "after_results E px e = Some px'" "sess_inv others px" "sess_state (px_session px) \<noteq> SESSION_STATE_SCATTER"
    and "backend_conn (px_session px) \<noteq> None"
  shows "calm_step others px px'"
proof (cases e)
  case Results_Done
  obtain px1 where px1: "ready_release E px = Some px1" "calm_step others px px1"
    using assms(2-4) by (rule ready_release_facts)
  with assms(1) Results_Done have "px' = set_session (\<lambda>s. s\<lparr>backend_busy := False, sess_state := SESSION_STATE_READY\<rparr>) px1"
    by (simp add: after_results_def)
  with calm_trans [OF px1(2) busy_step [OF calmD(1,2) [OF px1(2)]]] show ?thesis by simp
next
  case Copy_In_Started
  with assms(1) calm_refl [OF assms(2,3)] show ?thesis by (simp add: after_results_def)
next
  case Copy_Out_Started
  with assms(1) have "copy_out_read E px = Some px'" by (simp add: after_results_def)
  from copy_out_read_calm [OF this assms(2-4)] show ?thesis .
qed

lemma backend_handled:
  assumes "session_on_backend_readable E events px = Some px'" "sess_inv others px" "px_alive px"
    and "sess_state (px_session px) \<noteq> SESSION_STATE_SCATTER"
  shows "handled others px px'"
proof -
  obtain ok w1 where ok: "PQconsumeInput E (backend_conn (px_session px)) (px_world px) = (ok, w1)" by fastforce
  obtain busy w2 where busy: "PQisBusy E (backend_conn (px_session px)) w1 = (busy, w2)" by fastforce
  have w: "calm_step others px (px\<lparr>px_world := w\<rparr>)" for w by (rule calm_world [OF assms(2,4)])
  have same: "handled others px (px\<lparr>px_world := w\<rparr>)" for w
    using w assms(3) by (auto simp: calm_step_def intro: handled_step)
  consider "EPOLLERR \<in> events \<or> EPOLLHUP \<in> events" | "EPOLLERR \<notin> events" "EPOLLHUP \<notin> events" "backend_conn (px_session px) = None"
    | "EPOLLERR \<notin> events" "EPOLLHUP \<notin> events" "backend_conn (px_session px) \<noteq> None" "ok = 0"
    | "EPOLLERR \<notin> events" "EPOLLHUP \<notin> events" "backend_conn (px_session px) \<noteq> None" "ok \<noteq> 0" busy
    | "EPOLLERR \<notin> events" "EPOLLHUP \<notin> events" "backend_conn (px_session px) \<noteq> None" "ok \<noteq> 0" "\<not> busy" by blast
  then show ?thesis
  proof cases
    case 1
    with assms(1) have "backend_lost E ''backend connection lost'' px = Some px'" by (simp add: session_on_backend_readable_def)
    from backend_lost_handled [OF this assms(2)] show ?thesis .
  next
    case 2
    with assms(1) same [of "px_world px"] show ?thesis by (simp add: session_on_backend_readable_def)
  next
    case 3
    with assms(1) ok have "backend_lost E ''backend connection error'' (px\<lparr>px_world := w1\<rparr>) = Some px'"
      by (simp add: session_on_backend_readable_def)
    from backend_lost_handled [OF this calmD(1) [OF w]] w show ?thesis by (auto simp: calm_step_def intro: handled_after)
  next
    case 4
    with assms(1) ok busy same [of w2] show ?thesis by (simp add: session_on_backend_readable_def)
  next
    case 5
    note c = w [of w2]
    from assms(1) obtain px1 e px2 where
      px1: "backend_results E False (px\<lparr>px_world := w2\<rparr>) = Some (px1, e)" "after_results E px1 e = Some px2" "flush_or_destroy E px2 = Some px'"
      using busy 5 by (auto simp: backend_readable_code [OF 5(1-3) ok 5(4)] bind_eq_Some_conv)
    from backend_results_calm [OF px1(1) calmD(1,2) [OF c]] 5(3) have c1: "calm_step others (px\<lparr>px_world := w2\<rparr>) px1"
      and conn: "backend_conn (px_session px1) \<noteq> None" by simp_all
    note c2 = calm_trans [OF c calm_trans [OF c1 after_results_calm [OF px1(2) calmD(1,2) [OF c1] conn]]]
    have "px_alive px2" using calmD(3) [OF c2] assms(3) by simp
    from flush_handled [OF px1(3) calmD(1) [OF c2] this] c2 show ?thesis by (auto simp: calm_step_def intro: handled_after)
  qed
qed

section \<open>A finished response\<close>

text \<open>\<open>PQgetResult\<close> returns the results \<open>rs\<close> one after the other and then NULL.\<close>

fun delivers :: "'w ext \<Rightarrow> PGconn \<Rightarrow> 'w \<Rightarrow> PGresult list \<Rightarrow> 'w \<Rightarrow> bool" where
  "delivers E c w [] w' \<longleftrightarrow> PQgetResult E c w = (None, w')"
| "delivers E c w (r # rs) w' \<longleftrightarrow> fst (PQgetResult E c w) = Some r \<and> delivers E c (snd (PQgetResult E c w)) rs w'"

text \<open>The messages of a whole response: the row description at most once.\<close>

fun response_messages :: "bool \<Rightarrow> PGresult list \<Rightarrow> (byte \<times> byte list) list" where
  "response_messages header_sent [] = []"
| "response_messages header_sent (r # rs) = reply_messages r header_sent @ response_messages (header_sent \<or> has_rows r) rs"

lemma backend_results_response:
  assumes "delivers E (backend_conn (px_session px)) (px_world px) rs w'" "list_all (\<lambda>r. copy_stop r = None) rs"
    and "buf_ok (send_buf (px_session px))"
  obtains b where "backend_results E hs px = Some ((set_out b px)\<lparr>px_world := w'\<rparr>, Results_Done)" "buf_ok b"
    "contents b = queued px @ wire (response_messages hs rs)"
  using assms
proof (induction rs arbitrary: px hs thesis)
  case Nil
  then have "backend_results E hs px = Some ((set_out (send_buf (px_session px)) px)\<lparr>px_world := w'\<rparr>, Results_Done)"
    by (subst backend_results.simps) (simp add: set_out_def set_session_def)
  from Nil.prems(1) [OF this] Nil.prems(4) show ?case by (simp add: queued_def)
next
  case (Cons r rs)
  obtain w where g: "PQgetResult E (backend_conn (px_session px)) (px_world px) = (Some r, w)"
    using Cons.prems(2) by (metis delivers.simps(2) prod.collapse)
  have r: "copy_stop r = None" using Cons.prems(3) by simp
  have "buf_ok (send_buf (px_session (px\<lparr>px_world := w\<rparr>)))" using Cons.prems(4) by simp
  from forward_one_ok [OF this, of r hs] obtain b where
    b: "forward_one r hs (px\<lparr>px_world := w\<rparr>) = Some (set_out b (px\<lparr>px_world := w\<rparr>), hs \<or> has_rows r, None)" "buf_ok b"
      "contents b = queued px @ wire (reply_messages r hs)"
    using r by (auto simp: stop_state_def queued_def)
  have "delivers E (backend_conn (px_session (set_out b (px\<lparr>px_world := w\<rparr>)))) (px_world (set_out b (px\<lparr>px_world := w\<rparr>))) rs w'"
    "list_all (\<lambda>r. copy_stop r = None) rs" "buf_ok (send_buf (px_session (set_out b (px\<lparr>px_world := w\<rparr>))))"
    using Cons.prems(2,3) b(2) g by simp_all
  from Cons.IH [OF _ this, of "hs \<or> has_rows r"] obtain b2 where
    b2: "backend_results E (hs \<or> has_rows r) (set_out b (px\<lparr>px_world := w\<rparr>)) =
        Some ((set_out b2 (set_out b (px\<lparr>px_world := w\<rparr>)))\<lparr>px_world := w'\<rparr>, Results_Done)" "buf_ok b2"
      "contents b2 = queued (set_out b (px\<lparr>px_world := w\<rparr>)) @ wire (response_messages (hs \<or> has_rows r) rs)" by blast
  have "backend_results E hs px = Some ((set_out b2 px)\<lparr>px_world := w'\<rparr>, Results_Done)"
    using g b(1) b2(1) by (subst backend_results.simps) (simp add: set_out_def set_session_def)
  from Cons.prems(1) [OF this b2(2)] b(3) b2(3) show ?case by (simp add: queued_def)
qed

section \<open>The scatter handler\<close>

text \<open>The bookkeeping of a scatter does not touch what the pools account for.\<close>

lemma sc_finished_session:
  "px_session (sc_finished i px) = (px_session px)\<lparr>scatter_done := scatter_done (px_session px) + 1,
     scatter_conns := (scatter_conns (px_session px))[i := (scatter_conns (px_session px) ! i)\<lparr>sc_done := True\<rparr>]\<rparr>"
  by (simp add: sc_finished_def set_sc_def)

lemma sc_finished_simps [simp]:
  "px_map (sc_finished i px) = px_map px" "px_alive (sc_finished i px) = px_alive px" "px_world (sc_finished i px) = px_world px"
  "queued (sc_finished i px) = queued px"
  by (simp_all add: sc_finished_def queued_def)

lemma update_same:
  assumes "P ((xs ! i)\<lparr>sc_done := True\<rparr>) = P (xs ! i)"
  shows "length (filter P (xs[i := (xs ! i)\<lparr>sc_done := True\<rparr>])) = length (filter P xs)"
    "list_all P (xs[i := (xs ! i)\<lparr>sc_done := True\<rparr>]) = list_all P xs"
    "list_all P (drop n (xs[i := (xs ! i)\<lparr>sc_done := True\<rparr>])) = list_all P (drop n xs)"
proof -
  have p: "P (xs[i := (xs ! i)\<lparr>sc_done := True\<rparr>] ! k) = P (xs ! k)" if "k < length xs" for k
    using assms that by (cases "k = i") simp_all
  then have "{k. k < length xs \<and> P (xs[i := (xs ! i)\<lparr>sc_done := True\<rparr>] ! k)} = {k. k < length xs \<and> P (xs ! k)}" by auto
  then show "length (filter P (xs[i := (xs ! i)\<lparr>sc_done := True\<rparr>])) = length (filter P xs)"
    by (simp add: length_filter_conv_card)
  show "list_all P (xs[i := (xs ! i)\<lparr>sc_done := True\<rparr>]) = list_all P xs" using p by (auto simp: list_all_length)
  show "list_all P (drop n (xs[i := (xs ! i)\<lparr>sc_done := True\<rparr>])) = list_all P (drop n xs)" using p by (auto simp: list_all_length)
qed

lemma sc_finished_step:
  assumes "sess_inv others px"
  shows "step_ok others px (sc_finished i px)"
proof -
  have t: "takes j (sc\<lparr>sc_done := True\<rparr>) = takes j sc" "scatter_ok n (sc\<lparr>sc_done := True\<rparr>) = scatter_ok n sc" for j n sc
    by (simp_all add: takes_def scatter_ok_def)
  have "borrowed (px_session (sc_finished i px)) = borrowed (px_session px)"
    by (rule ext) (simp add: borrowed_def sc_finished_session update_same t)
  moreover have "nshards (sc_finished i px) = nshards px" by (simp add: nshards_def)
  ultimately have "conns_ok others (sc_finished i px)"
    using inv_conns [OF assms] by (simp add: conns_ok_def Let_def pools_hold_def sc_finished_session update_same t)
  with assms show ?thesis
    by (simp add: step_ok_def sess_inv_def out_ok_def no_scatter_def routing_def sc_finished_session update_same rb_ok_def)
qed

lemma header_step:
  assumes "sess_inv others px"
  shows "step_ok others px (set_session (\<lambda>s. s\<lparr>scatter_header_sent := True\<rparr>) px)"
proof -
  let ?px = "set_session (\<lambda>s. s\<lparr>scatter_header_sent := True\<rparr>) px"
  have "conns_ok others ?px = conns_ok others px" by (rule conns_ok_cong) simp_all
  with assms show ?thesis by (simp add: step_ok_def sess_inv_def out_ok_def no_scatter_def routing_def)
qed

lemma scatter_results_step:
  assumes "scatter_results E conn px = Some px'" "sess_inv others px"
  shows "step_ok others px px'"
proof -
  define P where "P = (\<lambda>(E :: 'a ext) (conn :: PGconn) (p :: 'a proxy) (r :: 'a proxy). sess_inv others p \<longrightarrow> step_ok others p r)"
  have "P E conn px px'"
  proof (rule scatter_results.raw_induct [of P, OF _ assms(1)], goal_cases)
    case (1 f E c p r)
    show ?case
      unfolding P_def
    proof (intro impI)
      assume inv: "sess_inv others p"
      obtain res w where g: "PQgetResult E c (px_world p) = (res, w)" by fastforce
      let ?p = "p\<lparr>px_world := w\<rparr>"
      have s: "step_ok others p ?p" using world_step(1) [OF inv, of ?p] by simp
      have ih: "step_ok others p r" if "f E c q = Some r" "step_ok others p q" for q
        using 1(1) [OF that(1)] step_ok_trans [OF that(2)] step_ok_inv [OF that(2)] by (simp add: P_def)
      show "step_ok others p r"
      proof (cases "\<exists>x. res = Some x \<and> (PQresultStatus x = PGRES_TUPLES_OK \<or> PQresultStatus x = PGRES_SINGLE_TUPLE)")
        case True
        then obtain x where x: "res = Some x" "PQresultStatus x = PGRES_TUPLES_OK \<or> PQresultStatus x = PGRES_SINGLE_TUPLE" by blast
        obtain b where b: "session_forward_result x (\<not> scatter_header_sent (px_session ?p)) ?p = Some (set_out b ?p, PQntuples x)"
          "buf_ok b" "contents b = queued ?p @ result_bytes x (\<not> scatter_header_sent (px_session ?p))"
          using inv_out [OF step_ok_inv [OF s]] by (rule forward_result_ok)
        note s1 = step_ok_trans [OF s out_step [OF b(2,3) step_ok_inv [OF s]]]
        note s2 = step_ok_trans [OF s1 header_step [OF step_ok_inv [OF s1]]]
        from 1(2) g x b(1) have "f E c (set_session (\<lambda>s. s\<lparr>scatter_header_sent := True\<rparr>) (set_out b ?p)) = Some r" by simp
        then show ?thesis using s2 by (rule ih)
      next
        case False
        with 1(2) g s ih [of ?p] show ?thesis by (cases res) (auto simp: Let_def)
      qed
    qed
  qed
  with assms(2) show ?thesis by (simp add: P_def)
qed

text \<open>The last shard: the closing messages, the release of the connections, the flush.\<close>

definition scatter_tag :: "'w proxy \<Rightarrow> cstring" where
  "scatter_tag px = (if scatter_header_sent (px_session px) then ''SELECT'' else ''SELECT 0'')"

definition closing_messages :: "'w proxy \<Rightarrow> (byte \<times> byte list) list" where
  "closing_messages px = [(MSG_CMD_COMPLETE, scatter_tag px @ [NUL]), (MSG_READY_FOR_QUERY, [TXN_IDLE])]"

lemma check_complete_last:
  assumes "sess_inv others px" "scatter_count (px_session px) \<le> scatter_done (px_session px)"
  obtains px' where "check_complete E px = flush_or_destroy E px'" "step_ok others px px'"
    "sess_state (px_session px') = SESSION_STATE_READY" "queued px' = queued px @ wire (closing_messages px)" "no_scatter px'"
proof -
  have tag: "(if \<not> scatter_header_sent (px_session px) then ''SELECT 0'' else ''SELECT'') = scatter_tag px"
    by (simp add: scatter_tag_def)
  obtain b where b: "command_complete (scatter_tag px) px = Some (set_out b px)" "buf_ok b"
    "contents b = queued px @ wire [(MSG_CMD_COMPLETE, scatter_tag px @ [NUL])]"
    using queues_command_complete inv_out [OF assms(1)] by (rule queuesD)
  note s1 = out_step [OF b(2,3) assms(1)]
  obtain c where c: "queue_ready TXN_IDLE (set_out b px) = Some (set_out c (set_out b px))" "buf_ok c"
    "contents c = queued (set_out b px) @ wire [(MSG_READY_FOR_QUERY, [TXN_IDLE])]"
    using queues_ready_wire inv_out [OF step_ok_inv [OF s1]] by (rule queuesD)
  have cc: "contents c = queued px @ wire (closing_messages px)" using b(3) c(3) by (simp add: closing_messages_def queued_def)
  note s2 = out_step [OF c(2) cc assms(1)]
  from release_scatter_facts [OF inv_conns [OF step_ok_inv [OF s2]], of E] obtain px3 where
    px3: "session_release_scatter E (set_out c px) = Some px3" "conns_ok others px3" "routing px3 = routing (set_out c px)"
      "px_alive px3 = px_alive (set_out c px)"
      "px_session px3 = (px_session (set_out c px))\<lparr>scatter_conns := map clear_conn (scatter_conns (px_session (set_out c px))),
         scatter_count := 0, scatter_done := 0, scatter_header_sent := False\<rparr>" .
  let ?px = "set_session (\<lambda>s. s\<lparr>sess_state := SESSION_STATE_READY\<rparr>) px3"
  have code: "check_complete E px = flush_or_destroy E ?px"
    using assms(2) b(1) c(1) px3(1) unfolding check_complete_def tag by simp
  have ns: "no_scatter ?px" by (simp add: no_scatter_def px3(5) clear_conn_def list_all_iff)
  have "conns_ok others ?px = conns_ok others px3" by (rule conns_ok_cong) simp_all
  with px3 ns step_ok_inv [OF s2] have "step_ok others px ?px"
    by (simp add: step_ok_def sess_inv_def out_ok_def routing_def)
  from that [OF code this _ _ ns] show ?thesis using cc by (simp add: px3(5) queued_def)
qed

lemma check_complete_handled:
  assumes "check_complete E px = Some px'" "sess_inv others px" "px_alive px"
  shows "handled others px px'"
proof (cases "scatter_count (px_session px) \<le> scatter_done (px_session px)")
  case True
  with assms(2) obtain px1 where px1: "check_complete E px = flush_or_destroy E px1" "step_ok others px px1"
    by (rule check_complete_last)
  with assms(1,3) have "flush_or_destroy E px1 = Some px'" "px_alive px1" by (simp_all add: step_ok_def)
  from flush_handled [OF this(1) step_ok_inv [OF px1(2)] this(2)] show ?thesis by (rule handled_after [OF px1(2)])
next
  case False
  with assms handled_step [OF step_ok_refl [OF assms(2)] assms(3)] show ?thesis by (simp add: check_complete_def)
qed

lemma scatter_readable_code:
  assumes "i < length (scatter_conns (px_session px))" "EPOLLERR \<notin> events" "EPOLLHUP \<notin> events"
    and "sc_conn (scatter_conns (px_session px) ! i) \<noteq> None"
    and "PQconsumeInput E (sc_conn (scatter_conns (px_session px) ! i)) (px_world px) = (ok, w1)" "ok \<noteq> 0"
    and "PQisBusy E (sc_conn (scatter_conns (px_session px) ! i)) w1 = (False, w2)"
  shows "session_on_scatter_readable E i events px = do {
     px \<leftarrow> scatter_results E (sc_conn (scatter_conns (px_session px) ! i)) (px\<lparr>px_world := w2\<rparr>);
     check_complete E (sc_finished i px)
   }"
  using assms by (simp add: session_on_scatter_readable_def del: not_None_eq)

lemma finish_handled:
  assumes "check_complete E (sc_finished i p) = Some q" "step_ok others px p" "px_alive px"
  shows "handled others px q"
proof -
  note s = step_ok_trans [OF assms(2) sc_finished_step [OF step_ok_inv [OF assms(2)], of i]]
  have "px_alive (sc_finished i p)" using s assms(3) by (simp add: step_ok_def)
  from check_complete_handled [OF assms(1) step_ok_inv [OF s] this] show ?thesis by (rule handled_after [OF s])
qed

lemma scatter_handled:
  assumes "session_on_scatter_readable E i events px = Some px'" "sess_inv others px" "px_alive px"
  shows "handled others px px'"
proof -
  have w: "step_ok others px (px\<lparr>px_world := w\<rparr>)" for w using world_step(1) [OF assms(2), of "px\<lparr>px_world := w\<rparr>"] by simp
  note same = handled_step [OF w assms(3)]
  let ?c = "sc_conn (scatter_conns (px_session px) ! i)"
  obtain ok w1 where ok: "PQconsumeInput E ?c (px_world px) = (ok, w1)" by fastforce
  obtain busy w2 where busy: "PQisBusy E ?c w1 = (busy, w2)" by fastforce
  have i: "i < length (scatter_conns (px_session px))"
    using assms(1) by (simp add: session_on_scatter_readable_def split: if_splits)
  consider "EPOLLERR \<in> events \<or> EPOLLHUP \<in> events" | "EPOLLERR \<notin> events" "EPOLLHUP \<notin> events" "?c = None"
    | "EPOLLERR \<notin> events" "EPOLLHUP \<notin> events" "?c \<noteq> None" "ok = 0"
    | "EPOLLERR \<notin> events" "EPOLLHUP \<notin> events" "?c \<noteq> None" "ok \<noteq> 0" busy
    | "EPOLLERR \<notin> events" "EPOLLHUP \<notin> events" "?c \<noteq> None" "ok \<noteq> 0" "\<not> busy" by blast
  then show ?thesis
  proof cases
    case 1
    with assms(1) i have "check_complete E (sc_finished i px) = Some px'"
      by (auto simp: session_on_scatter_readable_def bind_eq_Some_conv)
    from finish_handled [OF this step_ok_refl [OF assms(2)] assms(3)] show ?thesis .
  next
    case 2
    with assms(1) i same [of "px_world px"] show ?thesis by (simp add: session_on_scatter_readable_def)
  next
    case 3
    with assms(1) i ok have "check_complete E (sc_finished i (px\<lparr>px_world := w1\<rparr>)) = Some px'"
      by (auto simp: session_on_scatter_readable_def bind_eq_Some_conv)
    from finish_handled [OF this w assms(3)] show ?thesis .
  next
    case 4
    with assms(1) i ok busy same [of w2] show ?thesis by (simp add: session_on_scatter_readable_def del: not_None_eq)
  next
    case 5
    have "PQisBusy E ?c w1 = (False, w2)" using busy 5(5) by simp
    from assms(1) [unfolded scatter_readable_code [OF i 5(1,2,3) ok 5(4) this] bind_eq_Some_conv] obtain p where
      p: "scatter_results E ?c (px\<lparr>px_world := w2\<rparr>) = Some p" "check_complete E (sc_finished i p) = Some px'" by blast
    from finish_handled [OF p(2) step_ok_trans [OF w scatter_results_step [OF p(1) step_ok_inv [OF w]]] assms(3)] show ?thesis .
  qed
qed

section \<open>The contract of an event handler\<close>

text \<open>What the event loop may rely on when it calls a handler \<open>h\<close> of a session on which \<open>pre\<close> holds: the
  session is in order afterwards and the pools account for what it holds, or it is gone and the pools
  have back all it held.\<close>

locale session_handler =
  fixes h :: "'w proxy \<Rightarrow> 'w proxy option" and pre :: "'w proxy \<Rightarrow> bool"
  assumes keeps: "h px = Some px' \<Longrightarrow> pre px \<Longrightarrow> sess_inv others px \<Longrightarrow> px_alive px \<Longrightarrow> handled others px px'"

interpretation client_readable: session_handler "session_on_client_readable E pg events" "\<lambda>px. null_is_bad E"
  for E :: "'w ext" and pg events
  by unfold_locales (rule readable_handled)

interpretation client_writable: session_handler "session_on_client_writable E events" "\<lambda>px. True"
  for E :: "'w ext" and events
  by unfold_locales (rule writable_handled)

interpretation backend_readable: session_handler "session_on_backend_readable E events"
    "\<lambda>px. sess_state (px_session px) \<noteq> SESSION_STATE_SCATTER"
  for E :: "'w ext" and events
  by unfold_locales (rule backend_handled)

interpretation scatter_readable: session_handler "session_on_scatter_readable E i events" "\<lambda>px. True"
  for E :: "'w ext" and i events
  by unfold_locales (rule scatter_handled)

end
