(* ===== verification/Responses.thy ===== *)
theory Responses imports Session_Handlers begin

text \<open>
  What the client gets: the answer of one backend (\<open>session_on_backend_readable\<close>) and the gathered
  answers of a scatter (\<open>session_on_scatter_readable\<close>), each as the list of protocol messages that
  the handlers of \<open>src/session/session.c\<close> queue. libpq appears through what it hands out:
  \<open>delivers\<close> for one connection, \<open>answers\<close> for several. The last section has two orders of events in
  which the handlers give a wrong answer.
\<close>

section \<open>One backend\<close>

text \<open>C6: When the backend has answered a query, the whole answer is queued for the client in the order
  of the results, each as the messages the protocol prescribes, with one RowDescription at most; one
  ReadyForQuery with the transaction state of the backend follows; the session is ready, in order,
  and has given the connection back to its pool unless a transaction is open. The handler then
  flushes the buffer.\<close>

theorem response_forwarded:
  assumes "sess_inv others px" "sess_state (px_session px) \<noteq> SESSION_STATE_SCATTER"
    and "backend_conn (px_session px) \<noteq> None" "EPOLLERR \<notin> events" "EPOLLHUP \<notin> events"
    and "PQconsumeInput E (backend_conn (px_session px)) (px_world px) = (ok, w1)" "ok \<noteq> 0"
    and "PQisBusy E (backend_conn (px_session px)) w1 = (False, w2)"
    and "delivers E (backend_conn (px_session px)) w2 rs w3" "list_all (\<lambda>r. copy_stop r = None) rs"
  shows "\<exists>px'. session_on_backend_readable E events px = flush_or_destroy E px' \<and> sess_inv others px' \<and>
    queued px' = queued px @ wire (response_messages False rs @ [ready_message E (px\<lparr>px_world := w3\<rparr>)]) \<and>
    sess_state (px_session px') = SESSION_STATE_READY \<and> \<not> backend_busy (px_session px') \<and>
    backend_conn (px_session px') =
      (if releases E (px\<lparr>px_world := w3\<rparr>) then None else backend_conn (px_session px))"
proof -
  let ?px = "px\<lparr>px_world := w2\<rparr>" and ?px3 = "px\<lparr>px_world := w3\<rparr>"
  note c = calm_world [OF assms(1,2), of w2]
  have "delivers E (backend_conn (px_session ?px)) (px_world ?px) rs w3" using assms(9) by simp
  from backend_results_response [OF this assms(10) inv_out [OF calmD(1) [OF c]], of False] obtain b where
    b: "backend_results E False ?px = Some ((set_out b ?px)\<lparr>px_world := w3\<rparr>, Results_Done)" "buf_ok b"
      "contents b = queued ?px @ wire (response_messages False rs)" .
  let ?px1 = "(set_out b ?px)\<lparr>px_world := w3\<rparr>"
  note c1 = calm_trans [OF c calm_out [OF b(2,3) calmD(1,2) [OF c]]]
  note c2 = calm_trans [OF c1 calm_world [OF calmD(1,2) [OF c1], of w3]]
  have "backend_conn (px_session ?px1) \<noteq> None" using assms(3) by simp
  with calmD(1,2) [OF c2] obtain px4 b4 where px4: "ready_release E ?px1 = Some px4" "calm_step others ?px1 px4"
    "px_session px4 = (if releases E ?px1 then (px_session ?px1)\<lparr>send_buf := b4, backend_conn := None, backend_shard := None\<rparr>
       else (px_session ?px1)\<lparr>send_buf := b4\<rparr>)" "contents b4 = queued ?px1 @ wire [ready_message E ?px1]"
    by (rule ready_release_facts)
  let ?px' = "set_session (\<lambda>s. s\<lparr>backend_busy := False, sess_state := SESSION_STATE_READY\<rparr>) px4"
  have "session_on_backend_readable E events px = flush_or_destroy E ?px'"
    unfolding backend_readable_code [OF assms(4,5,3,6-8)] using b(1) px4(1) by (simp add: after_results_def)
  moreover have "sess_inv others ?px'" using calmD(1) [OF busy_step [OF calmD(1,2) [OF px4(2)]]] .
  moreover have "releases E ?px1 = releases E ?px3" "ready_message E ?px1 = ready_message E ?px3"
    by (simp_all add: releases_def ready_message_def)
  ultimately show ?thesis
    using px4(3,4) b(3) by (intro exI [of _ ?px']) (simp add: queued_def)
qed

definition demo_answered :: "lab proxy" where
  "demo_answered = (demo_ready [] SESSION_STATE_QUERY)\<lparr>px_world := demo_world\<lparr>lab_results := [(4, [demo_result])]\<rparr>\<rparr>"

lemma demo_answered_inv: "sess_inv (\<lambda>i. 0) demo_answered"
  using world_step(1) [OF demo_ready_inv [of "[]" SESSION_STATE_QUERY], of demo_answered]
  by (simp add: demo_answered_def step_ok_def)

theorem response_forwarded_witness:
  "\<exists>px'. session_on_backend_readable lab_ext {EPOLLIN} demo_answered = flush_or_destroy lab_ext px' \<and>
    map fst (response_messages False [demo_result]) = [MSG_ROW_DESCRIPTION, MSG_DATA_ROW, MSG_DATA_ROW, MSG_CMD_COMPLETE] \<and>
    queued px' = wire (response_messages False [demo_result] @ [(MSG_READY_FOR_QUERY, [TXN_IDLE])]) \<and>
    backend_conn (px_session px') = None"
proof -
  let ?w = "px_world demo_answered" and ?w3 = "demo_world\<lparr>lab_results := (4, []) # [(4, [demo_result])]\<rparr>"
  have st: "sess_state (px_session demo_answered) = SESSION_STATE_QUERY" "backend_conn (px_session demo_answered) = Some 4"
    "backend_shard (px_session demo_answered) = Some 0" "queued demo_answered = []"
    by (simp_all add: demo_answered_def demo_ready_def demo_busy_def demo_proxy_def fresh_session_def queued_def)
  have wd: "?w = demo_world\<lparr>lab_results := [(4, [demo_result])]\<rparr>" by (simp add: demo_answered_def)
  have d: "delivers lab_ext (backend_conn (px_session demo_answered)) ?w [demo_result] ?w3"
    unfolding st(2) wd by (simp add: lab_ext_def lab_get_result_def)
  have m: "map fst (response_messages False [demo_result]) = [MSG_ROW_DESCRIPTION, MSG_DATA_ROW, MSG_DATA_ROW, MSG_CMD_COMPLETE]"
    "copy_stop demo_result = None"
    by (simp_all add: reply_messages_def result_messages_def copy_stop_def demo_result_def PQnfields_def PQntuples_def upt_rec)
  have r: "releases lab_ext (demo_answered\<lparr>px_world := ?w3\<rparr>)"
    "ready_message lab_ext (demo_answered\<lparr>px_world := ?w3\<rparr>) = (MSG_READY_FOR_QUERY, [TXN_IDLE])"
    by (simp_all add: releases_def ready_message_def st lab_ext_def demo_world_def lab_zero_def txn_char_def)
  have "PQconsumeInput lab_ext (backend_conn (px_session demo_answered)) ?w = (1, ?w)"
    "PQisBusy lab_ext (backend_conn (px_session demo_answered)) ?w = (False, ?w)" by (simp_all add: lab_ext_def)
  from response_forwarded [OF demo_answered_inv _ _ _ _ this(1) _ this(2) d, of "{EPOLLIN}"] st(1,2,4) m r show ?thesis by auto
qed

section \<open>A lost backend\<close>

text \<open>The message of a fatal error.\<close>

definition fatal_message :: "cstring \<Rightarrow> cstring \<Rightarrow> byte \<times> byte list" where
  "fatal_message code m = (MSG_ERROR_RESPONSE,
     CHR ''S'' # ''FATAL'' @ [NUL] @ CHR ''C'' # code @ [NUL] @ CHR ''M'' # m @ [NUL] @ [NUL])"

lemma fatal_queues: "queues (fe_send_error ''FATAL'' code m :: 'w proxy \<Rightarrow> 'w proxy option) (wire [fatal_message code m])"
proof -
  have "wire [fatal_message code m] = frame MSG_ERROR_RESPONSE
      ([CHR ''S''] @ (''FATAL'' @ [NUL]) @ [CHR ''C''] @ (code @ [NUL]) @ [CHR ''M''] @ (m @ [NUL]) @ [NUL])"
    by (simp add: fatal_message_def)
  moreover have "(fe_send_error ''FATAL'' code m :: 'w proxy \<Rightarrow> _) = put_out (\<lambda>b. msg_write_error b ''FATAL'' code m)"
    by (rule ext) (simp add: fe_send_error_def)
  ultimately show ?thesis using queues_put_out [OF msg_write_appends(5)] by (simp only:)
qed



section \<open>Scatter and gather\<close>

text \<open>The messages that the results of the shards become: rows only, the row description once.\<close>

fun gather_messages :: "bool \<Rightarrow> PGresult list \<Rightarrow> (byte \<times> byte list) list" where
  "gather_messages header_sent [] = []"
| "gather_messages header_sent (r # rs) =
     (if has_rows r then result_messages r (\<not> header_sent) @ gather_messages True rs else gather_messages header_sent rs)"

lemma gather_append:
  "gather_messages h (rs @ ss) = gather_messages h rs @ gather_messages (h \<or> list_ex has_rows rs) ss"
  by (induction rs arbitrary: h) auto

abbreviation set_header :: "bool \<Rightarrow> 'w proxy \<Rightarrow> 'w proxy" where
  "set_header h \<equiv> set_session (\<lambda>s. s\<lparr>scatter_header_sent := h\<rparr>)"

lemma scatter_results_gather:
  assumes "delivers E conn (px_world px) rs w'" "buf_ok (send_buf (px_session px))"
  obtains b where "scatter_results E conn px =
      Some (set_header (scatter_header_sent (px_session px) \<or> list_ex has_rows rs) ((set_out b px)\<lparr>px_world := w'\<rparr>))"
    "buf_ok b" "contents b = queued px @ wire (gather_messages (scatter_header_sent (px_session px)) rs)"
  using assms
proof (induction rs arbitrary: px thesis)
  case Nil
  then have "scatter_results E conn px = Some (set_header (scatter_header_sent (px_session px) \<or> list_ex has_rows [])
      ((set_out (send_buf (px_session px)) px)\<lparr>px_world := w'\<rparr>))"
    by (subst scatter_results.simps) (simp add: set_out_def set_session_def)
  from Nil.prems(1) [OF this] Nil.prems(3) show ?case by (simp add: queued_def)
next
  case (Cons r rs)
  obtain w where g: "PQgetResult E conn (px_world px) = (Some r, w)"
    using Cons.prems(2) by (metis delivers.simps(2) prod.collapse)
  have d: "delivers E conn w rs w'" using Cons.prems(2) g by simp
  show ?case
  proof (cases "has_rows r")
    case True
    let ?h = "scatter_header_sent (px_session px)"
    have "buf_ok (send_buf (px_session (px\<lparr>px_world := w\<rparr>)))" using Cons.prems(3) by simp
    from forward_result_ok [OF this, of r "\<not> ?h"] obtain b where
      b: "session_forward_result r (\<not> ?h) (px\<lparr>px_world := w\<rparr>) = Some (set_out b (px\<lparr>px_world := w\<rparr>), PQntuples r)" "buf_ok b"
        "contents b = queued px @ wire (result_messages r (\<not> ?h))" by (auto simp: queued_def result_bytes_wire)
    let ?px = "set_header True (set_out b (px\<lparr>px_world := w\<rparr>))"
    have "delivers E conn (px_world ?px) rs w'" "buf_ok (send_buf (px_session ?px))" using d b(2) by simp_all
    from Cons.IH [OF _ this] obtain b2 where
      b2: "scatter_results E conn ?px = Some (set_header True ((set_out b2 ?px)\<lparr>px_world := w'\<rparr>))" "buf_ok b2"
        "contents b2 = queued ?px @ wire (gather_messages True rs)" by auto
    have "scatter_results E conn px = Some (set_header True ((set_out b2 px)\<lparr>px_world := w'\<rparr>))"
      using g True b(1) b2(1) by (subst scatter_results.simps) (simp add: has_rows_def set_out_def set_session_def)
    with Cons.prems(1) [of b2] b(3) b2(2,3) True show ?thesis by (simp add: queued_def)
  next
    case False
    have "delivers E conn (px_world (px\<lparr>px_world := w\<rparr>)) rs w'" "buf_ok (send_buf (px_session (px\<lparr>px_world := w\<rparr>)))"
      using d Cons.prems(3) by simp_all
    from Cons.IH [OF _ this] obtain b2 where
      b2: "scatter_results E conn (px\<lparr>px_world := w\<rparr>) = Some (set_header (scatter_header_sent (px_session px) \<or> list_ex has_rows rs)
           ((set_out b2 (px\<lparr>px_world := w\<rparr>))\<lparr>px_world := w'\<rparr>))" "buf_ok b2"
        "contents b2 = queued px @ wire (gather_messages (scatter_header_sent (px_session px)) rs)" by (auto simp: queued_def)
    have "scatter_results E conn px = Some (set_header (scatter_header_sent (px_session px) \<or> list_ex has_rows rs)
           ((set_out b2 px)\<lparr>px_world := w'\<rparr>))"
      using g False b2(1) by (subst scatter_results.simps) (simp add: has_rows_def set_out_def set_session_def)
    with Cons.prems(1) [of b2] b2(2,3) False show ?thesis by simp
  qed
qed

text \<open>Backends that have answered: \<open>pending w c\<close> are the results of connection \<open>c\<close> that libpq has
  complete in its buffer. It hands them out in order, and then NULL; it is not busy; work on one
  connection does not touch another.\<close>

definition answers :: "'w ext \<Rightarrow> ('w \<Rightarrow> PGconn \<Rightarrow> PGresult list) \<Rightarrow> bool" where
  "answers E pending \<longleftrightarrow>
     (\<forall>c w. (case pending w c of
          [] \<Rightarrow> fst (PQgetResult E c w) = None \<and> pending (snd (PQgetResult E c w)) = pending w
        | r # rs \<Rightarrow> fst (PQgetResult E c w) = Some r \<and> pending (snd (PQgetResult E c w)) = (pending w)(c := rs))) \<and>
     (\<forall>c w. fst (PQconsumeInput E c w) \<noteq> 0 \<and> pending (snd (PQconsumeInput E c w)) = pending w) \<and>
     (\<forall>c w. \<not> fst (PQisBusy E c w) \<and> pending (snd (PQisBusy E c w)) = pending w)"

lemma answers_deliver:
  assumes "answers E pending"
  obtains w' where "delivers E c w (pending w c) w'" "pending w' = (pending w)(c := [])"
proof -
  have "\<exists>w'. delivers E c w rs w' \<and> pending w' = (pending w)(c := [])" if "pending w c = rs" for rs
    using that
  proof (induction rs arbitrary: w)
    case Nil
    with assms have "fst (PQgetResult E c w) = None" "pending (snd (PQgetResult E c w)) = pending w"
      by (auto simp: answers_def split: list.splits)
    with Nil show ?case by (intro exI [of _ "snd (PQgetResult E c w)"]) (auto simp: prod_eq_iff)
  next
    case (Cons r rs)
    with assms have g: "fst (PQgetResult E c w) = Some r" "pending (snd (PQgetResult E c w)) = (pending w)(c := rs)"
      by (auto simp: answers_def split: list.splits)
    then have "pending (snd (PQgetResult E c w)) c = rs" by simp
    from Cons.IH [OF this] obtain w' where "delivers E c (snd (PQgetResult E c w)) rs w'"
      "pending w' = (pending (snd (PQgetResult E c w)))(c := [])" by blast
    with g show ?case by (intro exI [of _ w']) simp
  qed
  with that show ?thesis by blast
qed

text \<open>The handlers of several scatter connections, one after the other.\<close>

fun on_scatter_all :: "'w ext \<Rightarrow> nat list \<Rightarrow> 'w proxy \<Rightarrow> 'w proxy option" where
  "on_scatter_all E [] px = Some px"
| "on_scatter_all E (i # is) px = do { px \<leftarrow> session_on_scatter_readable E i {EPOLLIN} px; on_scatter_all E is px }"

abbreviation sconn :: "'w proxy \<Rightarrow> nat \<Rightarrow> PGconn" where
  "sconn px i \<equiv> sc_conn (scatter_conns (px_session px) ! i)"

lemma scatter_one_ready:
  assumes "sess_inv others px" "answers E pending" "i < length (scatter_conns (px_session px))" "sconn px i \<noteq> None"
  defines "h \<equiv> scatter_header_sent (px_session px)" and "rs \<equiv> pending (px_world px) (sconn px i)"
  obtains px' where "session_on_scatter_readable E i {EPOLLIN} px = check_complete E px'" "step_ok others px px'"
    "pending (px_world px') = (pending (px_world px))(sconn px i := [])" "queued px' = queued px @ wire (gather_messages h rs)"
    "scatter_header_sent (px_session px') = (h \<or> list_ex has_rows rs)"
    "scatter_done (px_session px') = scatter_done (px_session px) + 1" "scatter_count (px_session px') = scatter_count (px_session px)"
    "\<And>j. sconn px' j = sconn px j" "length (scatter_conns (px_session px')) = length (scatter_conns (px_session px))"
proof -
  obtain ok w1 where ok: "PQconsumeInput E (sconn px i) (px_world px) = (ok, w1)" by fastforce
  obtain busy w2 where busy: "PQisBusy E (sconn px i) w1 = (busy, w2)" by fastforce
  have "fst (PQconsumeInput E (sconn px i) (px_world px)) \<noteq> 0" "pending (snd (PQconsumeInput E (sconn px i) (px_world px))) = pending (px_world px)"
    "\<not> fst (PQisBusy E (sconn px i) w1)" "pending (snd (PQisBusy E (sconn px i) w1)) = pending w1"
    using assms(2) by (simp_all add: answers_def)
  then have okay: "ok \<noteq> 0" "\<not> busy" and pend: "pending w2 = pending (px_world px)" using ok busy by simp_all
  let ?px = "px\<lparr>px_world := w2\<rparr>"
  have s: "step_ok others px ?px" using world_step(1) [OF assms(1), of ?px] by simp
  from answers_deliver [OF assms(2), of "sconn px i" w2] obtain w3 where
    w3: "delivers E (sconn px i) (px_world ?px) rs w3" "pending w3 = (pending (px_world px))(sconn px i := [])"
    by (auto simp: pend rs_def)
  from scatter_results_gather [OF w3(1) inv_out [OF step_ok_inv [OF s]]] obtain b where
    b: "scatter_results E (sconn px i) ?px = Some (set_header (h \<or> list_ex has_rows rs) ((set_out b ?px)\<lparr>px_world := w3\<rparr>))"
      "contents b = queued px @ wire (gather_messages h rs)" by (auto simp: h_def queued_def)
  let ?p = "set_header (h \<or> list_ex has_rows rs) ((set_out b ?px)\<lparr>px_world := w3\<rparr>)"
  note s1 = step_ok_trans [OF s scatter_results_step [OF b(1) step_ok_inv [OF s]]]
  note s2 = step_ok_trans [OF s1 sc_finished_step [OF step_ok_inv [OF s1], of i]]
  have "session_on_scatter_readable E i {EPOLLIN} px = check_complete E (sc_finished i ?p)"
    using okay(2) busy scatter_readable_code [OF assms(3) _ _ assms(4) ok okay(1), of "{EPOLLIN}" w2]
    unfolding b(1) bind.simps by simp
  from that [OF this s2] show ?thesis
    using b(2) w3(2) assms(3) by (simp add: sc_finished_session queued_def nth_list_update)
qed

definition scatter_reply :: "bool \<Rightarrow> PGresult list \<Rightarrow> (byte \<times> byte list) list" where
  "scatter_reply header_sent rs = gather_messages header_sent rs @
     [(MSG_CMD_COMPLETE, (if header_sent \<or> list_ex has_rows rs then ''SELECT'' else ''SELECT 0'') @ [NUL]),
      (MSG_READY_FOR_QUERY, [TXN_IDLE])]"

lemma scatter_all_ready:
  assumes "answers E pending" "order \<noteq> []"
    and "sess_inv others px" "scatter_count (px_session px) = scatter_done (px_session px) + int (length order)"
    and "list_all (\<lambda>i. i < length (scatter_conns (px_session px)) \<and> sconn px i \<noteq> None) order" "distinct (map (sconn px) order)"
  shows "\<exists>px'. on_scatter_all E order px = flush_or_destroy E px' \<and> step_ok others px px' \<and>
    sess_state (px_session px') = SESSION_STATE_READY \<and> no_scatter px' \<and>
    queued px' = queued px @ wire (scatter_reply (scatter_header_sent (px_session px))
      (concat (map (\<lambda>i. pending (px_world px) (sconn px i)) order)))"
  using assms(2-)
proof (induction order arbitrary: px)
  case (Cons i order)
  let ?h = "scatter_header_sent (px_session px)" and ?rs = "pending (px_world px) (sconn px i)"
  from Cons.prems have "i < length (scatter_conns (px_session px))" "sconn px i \<noteq> None" by simp_all
  from scatter_one_ready [OF Cons.prems(2) assms(1) this] obtain px1 where
    px1: "session_on_scatter_readable E i {EPOLLIN} px = check_complete E px1" "step_ok others px px1"
      "pending (px_world px1) = (pending (px_world px))(sconn px i := [])" "queued px1 = queued px @ wire (gather_messages ?h ?rs)"
      "scatter_header_sent (px_session px1) = (?h \<or> list_ex has_rows ?rs)"
      "scatter_done (px_session px1) = scatter_done (px_session px) + 1" "scatter_count (px_session px1) = scatter_count (px_session px)"
      "\<And>j. sconn px1 j = sconn px j" "length (scatter_conns (px_session px1)) = length (scatter_conns (px_session px))" by metis
  show ?case
  proof (cases "order = []")
    case True
    with px1(6,7) Cons.prems(3) have "scatter_count (px_session px1) \<le> scatter_done (px_session px1)" by simp
    with step_ok_inv [OF px1(2)] obtain px2 where px2: "check_complete E px1 = flush_or_destroy E px2" "step_ok others px1 px2"
      "sess_state (px_session px2) = SESSION_STATE_READY" "queued px2 = queued px1 @ wire (closing_messages px1)" "no_scatter px2"
      by (rule check_complete_last)
    have "on_scatter_all E (i # order) px = flush_or_destroy E px2"
      using True px1(1) px2(1) by (cases "flush_or_destroy E px2") simp_all
    with px2 step_ok_trans [OF px1(2) px2(2)] px1(4,5) True show ?thesis
      by (intro exI [of _ px2]) (simp add: scatter_reply_def closing_messages_def scatter_tag_def)
  next
    case False
    with px1(6,7) Cons.prems(3) have "check_complete E px1 = Some px1" by (cases order) (simp_all add: check_complete_def)
    moreover have "scatter_count (px_session px1) = scatter_done (px_session px1) + int (length order)"
      "list_all (\<lambda>i. i < length (scatter_conns (px_session px1)) \<and> sconn px1 i \<noteq> None) order" "distinct (map (sconn px1) order)"
      using Cons.prems(3-5) px1(6-9) by (simp_all add: px1(8))
    from Cons.IH [OF False step_ok_inv [OF px1(2)] this] obtain px2 where
      px2: "on_scatter_all E order px1 = flush_or_destroy E px2" "step_ok others px1 px2"
        "sess_state (px_session px2) = SESSION_STATE_READY" "no_scatter px2"
        "queued px2 = queued px1 @ wire (scatter_reply (scatter_header_sent (px_session px1))
          (concat (map (\<lambda>i. pending (px_world px1) (sconn px1 i)) order)))" by blast
    have "sconn px j \<noteq> sconn px i" if "j \<in> set order" for j using Cons.prems(5) that by (auto simp: image_iff)
    then have "map (\<lambda>i. pending (px_world px1) (sconn px1 i)) order = map (\<lambda>i. pending (px_world px) (sconn px i)) order"
      by (simp add: px1(3,8))
    with px2(5) px1(4,5) have "queued px2 = queued px @ wire (scatter_reply ?h
        (concat (map (\<lambda>i. pending (px_world px) (sconn px i)) (i # order))))"
      by (simp add: scatter_reply_def gather_append)
    with px2 step_ok_trans [OF px1(2) px2(2)] px1(1) \<open>check_complete E px1 = Some px1\<close> show ?thesis
      by (intro exI [of _ px2]) simp
  qed
qed simp

definition lab_pending :: "lab \<Rightarrow> PGconn \<Rightarrow> PGresult list" where
  "lab_pending w c = (case c of None \<Rightarrow> [] | Some n \<Rightarrow> (case map_of (lab_results w) n of None \<Rightarrow> [] | Some rs \<Rightarrow> rs))"

lemma lab_answers: "answers lab_ext lab_pending"
proof -
  have "(case lab_pending w c of
          [] \<Rightarrow> fst (lab_get_result c w) = None \<and> lab_pending (snd (lab_get_result c w)) = lab_pending w
        | r # rs \<Rightarrow> fst (lab_get_result c w) = Some r \<and> lab_pending (snd (lab_get_result c w)) = (lab_pending w)(c := rs))" for c w
    by (auto simp: lab_pending_def lab_get_result_def fun_eq_iff split: option.splits list.splits)
  moreover have f: "PQgetResult lab_ext = lab_get_result" "PQconsumeInput lab_ext = (\<lambda>c w. (1, w))" "PQisBusy lab_ext = (\<lambda>c w. (False, w))"
    by (simp_all add: lab_ext_def)
  ultimately show ?thesis unfolding answers_def f by simp
qed

definition demo_sc :: "nat \<Rightarrow> nat \<Rightarrow> ScatterConn" where
  "demo_sc c i = scatter_conn_zero\<lparr>sc_conn := Some c, sc_shard := Some i, sc_from_pool := True\<rparr>"

definition demo_scatter :: "lab proxy" where
  "demo_scatter = set_session (\<lambda>s. s\<lparr>sess_state := SESSION_STATE_SCATTER, scatter_count := 2,
       scatter_conns := [demo_sc 4 0, demo_sc 5 1] @ replicate 62 scatter_conn_zero\<rparr>)
     (demo_proxy (Some (demo_one_shard\<lparr>map_shards := map_shards demo_one_shard @ map_shards demo_one_shard, map_shard_count := 2\<rparr>))
       (demo_world\<lparr>lab_results := [(4, [demo_result]), (5, [demo_result])]\<rparr>))"

lemma less_2_cases: "i < Suc (Suc 0) \<longleftrightarrow> i = 0 \<or> i = Suc 0"
  by auto

lemma demo_scatter_inv: "sess_inv (\<lambda>i. 0) demo_scatter"
proof -
  have "conns_ok (\<lambda>i. 0) demo_scatter"
    by (simp add: conns_ok_def demo_scatter_def demo_proxy_def fresh_session_def pools_hold_def borrowed_def less_2_cases
      demo_one_shard_def map_ok_def nshards_def list_all_iff scatter_ok_def scatter_conn_zero_def takes_def demo_sc_def
      demo_pool_inv MAX_SCATTER_SHARDS_def) (auto simp: demo_pool_def)
  then show ?thesis
    by (simp add: sess_inv_def out_ok_def rb_ok_def demo_scatter_def demo_proxy_def fresh_session_def recvbuf_init_def
      SEND_BUF_INITIAL_def RECV_BUF_INITIAL_def)
qed


section \<open>Two ways a scatter goes wrong\<close>

text \<open>C35: An error event does not unregister the connection, and the handler does not look at \<open>done\<close>: the
  same dead shard is counted again by the next error event. With two shards the second event of one of
  them completes the scatter and tells the client that the query is finished, whatever the other shard
  has still to deliver.\<close>

theorem dead_shard_counts_twice:
  assumes "sess_inv others px" "scatter_count (px_session px) = 2" "scatter_done (px_session px) = 0"
    and "i < length (scatter_conns (px_session px))" "sc_shard (scatter_conns (px_session px) ! i) \<noteq> None"
  shows "\<exists>px1 px'. session_on_scatter_readable E i {EPOLLERR} px = Some px1 \<and>
    session_on_scatter_readable E i {EPOLLERR} px1 = flush_or_destroy E px' \<and>
    sess_state (px_session px') = SESSION_STATE_READY \<and> no_scatter px' \<and> queued px' = queued px @ wire (closing_messages px)"
proof -
  let ?px1 = "sc_finished i px" and ?px2 = "sc_finished i (sc_finished i px)"
  obtain k where k: "sc_shard (scatter_conns (px_session px) ! i) = Some k" using assms(5) by auto
  have s2: "sess_inv others ?px2" by (intro step_ok_inv [OF sc_finished_step] step_ok_inv [OF sc_finished_step] assms(1))
  have "scatter_count (px_session ?px2) \<le> scatter_done (px_session ?px2)" using assms(2,3) by (simp add: sc_finished_session)
  with s2 obtain px' where px': "check_complete E ?px2 = flush_or_destroy E px'" "sess_state (px_session px') = SESSION_STATE_READY"
    "queued px' = queued ?px2 @ wire (closing_messages ?px2)" "no_scatter px'" by (rule check_complete_last)
  have "session_on_scatter_readable E i {EPOLLERR} px = Some ?px1"
    using assms(2-4) k by (simp add: session_on_scatter_readable_def check_complete_def sc_finished_session)
  moreover have "session_on_scatter_readable E i {EPOLLERR} ?px1 = flush_or_destroy E px'"
    using assms(4) k px'(1) by (simp add: session_on_scatter_readable_def sc_finished_session)
  moreover have "closing_messages ?px2 = closing_messages px" by (simp add: closing_messages_def scatter_tag_def sc_finished_session)
  ultimately show ?thesis using px' by (intro exI [of _ ?px1] exI [of _ px']) simp
qed

theorem dead_shard_counts_twice_witness:
  "\<exists>px1 px'. session_on_scatter_readable lab_ext 0 {EPOLLERR} demo_scatter = Some px1 \<and>
    session_on_scatter_readable lab_ext 0 {EPOLLERR} px1 = flush_or_destroy lab_ext px' \<and>
    queued px' = wire [(MSG_CMD_COMPLETE, ''SELECT 0'' @ [NUL]), (MSG_READY_FOR_QUERY, [TXN_IDLE])]"
proof -
  have "scatter_count (px_session demo_scatter) = 2" "scatter_done (px_session demo_scatter) = 0"
    "0 < length (scatter_conns (px_session demo_scatter))" "sc_shard (scatter_conns (px_session demo_scatter) ! 0) \<noteq> None"
    by (simp_all add: demo_scatter_def demo_proxy_def fresh_session_def demo_sc_def)
  from dead_shard_counts_twice [OF demo_scatter_inv this, of lab_ext]
  have "\<exists>px1 px'. session_on_scatter_readable lab_ext 0 {EPOLLERR} demo_scatter = Some px1 \<and>
    session_on_scatter_readable lab_ext 0 {EPOLLERR} px1 = flush_or_destroy lab_ext px' \<and>
    queued px' = queued demo_scatter @ wire (closing_messages demo_scatter)" by blast
  moreover have "queued demo_scatter = []"
    "closing_messages demo_scatter = [(MSG_CMD_COMPLETE, ''SELECT 0'' @ [NUL]), (MSG_READY_FOR_QUERY, [TXN_IDLE])]"
    by (simp_all add: closing_messages_def scatter_tag_def demo_scatter_def demo_proxy_def fresh_session_def queued_def)
  ultimately show ?thesis by simp
qed

text \<open>C34: The handler of the single backend does not look at the state either. A session inside a
  transaction keeps its backend connection while a scatter is in flight; if that connection becomes
  readable without a result, as it does for a notice or a parameter status, the client gets a
  ReadyForQuery in the middle of the scatter and the session counts as ready while the connections
  of the shards are still in use.\<close>

theorem scatter_interrupted:
  assumes "sess_state (px_session px) = SESSION_STATE_SCATTER" "sess_inv others px" "\<not> no_scatter px"
    and "backend_conn (px_session px) \<noteq> None" "\<not> releases E (px\<lparr>px_world := w3\<rparr>)"
    and "PQconsumeInput E (backend_conn (px_session px)) (px_world px) = (ok, w1)" "ok \<noteq> 0"
    and "PQisBusy E (backend_conn (px_session px)) w1 = (False, w2)"
    and "delivers E (backend_conn (px_session px)) w2 [] w3"
  shows "\<exists>px'. session_on_backend_readable E {EPOLLIN} px = flush_or_destroy E px' \<and>
    sess_state (px_session px') = SESSION_STATE_READY \<and> \<not> no_scatter px' \<and> \<not> sess_inv others px' \<and>
    queued px' = queued px @ wire [ready_message E (px\<lparr>px_world := w3\<rparr>)]"
proof -
  let ?px = "px\<lparr>px_world := w3\<rparr>"
  have r: "backend_results E False (px\<lparr>px_world := w2\<rparr>) = Some (?px, Results_Done)"
    using assms(9) by (subst backend_results.simps) simp
  let ?t = "PQtransactionStatus E (backend_conn (px_session ?px)) (px_world ?px)"
  have "buf_ok (send_buf (px_session ?px))" using inv_out [OF assms(2)] by simp
  with queues_ready_wire obtain b where b: "queue_ready (txn_char ?t) ?px = Some (set_out b ?px)"
    "contents b = queued ?px @ wire [(MSG_READY_FOR_QUERY, [txn_char ?t])]" by (rule queuesD)
  then have "ready_release E ?px = Some (set_out b ?px)"
    using assms(5) by (auto simp: ready_release_def releases_def split: option.splits)
  with r have "session_on_backend_readable E {EPOLLIN} px = flush_or_destroy E
      (set_session (\<lambda>s. s\<lparr>backend_busy := False, sess_state := SESSION_STATE_READY\<rparr>) (set_out b ?px))" (is "_ = flush_or_destroy E ?px'")
    by (subst backend_readable_code [OF _ _ assms(4,6-8)]) (simp_all add: after_results_def)
  moreover have "\<not> no_scatter ?px'" using assms(3) by (simp add: no_scatter_def)
  ultimately show ?thesis
    using b(2) by (intro exI [of _ ?px']) (simp add: sess_inv_def queued_def ready_message_def)
qed

definition demo_interrupted :: "lab proxy" where
  "demo_interrupted = set_session (\<lambda>s. s\<lparr>backend_conn := Some 9\<rparr>) demo_scatter"

lemma demo_interrupted_inv: "sess_inv (\<lambda>i. 0) demo_interrupted"
proof -
  have "borrowed (px_session demo_interrupted) = borrowed (px_session demo_scatter)"
    by (rule ext) (simp add: borrowed_def demo_interrupted_def demo_scatter_def demo_proxy_def fresh_session_def)
  with demo_scatter_inv show ?thesis
    by (simp add: sess_inv_def conns_ok_def Let_def pools_hold_def nshards_def demo_interrupted_def out_ok_def no_scatter_def)
qed

theorem scatter_interrupted_witness:
  "\<exists>px'. session_on_backend_readable lab_ext {EPOLLIN} demo_interrupted = flush_or_destroy lab_ext px' \<and>
    \<not> no_scatter px' \<and> queued px' = wire [(MSG_READY_FOR_QUERY, [TXN_IDLE])]"
proof -
  let ?w = "px_world demo_interrupted"
  have st: "sess_state (px_session demo_interrupted) = SESSION_STATE_SCATTER" "backend_conn (px_session demo_interrupted) = Some 9"
    "backend_shard (px_session demo_interrupted) = None" "queued demo_interrupted = []"
    "?w = demo_world\<lparr>lab_results := [(4, [demo_result]), (5, [demo_result])]\<rparr>" "\<not> no_scatter demo_interrupted"
    by (simp_all add: demo_interrupted_def demo_scatter_def demo_proxy_def fresh_session_def queued_def no_scatter_def demo_sc_def)
  have l: "PQconsumeInput lab_ext (backend_conn (px_session demo_interrupted)) ?w = (1, ?w)"
    "PQisBusy lab_ext (backend_conn (px_session demo_interrupted)) ?w = (False, ?w)"
    "delivers lab_ext (backend_conn (px_session demo_interrupted)) ?w [] ?w"
    unfolding st(2,5) by (simp_all add: lab_ext_def lab_get_result_def)
  have r: "\<not> releases lab_ext (demo_interrupted\<lparr>px_world := ?w\<rparr>)"
    "ready_message lab_ext (demo_interrupted\<lparr>px_world := ?w\<rparr>) = (MSG_READY_FOR_QUERY, [TXN_IDLE])"
    by (simp_all add: releases_def ready_message_def st txn_char_def lab_ext_def demo_world_def lab_zero_def)
  have "backend_conn (px_session demo_interrupted) \<noteq> None" using st(2) by simp
  from scatter_interrupted [OF st(1) demo_interrupted_inv st(6) this r(1) l(1) _ l(2,3)] st(4) r(2) show ?thesis by auto
qed

end
