(* ===== verification/Proxy_System.thy ===== *)
theory Proxy_System imports Sharegres_Main Responses begin

text \<open>
  The proxy as a whole: the sessions, the shard map they share and the event loop of \<open>src/main.c\<close>
  that calls their handlers. The invariant of the system says that the pools count exactly the
  connections the live sessions hold; every handler, the listener and the health check keep it, so it
  holds in every state that a sequence of events reaches; the event loop makes such sequences.
\<close>

section \<open>The invariant of the whole proxy\<close>

text \<open>The connections the sessions of a list have taken from the pool of shard \<open>i\<close>, and those of all
  sessions but the one at address \<open>a\<close>.\<close>

definition all_borrowed :: "ClientSession list \<Rightarrow> nat \<Rightarrow> nat" where
  "all_borrowed ss i = sum_list (map (\<lambda>s. borrowed s i) ss)"

definition others_of :: "nat \<Rightarrow> ClientSession list \<Rightarrow> nat \<Rightarrow> nat" where
  "others_of a ss = all_borrowed (filter (\<lambda>s. sess_addr s \<noteq> a) ss)"

definition pools_count :: "ShardMap \<Rightarrow> (nat \<Rightarrow> nat) \<Rightarrow> bool" where
  "pools_count m held \<longleftrightarrow> map_ok m \<and>
     (\<forall>i < length (map_shards m). pool_inv (shard_pool (map_shards m ! i)) \<and>
        active_count (shard_pool (map_shards m ! i)) = int (held i))"

text \<open>All of a map but its pools.\<close>

definition route_part :: "ShardMap \<Rightarrow> ShardMap" where
  "route_part m = m\<lparr>map_shards := map (\<lambda>s. s\<lparr>shard_pool := conn_pool_zero\<rparr>) (map_shards m)\<rparr>"

text \<open>Every pool counts exactly the connections that the live sessions hold, and every session is in
  order; \<open>r\<close> is the routing part of the map, which never changes.\<close>

definition sys_inv :: "ShardMap \<Rightarrow> 'w sys \<Rightarrow> bool" where
  "sys_inv r st \<longleftrightarrow> distinct (map sess_addr (sys_sessions st)) \<and> route_part (sys_map st) = r \<and>
     pools_count (sys_map st) (all_borrowed (sys_sessions st)) \<and>
     (\<forall>s \<in> set (sys_sessions st). sess_inv (others_of (sess_addr s) (sys_sessions st)) (view st s))"

lemma view_simps [simp]: "px_session (view st s) = s" "px_map (view st s) = Some (sys_map st)"
  "px_world (view st s) = sys_world st" "px_alive (view st s)"
  by (simp_all add: view_def)

lemma pools_hold_count: "px_map px = Some m \<Longrightarrow> pools_hold px held = pools_count m held"
  by (simp add: pools_hold_def pools_count_def)

lemma routing_view: "px_map px = Some m \<Longrightarrow> routing px = Some (route_part m)"
  by (simp add: routing_def route_part_def)

lemma others_filter:
  "filter (\<lambda>s. sess_addr s \<noteq> a) (map (\<lambda>s. if sess_addr s = a then s' else s) ss) = filter (\<lambda>s. sess_addr s \<noteq> a) ss"
  if "sess_addr s' = a"
  using that by (induction ss) auto

lemma others_replace: "sess_addr s' = a \<Longrightarrow> others_of a (map (\<lambda>s. if sess_addr s = a then s' else s) ss) = others_of a ss"
  by (simp add: others_of_def others_filter)

lemma all_borrowed_split:
  "distinct (map sess_addr ss) \<Longrightarrow> s \<in> set ss \<Longrightarrow> all_borrowed ss i = borrowed s i + others_of (sess_addr s) ss i"
proof (induction ss)
  case (Cons t ss)
  show ?case
  proof (cases "s = t")
    case True
    with Cons.prems have "filter (\<lambda>s. sess_addr s \<noteq> sess_addr t) ss = ss"
      by (intro filter_True) (auto simp: image_iff)
    with True show ?thesis by (simp add: all_borrowed_def others_of_def)
  next
    case False
    with Cons.prems have "s \<in> set ss" "sess_addr t \<noteq> sess_addr s" by force+
    with Cons show ?thesis by (simp add: all_borrowed_def others_of_def)
  qed
qed simp

lemma replace_addrs:
  "sess_addr s' = a \<Longrightarrow> map sess_addr (map (\<lambda>s. if sess_addr s = a then s' else s) ss) = map sess_addr ss"
  by (induction ss) auto

text \<open>A session that did not move is in order whatever another one did, as long as the pools count right.\<close>

lemma sess_inv_other:
  assumes "sess_inv others px" "px_session px' = px_session px" "routing px' = routing px"
    and "pools_hold px' (\<lambda>i. borrowed (px_session px) i + others' i)"
  shows "sess_inv others' px'"
  using assms nshards_routing [OF assms(3)]
  by (simp add: sess_inv_def conns_ok_def Let_def out_ok_def no_scatter_def)

lemma find_sessionD:
  "find_session a st = Some s \<Longrightarrow> s \<in> set (sys_sessions st) \<and> sess_addr s = a"
  by (auto simp: find_session_def find_Some_iff)

lemma sys_invI:
  fixes st :: "'w sys"
  assumes "distinct (map sess_addr (sys_sessions st))" "route_part (sys_map st) = r"
    and "pools_count (sys_map st) (all_borrowed (sys_sessions st))"
    and "\<And>s. s \<in> set (sys_sessions st) \<Longrightarrow> \<exists>others (px :: 'w proxy). sess_inv others px \<and> px_session px = s \<and> routing px = Some r"
  shows "sys_inv r st"
  unfolding sys_inv_def
proof (intro conjI ballI assms(1-3))
  fix s assume s: "s \<in> set (sys_sessions st)"
  from assms(4) [OF this] obtain others and px :: "'w proxy" where px: "sess_inv others px" "px_session px = s" "routing px = Some r" by blast
  have "all_borrowed (sys_sessions st) = (\<lambda>i. borrowed s i + others_of (sess_addr s) (sys_sessions st) i)"
    using all_borrowed_split [OF assms(1) s] by blast
  with assms(3) have "pools_hold (view st s) (\<lambda>i. borrowed s i + others_of (sess_addr s) (sys_sessions st) i)"
    by (simp add: pools_hold_count [of _ "sys_map st"])
  with px assms(2) show "sess_inv (others_of (sess_addr s) (sys_sessions st)) (view st s)"
    by (intro sess_inv_other [OF px(1)]) (simp_all add: routing_view [of _ "sys_map st"])
qed

lemma put_back_inv:
  fixes st :: "'w sys"
  assumes "sys_inv r st" "s \<in> set (sys_sessions st)" "handled (others_of (sess_addr s) (sys_sessions st)) (view st s) px"
  shows "sys_inv r (put_back (sess_addr s) px st)"
proof -
  let ?a = "sess_addr s" and ?ss = "sys_sessions st" and ?st = "put_back (sess_addr s) px st"
  have rt: "routing px = Some r"
    using assms(1,3) by (simp add: handled_def sys_inv_def routing_view [of _ "sys_map st"])
  then obtain m where m: "px_map px = Some m" "route_part m = r" by (auto simp: routing_def route_part_def)
  have sm: "sys_map ?st = m" by (simp add: put_back_def m)
  have old: "\<exists>others (px :: 'w proxy). sess_inv others px \<and> px_session px = t \<and> routing px = Some r" if "t \<in> set ?ss" for t
    using assms(1) that
    by (intro exI [of _ "others_of (sess_addr t) ?ss"] exI [of _ "view st t"])
      (simp add: sys_inv_def routing_view [of _ "sys_map st"])
  have d: "distinct (map sess_addr ?ss)" using assms(1) by (simp add: sys_inv_def)
  show ?thesis
  proof (cases "px_alive px")
    case True
    with assms(3) have px: "sess_inv (others_of ?a ?ss) px" "sess_addr (px_session px) = ?a" by (simp_all add: handled_def)
    let ?ss' = "map (\<lambda>t. if sess_addr t = ?a then px_session px else t) ?ss"
    have ss: "sys_sessions ?st = ?ss'" using True by (simp add: put_back_def)
    have d': "distinct (map sess_addr ?ss')" unfolding replace_addrs [OF px(2)] by (rule d)
    have "px_session px \<in> set ?ss'" using assms(2) by auto
    from all_borrowed_split [OF d' this] have ab: "all_borrowed ?ss' = (\<lambda>i. borrowed (px_session px) i + others_of ?a ?ss i)"
      by (simp add: px(2) others_replace fun_eq_iff)
    have "pools_count m (all_borrowed ?ss')"
      using conns_okD(1) [OF inv_conns [OF px(1)]] m(1) unfolding ab by (simp add: pools_hold_count)
    then show ?thesis
      using px(1) rt old d' m(2) by (intro sys_invI) (auto simp: ss sm split: if_splits)
  next
    case False
    then have ss: "sys_sessions ?st = filter (\<lambda>t. sess_addr t \<noteq> ?a) ?ss" by (simp add: put_back_def)
    have "pools_count m (others_of ?a ?ss)" using assms(3) False m(1) by (simp add: handled_def pools_hold_count)
    then show ?thesis
      using old d m(2) by (intro sys_invI) (auto simp: ss sm others_of_def distinct_map_filter)
  qed
qed

section \<open>Handlers and timers keep it\<close>

context session_handler
begin

lemma keeps_sys:
  assumes "sys_inv r st" "s \<in> set (sys_sessions st)" "h (view st s) = Some px" "pre (view st s)"
  shows "sys_inv r (put_back (sess_addr s) px st)"
proof -
  have "sess_inv (others_of (sess_addr s) (sys_sessions st)) (view st s)" using assms(1,2) by (simp add: sys_inv_def)
  from keeps [OF assms(3,4) this] show ?thesis by (intro put_back_inv [OF assms(1,2)]) simp
qed

end

interpretation called: session_handler "call_handler E pg cb i events"
    "\<lambda>px. null_is_bad E \<and> (cb = Some On_Backend_Readable \<longrightarrow> sess_state (px_session px) \<noteq> SESSION_STATE_SCATTER)"
  for E :: "'w ext" and pg cb i events
proof
  fix px px' :: "'w proxy" and others
  assume h: "call_handler E pg cb i events px = Some px'" "sess_inv others px" "px_alive px"
    and pre: "null_is_bad E \<and> (cb = Some On_Backend_Readable \<longrightarrow> sess_state (px_session px) \<noteq> SESSION_STATE_SCATTER)"
  show "handled others px px'"
  proof (cases cb)
    case None
    with h(1) handled_step [OF step_ok_refl [OF h(2)] h(3)] show ?thesis by (simp add: call_handler_def)
  next
    case (Some c)
    with h pre show ?thesis
      by (cases c) (auto simp: call_handler_def
          intro: client_readable.keeps client_writable.keeps backend_readable.keeps scatter_readable.keeps)
  qed
qed

text \<open>The event that the handlers are not made for: the backend of a session that is gathering a scatter.\<close>

definition interrupts :: "handler_ptr \<Rightarrow> 'w sys \<Rightarrow> bool" where
  "interrupts ptr st \<longleftrightarrow> (case handler_at ptr st of
     None \<Rightarrow> False
   | Some (s, cb, i) \<Rightarrow> cb = Some On_Backend_Readable \<and> sess_state s = SESSION_STATE_SCATTER)"

text \<open>\<open>calloc\<close> does not hand out memory that is in use.\<close>

definition calloc_fresh :: "'w os \<Rightarrow> bool" where
  "calloc_fresh S \<longleftrightarrow> (\<forall>as w a w'. os_calloc S as w = (Some a, w') \<longrightarrow> a \<notin> set as)"

lemma handler_at_session: "handler_at ptr st = Some (s, cb, i) \<Longrightarrow> s \<in> set (sys_sessions st)"
  by (auto simp: handler_at_def bind_eq_Some_conv dest: find_sessionD split: handler_ptr.splits if_splits)

lemma sys_inv_world: "sys_inv r (st\<lparr>sys_world := w\<rparr>) = sys_inv r st"
proof -
  have "sess_inv others (view (st\<lparr>sys_world := w\<rparr>) s) = sess_inv others (view st s)" for others s
    by (simp add: sess_inv_def conns_ok_def Let_def pools_hold_def nshards_def out_ok_def no_scatter_def)
  then show ?thesis by (simp add: sys_inv_def)
qed

lemma dispatch_session_inv:
  assumes "null_is_bad E" "ptr \<noteq> HP_Listener" "dispatch E S pg ctx ptr events st = Some st'" "sys_inv r st" "\<not> interrupts ptr st"
  shows "sys_inv r st'"
proof -
  from assms(2,3) obtain s cb i px where h: "handler_at ptr st = Some (s, cb, i)"
    "call_handler E pg cb i events (view st s) = Some px" "st' = put_back (sess_addr s) px st"
    by (auto simp: dispatch_def bind_eq_Some_conv)
  note s = handler_at_session [OF h(1)]
  have "cb = Some On_Backend_Readable \<longrightarrow> sess_state (px_session (view st s)) \<noteq> SESSION_STATE_SCATTER"
    using assms(5) h(1) by (auto simp: interrupts_def)
  with called.keeps_sys [OF assms(4) s h(2)] assms(1) h(3) show ?thesis by simp
qed

lemma fresh_borrowed: "borrowed (fresh_session a pid fd ci h) i = 0"
  by (rule borrowed_none) (simp_all add: fresh_session_def list_all_iff scatter_conn_zero_def)

lemma fresh_inv:
  assumes "pools_count m others" "px_map px = Some m" "px_session px = fresh_session a pid fd ci h"
  shows "sess_inv others px"
proof -
  have "conns_ok others px"
    unfolding conns_ok_def Let_def assms(3) fresh_borrowed pools_hold_count [OF assms(2)]
    using assms(1) by (simp add: fresh_session_def list_all_iff scatter_ok_def scatter_conn_zero_def)
  then show ?thesis
    by (simp add: sess_inv_def out_ok_def no_scatter_def rb_ok_def recvbuf_init_def assms(3) fresh_session_def
        list_all_iff scatter_conn_zero_def SEND_BUF_INITIAL_def RECV_BUF_INITIAL_def)
qed

lemma accepted_inv:
  fixes st :: "'w sys"
  assumes "sys_inv r st" "session_create E (Some a) pid fd ci (Some (sys_map st)) w = Some px" "a \<notin> set (map sess_addr (sys_sessions st))"
  shows "sys_inv r (st\<lparr>sys_sessions := px_session px # sys_sessions st, sys_world := px_world px\<rparr>)"
proof -
  let ?st = "st\<lparr>sys_sessions := px_session px # sys_sessions st, sys_world := px_world px\<rparr>"
  from assms(2) obtain h where px: "px_session px = fresh_session a pid fd ci h" "px_map px = Some (sys_map st)"
    by (auto simp: session_create_def Let_def split: prod.splits)
  have a: "sess_addr (px_session px) = a" by (simp add: px fresh_session_def)
  have "all_borrowed (sys_sessions ?st) = all_borrowed (sys_sessions st)"
    by (rule ext) (simp add: all_borrowed_def px(1) fresh_borrowed)
  then have count: "pools_count (sys_map ?st) (all_borrowed (sys_sessions ?st))" using assms(1) by (simp add: sys_inv_def)
  show ?thesis
  proof (rule sys_invI [OF _ _ count])
    show "distinct (map sess_addr (sys_sessions ?st))" using assms(1,3) a by (simp add: sys_inv_def)
    show rt: "route_part (sys_map ?st) = r" using assms(1) by (simp add: sys_inv_def)
    fix s assume "s \<in> set (sys_sessions ?st)"
    then consider "s = px_session px" | "s \<in> set (sys_sessions st)" by auto
    then show "\<exists>others (px :: 'w proxy). sess_inv others px \<and> px_session px = s \<and> routing px = Some r"
    proof cases
      case 1
      with fresh_inv [OF count _ px(1)] px(2) rt show ?thesis
        by (intro exI [of _ "all_borrowed (sys_sessions ?st)"] exI [of _ px]) (simp add: routing_view)
    next
      case 2
      with assms(1) rt have "sess_inv (others_of (sess_addr s) (sys_sessions st)) (view st s)" "routing (view st s) = Some r"
        by (simp_all add: sys_inv_def routing_view [of _ "sys_map st"])
      then show ?thesis by (intro exI [of _ "others_of (sess_addr s) (sys_sessions st)"] exI [of _ "view st s"]) simp
    qed
  qed
qed

lemma on_accept_inv:
  assumes "on_accept E S ctx st = Some st'" "calloc_fresh S" "sys_inv r st"
  shows "sys_inv r st'"
proof -
  define P where "P = (\<lambda>(E :: 'a ext) (S' :: 'a os) (ctx :: ListenerCtx) (st :: 'a sys) (st' :: 'a sys).
    S' = S \<longrightarrow> sys_inv r st \<longrightarrow> sys_inv r st')"
  have "P E S ctx st st'"
  proof (rule on_accept.raw_induct [of P, OF _ assms(1)], goal_cases)
    case (1 f E' S' ctx' s s')
    show ?case
      unfolding P_def
    proof (intro impI)
      assume S: "S' = S" and inv: "sys_inv r s"
      obtain fd w where fd: "os_accept4 S (ev_fd (lst_ev ctx')) (sys_world s) = (fd, w)" by fastforce
      obtain addr w1 where addr: "os_calloc S (map sess_addr (sys_sessions s)) (os_setsockopt S fd w) = (addr, w1)" by fastforce
      have ih: "sys_inv r s'" if "f E' S ctx' s1 = Some s'" "sys_inv r s1" for s1
        using 1(1) [OF that(1)] that(2) by (simp add: P_def)
      let ?c = "session_create E' addr (os_getpid S) fd (lst_conninfo ctx') (Some (sys_map s)) w1"
      show "sys_inv r s'"
      proof (cases "fd < 0")
        case True
        with 1(2) fd inv show ?thesis by (auto simp: S sys_inv_world)
      next
        case False
        show ?thesis
        proof (cases ?c)
          case None
          with 1(2) fd addr False have "f E' S ctx' (s\<lparr>sys_world := sys_close E' fd w1\<rparr>) = Some s'" by (simp add: S)
          then show ?thesis by (rule ih) (simp add: sys_inv_world inv)
        next
          case (Some px)
          then obtain a where a: "addr = Some a" by (auto simp: session_create_def split: option.splits)
          with assms(2) addr have "a \<notin> set (map sess_addr (sys_sessions s))" unfolding calloc_fresh_def by blast
          from accepted_inv [OF inv Some [unfolded a] this] Some 1(2) fd addr False show ?thesis by (intro ih) (simp_all add: S)
        qed
      qed
    qed
  qed
  with assms(3) show ?thesis by (simp add: P_def)
qed

section \<open>The health check\<close>

lemma health_loop_inv:
  "pool_inv pool \<Longrightarrow> i \<le> length (idle_list pool) \<Longrightarrow>
    \<exists>pool' w'. health_loop E i pool w = Some (pool', w') \<and> pool_inv pool' \<and> active_count pool' = active_count pool"
proof (induction i arbitrary: pool w)
  case (Suc i)
  then have i: "i < length (idle_list pool)" by simp
  note rem = remove_at_facts [OF Suc.prems(1) i]
  have "i \<le> length (idle_list (remove_at i pool))" using i by (simp add: rem(2))
  from Suc.IH [OF rem(1) this] Suc.IH [OF Suc.prems(1), of w] i show ?case
    unfolding health_loop_Suc [OF Suc.prems(1) i] by (auto simp: remove_at_fields)
qed simp

lemma health_pools_inv:
  "list_all (\<lambda>s. pool_inv (shard_pool s)) shards \<Longrightarrow>
    \<exists>shards' w'. health_pools E (length shards) shards w = Some (shards', w') \<and> length shards' = length shards \<and>
      list_all (\<lambda>s. pool_inv (shard_pool s)) shards' \<and>
      map (\<lambda>s. active_count (shard_pool s)) shards' = map (\<lambda>s. active_count (shard_pool s)) shards \<and>
      map (\<lambda>s. s\<lparr>shard_pool := conn_pool_zero\<rparr>) shards' = map (\<lambda>s. s\<lparr>shard_pool := conn_pool_zero\<rparr>) shards"
proof (induction shards arbitrary: w)
  case (Cons s shards)
  have "pool_inv (shard_pool s)" using Cons.prems by simp
  from health_loop_inv [OF this, of "nat (idle_count (shard_pool s))" E w] pool_inv_length [OF this] obtain pool w1 where
    p: "conn_pool_health_check E (shard_pool s) w = Some (pool, w1)" "pool_inv pool" "active_count pool = active_count (shard_pool s)"
    by (auto simp: conn_pool_health_check_def)
  from Cons.IH [of w1] Cons.prems p show ?case by auto
qed simp

lemma health_check_inv:
  fixes st :: "'w sys"
  assumes "sys_inv r st"
  obtains st' where "on_health_check E cb st = Some st'" "sys_inv r st'" "sys_sessions st' = sys_sessions st"
proof -
  let ?m = "sys_map st"
  have ok: "map_ok ?m" "list_all (\<lambda>s. pool_inv (shard_pool s)) (map_shards ?m)"
    using assms by (simp_all add: sys_inv_def pools_count_def list_all_length)
  have n: "map_shard_count ?m = int (length (map_shards ?m))" using ok(1) by (simp add: map_ok_def)
  from health_pools_inv [OF ok(2), of E "sys_world st"] obtain shards w where
    h: "health_pools E (length (map_shards ?m)) (map_shards ?m) (sys_world st) = Some (shards, w)" "length shards = length (map_shards ?m)"
      "list_all (\<lambda>s. pool_inv (shard_pool s)) shards"
      "map (\<lambda>s. active_count (shard_pool s)) shards = map (\<lambda>s. active_count (shard_pool s)) (map_shards ?m)"
      "map (\<lambda>s. s\<lparr>shard_pool := conn_pool_zero\<rparr>) shards = map (\<lambda>s. s\<lparr>shard_pool := conn_pool_zero\<rparr>) (map_shards ?m)" by blast
  show ?thesis
  proof (cases "map_shards ?m = []")
    case True
    then have "on_health_check E cb st = Some st" using n by (simp add: on_health_check_def health_check_all_def)
    with assms that show ?thesis by blast
  next
    case False
    let ?m' = "?m\<lparr>map_shards := shards\<rparr>"
    let ?st = "st\<lparr>sys_map := ?m', sys_world := w\<rparr>"
    have run: "on_health_check E cb st = Some ?st"
      using False n h(1) by (simp add: on_health_check_def health_check_all_def)
    have ac: "active_count (shard_pool (shards ! i)) = active_count (shard_pool (map_shards ?m ! i))" if "i < length shards" for i
      using h(4) that h(2) by (metis (no_types, lifting) nth_map)
    have "map_ok ?m'" using ok(1) h(2) by (simp add: map_ok_def rule_ok_def list_all_iff)
    then have count: "pools_count ?m' (all_borrowed (sys_sessions st))"
      using assms h(2,3) ac by (simp add: sys_inv_def pools_count_def list_all_length)
    have rt: "route_part ?m' = r" using assms h(5) by (simp add: sys_inv_def route_part_def)
    have "sys_inv r ?st"
    proof (rule sys_invI)
      fix s assume "s \<in> set (sys_sessions ?st)"
      with assms show "\<exists>others (px :: 'w proxy). sess_inv others px \<and> px_session px = s \<and> routing px = Some r"
        by (intro exI [of _ "others_of (sess_addr s) (sys_sessions st)"] exI [of _ "view st s"])
          (simp add: sys_inv_def routing_view [of _ "sys_map st"])
    qed (use assms count rt in \<open>simp_all add: sys_inv_def\<close>)
    from that [OF run this] show ?thesis by simp
  qed
qed

section \<open>The loop\<close>

text \<open>The handlers with the one event they do not cope with cut off.\<close>

definition calm_dispatch ::
    "'w ext \<Rightarrow> 'w os \<Rightarrow> (cstring \<Rightarrow> PgQueryError + cstring) \<Rightarrow> ListenerCtx \<Rightarrow> handler_ptr \<Rightarrow> ep_event set \<Rightarrow>
     'w sys \<Rightarrow> 'w sys option" where
  "calm_dispatch E S pg ctx ptr events st = (if interrupts ptr st then None else dispatch E S pg ctx ptr events st)"

lemma calm_dispatch_inv:
  assumes "null_is_bad E" "calloc_fresh S" "calm_dispatch E S pg ctx ptr events st = Some st'" "sys_inv r st"
  shows "sys_inv r st'"
proof (cases "ptr = HP_Listener")
  case True
  with assms on_accept_inv [of E S ctx st st' r] show ?thesis
    by (auto simp: calm_dispatch_def dispatch_def split: if_splits)
next
  case False
  with assms dispatch_session_inv [OF assms(1) False, of S pg ctx events st st' r] show ?thesis
    by (simp add: calm_dispatch_def split: if_splits)
qed

lemma on_world_inv: "sys_inv r st \<Longrightarrow> sys_inv r (snd (on_world f st))"
  by (simp add: on_world_def sys_inv_world split: prod.splits)

text \<open>The steps of the proxy, one at a time: the world moves on (a wait, a look at the clock), the
  handler of an event is called, or the timer runs the health check. The events may come in any order
  and the run may go on for ever; a state is reached when some sequence of steps leads to it.\<close>

inductive proxy_reach ::
    "'w ext \<Rightarrow> 'w os \<Rightarrow> (cstring \<Rightarrow> PgQueryError + cstring) \<Rightarrow> ListenerCtx \<Rightarrow> 'w sys \<Rightarrow> 'w sys \<Rightarrow> bool"
  for E S pg ctx st0 where
  reach_start: "proxy_reach E S pg ctx st0 st0"
| reach_world: "proxy_reach E S pg ctx st0 st \<Longrightarrow> proxy_reach E S pg ctx st0 (st\<lparr>sys_world := w\<rparr>)"
| reach_event: "proxy_reach E S pg ctx st0 st \<Longrightarrow> \<not> interrupts ptr st \<Longrightarrow>
    dispatch E S pg ctx ptr events st = Some st' \<Longrightarrow> proxy_reach E S pg ctx st0 st'"
| reach_timer: "proxy_reach E S pg ctx st0 st \<Longrightarrow> on_health_check E cb st = Some st' \<Longrightarrow> proxy_reach E S pg ctx st0 st'"

lemma reach_on_world: "proxy_reach E S pg ctx st0 st \<Longrightarrow> proxy_reach E S pg ctx st0 (snd (on_world f st))"
  by (simp add: on_world_def reach_world split: prod.split)

lemma reach_inv:
  assumes "proxy_reach E S pg ctx st0 st" "null_is_bad E" "calloc_fresh S" "sys_inv r st0"
  shows "sys_inv r st"
  using assms(1)
proof induction
  case reach_start
  show ?case by (rule assms(4))
next
  case (reach_world st w)
  then show ?case by (simp add: sys_inv_world)
next
  case (reach_event st ptr events st')
  then have "calm_dispatch E S pg ctx ptr events st = Some st'" by (simp add: calm_dispatch_def)
  from calm_dispatch_inv [OF assms(2,3) this reach_event.IH] show ?case .
next
  case (reach_timer st cb st')
  from reach_timer.IH obtain st1 where "on_health_check E cb st = Some st1" "sys_inv r st1" by (rule health_check_inv)
  with reach_timer.hyps(2) show ?case by simp
qed

text \<open>The event loop on the handlers of the proxy makes such steps and no others.\<close>

interpretation proxy_loop: loop_handlers "\<lambda>ms. on_world (os_epoll_wait S ms)" "calm_dispatch E S pg ctx" "on_world (os_clock S)"
    "on_health_check E" "proxy_reach E S pg ctx st0"
  for E :: "'w ext" and S :: "'w os" and pg ctx st0
  by unfold_locales (auto simp: calm_dispatch_def intro: reach_on_world reach_event reach_timer split: if_splits)

definition demo_os :: "lab os" where
  "demo_os = \<lparr>os_socket = (\<lambda>w. (3, w)), os_setsockopt = (\<lambda>fd w. w), os_bind = (\<lambda>fd a p w. (0, w)), os_listen = (\<lambda>fd n w. (0, w)),
     os_accept4 = (\<lambda>fd w. case lab_input w of [] \<Rightarrow> (- 1, w) | d # ds \<Rightarrow> (7, w\<lparr>lab_input := ds\<rparr>)),
     os_calloc = (\<lambda>as w. (Some (Suc (foldr max as 0)), w)), os_getpid = 77, os_file = (\<lambda>path w. Some []),
     os_epoll_create = (\<lambda>w. (5, w)), os_epoll_wait = (\<lambda>ms w. (Wait_Events [(Some HP_Listener, {EPOLLIN})], w)),
     os_signalled = (\<lambda>w. True), os_clock = (\<lambda>w. (\<lparr>tv_sec = 100, tv_nsec = 0\<rparr>, w))\<rparr>"

lemma less_Suc_foldr_max: "a \<in> set as \<Longrightarrow> a < Suc (foldr max as (0 :: nat))"
  by (induction as) auto

lemma demo_calloc: "calloc_fresh demo_os"
  by (auto simp: calloc_fresh_def demo_os_def dest: less_Suc_foldr_max)

section \<open>The start\<close>

lemma load_cfg_map:
  assumes "load_cfg S cli w = Some cfg"
  shows "map_ok (shard_map cfg) \<and> pool_size (shard_map cfg) \<in> {0, default_pool_size cfg}"
proof -
  obtain c where c: "(if config_path cli \<noteq> [] then config_load (os_file S (config_path cli) w) else Some config_default) = Some c"
    "cfg = apply_overrides cli c" using assms by (auto simp: load_cfg_def)
  have same: "shard_map cfg = shard_map c" "default_pool_size cfg = default_pool_size c"
    by (simp_all add: c(2) apply_overrides_def Let_def split: option.split)
  show ?thesis
  proof (cases "config_path cli = []")
    case True
    with c(1) have "c = config_default" by simp
    then show ?thesis by (simp add: same config_default_def shard_map_zero_def map_ok_def)
  next
    case False
    with c(1) obtain f where "config_load (Some f) = Some c" by (auto simp: config_load_def split: option.splits)
    then obtain ld where "load_ok ld" "c = (ld_cfg ld)\<lparr>shard_map := build_map ld\<rparr>" by (rule config_loadE)
    with build_map_ok [of ld] show ?thesis by (simp add: same build_map_def)
  qed
qed

lemma init_pools_start:
  "init_pools (length shards) shards psize = Some shards' \<Longrightarrow> 0 \<le> psize \<Longrightarrow>
    length shards' = length shards \<and>
    map (\<lambda>s. s\<lparr>shard_pool := conn_pool_zero\<rparr>) shards' = map (\<lambda>s. s\<lparr>shard_pool := conn_pool_zero\<rparr>) shards \<and>
    list_all (\<lambda>s. pool_inv (shard_pool s) \<and> active_count (shard_pool s) = 0) shards'"
proof (induction shards arbitrary: shards')
  case (Cons s shards)
  then obtain pool rest where "conn_pool_init (shard_conninfo s) psize = Some pool" "init_pools (length shards) shards psize = Some rest"
    "shards' = s\<lparr>shard_pool := pool\<rparr> # rest" by (auto simp: bind_eq_Some_conv)
  with Cons.IH [of rest] Cons.prems(2) show ?case
    by (auto simp: conn_pool_init_def pool_inv_def idle_list_def split: option.splits)
qed simp

lemma start_inv:
  assumes "load_cfg S cli w0 = Some cfg" "init_shards cfg = Some cfg'" "0 \<le> default_pool_size cfg"
  shows "sys_inv (route_part (shard_map cfg)) \<lparr>sys_sessions = [], sys_map = shard_map cfg', sys_world = w\<rparr>"
proof -
  let ?m = "shard_map cfg" and ?m' = "shard_map cfg'"
  have ok: "map_ok ?m" "0 \<le> pool_size ?m" using load_cfg_map [OF assms(1)] assms(3) by auto
  have n: "map_shard_count ?m = int (length (map_shards ?m))" using ok(1) by (simp add: map_ok_def)
  have "pools_count ?m' (\<lambda>i. 0) \<and> route_part ?m' = route_part ?m"
  proof (cases "map_shards ?m = []")
    case True
    with assms(2) n ok(1) show ?thesis by (simp add: init_shards_def pools_count_def)
  next
    case False
    with assms(2) n obtain shards where i: "init_pools (length (map_shards ?m)) (map_shards ?m) (pool_size ?m) = Some shards"
      "?m' = ?m\<lparr>map_shards := shards\<rparr>" by (auto simp: init_shards_def shard_map_init_def bind_eq_Some_conv)
    note s = init_pools_start [OF i(1) ok(2)]
    have "map_ok ?m'" using ok(1) s by (simp add: i(2) map_ok_def rule_ok_def list_all_iff)
    with s show ?thesis by (simp add: i(2) pools_count_def route_part_def list_all_length)
  qed
  moreover have "all_borrowed [] = (\<lambda>i. 0)" by (rule ext) (simp add: all_borrowed_def)
  ultimately show ?thesis by (intro sys_invI) simp_all
qed

section \<open>Properties\<close>


lemma demo_accept:
  "lab_input (sys_world st) = [] \<Longrightarrow> on_accept lab_ext demo_os ctx st = Some st"
  "lab_input (sys_world st) = d # ds \<Longrightarrow> \<exists>s. on_accept lab_ext demo_os ctx st =
     on_accept lab_ext demo_os ctx (st\<lparr>sys_sessions := s # sys_sessions st, sys_world := (sys_world st)\<lparr>lab_input := ds\<rparr>\<rparr>)"
proof -
  show "on_accept lab_ext demo_os ctx st = Some st" if "lab_input (sys_world st) = []"
    using that by (subst on_accept.simps) (simp add: demo_os_def)
  assume "lab_input (sys_world st) = d # ds"
  then have a: "os_accept4 demo_os (ev_fd (lst_ev ctx)) (sys_world st) = (7, (sys_world st)\<lparr>lab_input := ds\<rparr>)"
    by (simp add: demo_os_def)
  let ?px = "session_create lab_ext (Some (Suc (foldr max (map sess_addr (sys_sessions st)) 0))) 77 7 (lst_conninfo ctx) (Some (sys_map st))
    ((sys_world st)\<lparr>lab_input := ds\<rparr>)"
  obtain px where px: "?px = Some px" "px_world px = (sys_world st)\<lparr>lab_input := ds\<rparr>"
    by (simp add: session_create_def event_loop_add_def set_nonblocking_def lab_ext_def)
  show "\<exists>s. on_accept lab_ext demo_os ctx st =
     on_accept lab_ext demo_os ctx (st\<lparr>sys_sessions := s # sys_sessions st, sys_world := (sys_world st)\<lparr>lab_input := ds\<rparr>\<rparr>)"
    using a px by (intro exI [of _ "px_session px"], subst on_accept.simps) (simp add: demo_os_def)
qed

definition demo_start :: "lab sys" where
  "demo_start = \<lparr>sys_sessions = [], sys_map = shard_map config_default, sys_world = lab_zero\<lparr>lab_input := [''a'', ''b'']\<rparr>\<rparr>"

lemma demo_batch:
  "\<exists>st. dispatch_all (calm_dispatch lab_ext demo_os Inr (listener_ctx 3 config_default)) [(Some HP_Listener, {EPOLLIN})] demo_start =
    Some st \<and> length (sys_sessions st) = 2"
proof -
  let ?ctx = "listener_ctx 3 config_default"
  let ?w = "lab_zero\<lparr>lab_input := [''a'', ''b'']\<rparr>"
  let ?st = "\<lparr>sys_sessions = [], sys_map = shard_map config_default, sys_world = ?w\<rparr>"
  obtain s where s: "on_accept lab_ext demo_os ?ctx ?st = on_accept lab_ext demo_os ?ctx
      (?st\<lparr>sys_sessions := [s], sys_world := ?w\<lparr>lab_input := [''b'']\<rparr>\<rparr>)"
    using demo_accept(2) [of ?st "''a''" "[''b'']" ?ctx] by auto
  obtain t where t: "on_accept lab_ext demo_os ?ctx (?st\<lparr>sys_sessions := [s], sys_world := ?w\<lparr>lab_input := [''b'']\<rparr>\<rparr>) =
      on_accept lab_ext demo_os ?ctx (?st\<lparr>sys_sessions := [t, s], sys_world := ?w\<lparr>lab_input := []\<rparr>\<rparr>)"
    using demo_accept(2) [of "?st\<lparr>sys_sessions := [s], sys_world := ?w\<lparr>lab_input := [''b'']\<rparr>\<rparr>" "''b''" "[]" ?ctx] by auto
  let ?st' = "?st\<lparr>sys_sessions := [t, s], sys_world := ?w\<lparr>lab_input := []\<rparr>\<rparr>"
  have acc: "on_accept lab_ext demo_os ?ctx ?st = Some ?st'"
    unfolding s t by (rule demo_accept(1)) simp
  then have "dispatch_all (calm_dispatch lab_ext demo_os Inr ?ctx) [(Some HP_Listener, {EPOLLIN})] ?st = Some ?st'"
    by (simp add: calm_dispatch_def interrupts_def handler_at_def dispatch_def) (simp add: listener_ctx_def)
  then show ?thesis unfolding demo_start_def by simp
qed

lemma demo_run:
  "\<exists>st. event_loop_run (\<lambda>ms. on_world (os_epoll_wait demo_os ms)) (\<lambda>st. True)
      (calm_dispatch lab_ext demo_os Inr (listener_ctx 3 config_default)) (on_world (os_clock demo_os))
      (on_health_check lab_ext) loop_zero demo_start = Some (loop_zero, st) \<and> length (sys_sessions st) = 2"
proof -
  have w: "on_world (os_epoll_wait demo_os ms) st = (Wait_Events [(Some HP_Listener, {EPOLLIN})], st)"
    "on_world (os_clock demo_os) st = (\<lparr>tv_sec = 100, tv_nsec = 0\<rparr>, st)" for ms and st :: "lab sys"
    by (simp_all add: on_world_def demo_os_def)
  have stop: "run_loop a b c e f l st = Some (l, st)" if "\<not> running l" for a b c e f and l :: "timer_cb EventLoop" and st :: "lab sys"
    using that by (subst run_loop.simps) simp
  from demo_batch obtain st where "dispatch_all (calm_dispatch lab_ext demo_os Inr (listener_ctx 3 config_default))
      [(Some HP_Listener, {EPOLLIN})] demo_start = Some st" "length (sys_sessions st) = 2" by blast
  then show ?thesis
    unfolding event_loop_run_def
    by (intro exI [of _ st], subst run_loop.simps) (simp add: w stop loop_zero_def timer_next_timeout_ms_def
      timer_process_expired_def event_loop_stop_def del: dispatch_all.simps)
qed




text \<open>C36: A batch of events may hold two events of one session. If the first of them destroys the session, the
  loop still calls the handler of the second one, whose memory has been freed: the order "client hangs
  up, backend answers" within one wait is undefined behaviour.\<close>

theorem stale_event_in_batch:
  assumes "sys_inv r st" "find_session a st = Some s" "ev_callback (ev_handler s) = Some On_Client_Readable"
    and "ptr = HP_Client a \<or> ptr = HP_Backend a \<or> ptr = HP_Scatter a i"
  shows "\<exists>st1. dispatch E S pg ctx (HP_Client a) {EPOLLHUP} st = Some st1 \<and> find_session a st1 = None \<and>
    dispatch_all (dispatch E S pg ctx) [(Some (HP_Client a), {EPOLLHUP}), (Some ptr, events)] st = None"
proof -
  have s: "s \<in> set (sys_sessions st)" "sess_addr s = a" using find_sessionD [OF assms(2)] by simp_all
  have "sess_inv (others_of a (sys_sessions st)) (view st s)" using assms(1) s by (auto simp: sys_inv_def)
  from destroy_facts [OF inv_conns [OF this]] obtain px where px: "session_destroy E (view st s) = Some px" "\<not> px_alive px" .
  let ?st = "put_back a px st"
  have d: "dispatch E S pg ctx (HP_Client a) {EPOLLHUP} st = Some ?st"
    using assms(2,3) px(1) s(2) by (simp add: dispatch_def handler_at_def call_handler_def session_on_client_readable_def)
  have gone: "find_session a ?st = None" using px(2) by (simp add: find_session_def put_back_def find_None_iff)
  have "handler_at ptr ?st = None" "ptr \<noteq> HP_Listener" using assms(4) gone by (auto simp: handler_at_def)
  then have "dispatch E S pg ctx ptr events ?st = None" by (simp add: dispatch_def)
  with d gone show ?thesis by (intro exI [of _ ?st]) simp
qed

definition demo_sys :: "lab sys" where
  "demo_sys = \<lparr>sys_sessions = [px_session demo_busy\<lparr>ev_handler := event_handler_zero\<lparr>ev_callback := Some On_Client_Readable\<rparr>\<rparr>],
     sys_map = demo_one_shard, sys_world = demo_world\<rparr>"

lemma demo_sys_inv: "sys_inv (route_part demo_one_shard) demo_sys"
proof -
  let ?s = "px_session demo_busy\<lparr>ev_handler := event_handler_zero\<lparr>ev_callback := Some On_Client_Readable\<rparr>\<rparr>"
  have f: "others_of (sess_addr ?s) (sys_sessions demo_sys) = (\<lambda>i. 0)" "all_borrowed (sys_sessions demo_sys) = borrowed ?s"
    by (rule ext, simp add: others_of_def all_borrowed_def demo_sys_def)+
  have m: "px_map demo_busy = Some demo_one_shard" by (simp add: demo_busy_def demo_proxy_def)
  have b: "borrowed ?s = borrowed (px_session demo_busy)" by (rule ext) (simp add: borrowed_def)
  have "conns_ok (\<lambda>i. 0) (view demo_sys ?s) = conns_ok (\<lambda>i. 0) demo_busy"
    by (rule conns_ok_cong) (simp_all add: m, simp_all add: demo_sys_def)
  with demo_busy_ok have c: "conns_ok (\<lambda>i. 0) (view demo_sys ?s)" by simp
  then have "sess_inv (\<lambda>i. 0) (view demo_sys ?s)"
    by (simp add: sess_inv_def out_ok_def rb_ok_def no_scatter_def demo_busy_def demo_proxy_def
        fresh_session_def scatter_conn_zero_def list_all_iff SEND_BUF_INITIAL_def RECV_BUF_INITIAL_def recvbuf_init_def)
  moreover have "pools_count demo_one_shard (borrowed ?s)"
    using conns_okD(1) [OF demo_busy_ok] unfolding b by (simp add: pools_hold_count [OF m])
  ultimately show ?thesis
    unfolding sys_inv_def f by (simp add: demo_sys_def) (simp add: f [unfolded demo_sys_def, simplified])
qed

theorem stale_event_in_batch_witness:
  "\<exists>st1. dispatch lab_ext demo_os Inr (listener_ctx 3 config_default) (HP_Client 4096) {EPOLLHUP} demo_sys = Some st1 \<and>
    dispatch_all (dispatch lab_ext demo_os Inr (listener_ctx 3 config_default))
      [(Some (HP_Client 4096), {EPOLLHUP}), (Some (HP_Backend 4096), {EPOLLIN})] demo_sys = None"
proof -
  have "find_session 4096 demo_sys = Some (px_session demo_busy\<lparr>ev_handler := event_handler_zero\<lparr>ev_callback := Some On_Client_Readable\<rparr>\<rparr>)"
    by (simp add: find_session_def demo_sys_def demo_busy_def demo_proxy_def fresh_session_def)
  from stale_event_in_batch [OF demo_sys_inv this, where ptr = "HP_Backend 4096" and E = lab_ext and S = demo_os and pg = Inr
      and ctx = "listener_ctx 3 config_default" and events = "{EPOLLIN}"]
  show ?thesis by auto
qed

text \<open>The command line: unless an option asks for help (status 0) or is unknown (status 1), every option
  takes its last value, whatever the order; a file given with \<open>-c\<close> wins over a directory given with
  \<open>-d\<close>; a port that is not positive is ignored.\<close>

theorem options_last_wins:
  "parse_options opts cli_zero =
     (case find (\<lambda>(opt, arg). opt \<notin> set ''cdlbD'') opts of
        Some (opt, arg) \<Rightarrow> Inl (if opt = CHR ''h'' then 0 else 1)
      | None \<Rightarrow> Inr \<lparr>cli_config_file = map_of (rev opts) (CHR ''c''), cli_basedir = map_of (rev opts) (CHR ''d''),
          cli_backend = map_of (rev opts) (CHR ''b''),
          cli_port = (case map_of (rev opts) (CHR ''l'') of Some a \<Rightarrow> atoi a | None \<Rightarrow> 0),
          cli_debug = (CHR ''D'' \<in> fst ` set opts)\<rparr>)"
proof -
  have "parse_options opts cli =
     (case find (\<lambda>(opt, arg). opt \<notin> set ''cdlbD'') opts of
        Some (opt, arg) \<Rightarrow> Inl (if opt = CHR ''h'' then 0 else 1)
      | None \<Rightarrow> Inr \<lparr>cli_config_file = (case map_of (rev opts) (CHR ''c'') of Some f \<Rightarrow> Some f | None \<Rightarrow> cli_config_file cli),
          cli_basedir = (case map_of (rev opts) (CHR ''d'') of Some f \<Rightarrow> Some f | None \<Rightarrow> cli_basedir cli),
          cli_backend = (case map_of (rev opts) (CHR ''b'') of Some f \<Rightarrow> Some f | None \<Rightarrow> cli_backend cli),
          cli_port = (case map_of (rev opts) (CHR ''l'') of Some a \<Rightarrow> atoi a | None \<Rightarrow> cli_port cli),
          cli_debug = (CHR ''D'' \<in> fst ` set opts \<or> cli_debug cli)\<rparr>)" for cli
  proof (induction opts arbitrary: cli)
    case Nil
    then show ?case by simp
  next
    case (Cons oa opts)
    obtain opt arg where oa: "oa = (opt, arg)" by fastforce
    show ?case
      using Cons by (auto simp: oa map_add_def split: option.splits)
  qed
  then show ?thesis by (simp add: cli_zero_def split: option.split)
qed

end
