(* ===== verification/Copy_Responses.thy ===== *)
theory Copy_Responses
  imports Responses
begin

text \<open>
  COPY to the client (\<open>session_on_backend_readable\<close> and its COPY OUT branch in
  \<open>src/session/session.c\<close>): the messages that one readable event of the backend queues.
\<close>

text \<open>\<open>PQgetCopyData\<close> hands out the chunks \<open>ds\<close> and then answers \<open>e\<close>: \<open>- 1\<close> at the end of the data, 0
  when no more has arrived, \<open>- 2\<close> for an error.\<close>

fun copies :: "'w ext \<Rightarrow> PGconn \<Rightarrow> 'w \<Rightarrow> byte list list \<Rightarrow> int \<Rightarrow> 'w \<Rightarrow> bool" where
  "copies E c w [] e w' \<longleftrightarrow> e \<le> 0 \<and> fst (fst (PQgetCopyData E c w)) = e \<and> snd (PQgetCopyData E c w) = w'"
| "copies E c w (d # ds) e w' \<longleftrightarrow> d \<noteq> [] \<and> fst (fst (PQgetCopyData E c w)) = int (length d) \<and>
     take (length d) (snd (fst (PQgetCopyData E c w))) = d \<and> copies E c (snd (PQgetCopyData E c w)) ds e w'"

definition copy_messages :: "byte list list \<Rightarrow> (byte \<times> byte list) list" where
  "copy_messages ds = map (\<lambda>d. (MSG_COPY_DATA, d)) ds"

lemma copy_out_loop_copies:
  assumes "copies E (backend_conn (px_session px)) (px_world px) ds e w'" "buf_ok (send_buf (px_session px))"
  obtains b where "copy_out_loop E px = Some ((set_out b px)\<lparr>px_world := w'\<rparr>, e)" "buf_ok b"
    "contents b = queued px @ wire (copy_messages ds)"
  using assms
proof (induction ds arbitrary: px thesis)
  case Nil
  obtain k buf w where g: "PQgetCopyData E (backend_conn (px_session px)) (px_world px) = ((k, buf), w)" by (metis surj_pair)
  with Nil.prems(2) have "copy_out_loop E px = Some ((set_out (send_buf (px_session px)) px)\<lparr>px_world := w'\<rparr>, e)"
    by (subst copy_out_loop.simps) (simp add: set_out_def set_session_def)
  from Nil.prems(1) [OF this] Nil.prems(3) show ?case by (simp add: queued_def copy_messages_def)
next
  case (Cons d ds)
  obtain k buf w where g: "PQgetCopyData E (backend_conn (px_session px)) (px_world px) = ((k, buf), w)" by (metis surj_pair)
  with Cons.prems(2) have k: "0 < k" "k = int (length d)" "take (length d) buf = d"
    and cs: "copies E (backend_conn (px_session px)) w ds e w'" by simp_all
  then have "mem_read 0 (nat k) buf = Some d" by (auto simp: mem_read_def min_def split: if_splits dest: arg_cong [of _ _ length])
  note q = copy_data_queues [OF k(1) this]
  have "buf_ok (send_buf (px_session (px\<lparr>px_world := w\<rparr>)))" using Cons.prems(3) by simp
  with q obtain b where b: "queue_new (nat k + 8) (copy_data_message buf k) (px\<lparr>px_world := w\<rparr>) = Some (set_out b (px\<lparr>px_world := w\<rparr>))"
    "buf_ok b" "contents b = queued (px\<lparr>px_world := w\<rparr>) @ wire [(MSG_COPY_DATA, d)]" by (rule queuesD)
  let ?px = "set_out b (px\<lparr>px_world := w\<rparr>)"
  have "copies E (backend_conn (px_session ?px)) (px_world ?px) ds e w'" "buf_ok (send_buf (px_session ?px))" using cs b(2) by simp_all
  from Cons.IH [OF _ this] obtain b2 where b2: "copy_out_loop E ?px = Some ((set_out b2 ?px)\<lparr>px_world := w'\<rparr>, e)" "buf_ok b2"
    "contents b2 = queued ?px @ wire (copy_messages ds)" .
  have "copy_out_loop E px = Some ((set_out b2 px)\<lparr>px_world := w'\<rparr>, e)"
    using g k(1) b(1) b2(1) by (subst copy_out_loop.simps) (simp add: set_out_def set_session_def)
  from Cons.prems(1) [OF this b2(2)] b(3) b2(3) show ?case by (simp add: queued_def copy_messages_def)
qed

lemma copy_out_read_end:
  assumes "sess_inv others px" "sess_state (px_session px) \<noteq> SESSION_STATE_SCATTER" "backend_conn (px_session px) \<noteq> None"
    and "copies E (backend_conn (px_session px)) (px_world px) ds (- 1) w1" "PQgetResult E (backend_conn (px_session px)) w1 = (fin, w2)"
  obtains px' where "copy_out_read E px = Some px'" "sess_inv others px'" "sess_state (px_session px') = SESSION_STATE_READY"
    "queued px' = queued px @ wire (copy_messages ds @ (MSG_COPY_DONE, []) # copy_tail fin @ [ready_message E (px\<lparr>px_world := w2\<rparr>)])"
    "backend_conn (px_session px') = (if releases E (px\<lparr>px_world := w2\<rparr>) then None else backend_conn (px_session px))"
proof -
  from assms(4) inv_out [OF assms(1)] obtain b1 where b1: "copy_out_loop E px = Some ((set_out b1 px)\<lparr>px_world := w1\<rparr>, - 1)" "buf_ok b1"
    "contents b1 = queued px @ wire (copy_messages ds)" by (rule copy_out_loop_copies)
  let ?px1 = "(set_out b1 px)\<lparr>px_world := w1\<rparr>"
  have "buf_ok (send_buf (px_session ?px1))" using b1(2) by simp
  with queues_copy_done obtain b2 where
    b2: "queue_new 8 (\<lambda>msg. Option.bind (msgbuf_put_byte msg MSG_COPY_DONE) (\<lambda>msg. msgbuf_put_int32 msg 4)) ?px1 = Some (set_out b2 ?px1)"
      "buf_ok b2" "contents b2 = queued ?px1 @ wire [(MSG_COPY_DONE, [])]" by (rule queuesD)
  let ?px2 = "(set_out b2 ?px1)\<lparr>px_world := w2\<rparr>"
  have "buf_ok (send_buf (px_session ?px2))" using b2(2) by simp
  with copy_tail_queues [of fin] obtain b3 where
    b3: "(case fin of Some r \<Rightarrow> if PQresultStatus r = PGRES_COMMAND_OK then command_complete (PQcmdStatus r) ?px2 else Some ?px2
      | None \<Rightarrow> Some ?px2) = Some (set_out b3 ?px2)" "buf_ok b3" "contents b3 = queued ?px2 @ wire (copy_tail fin)" by (rule queuesD)
  let ?px3 = "set_out b3 ?px2" and ?w = "px\<lparr>px_world := w2\<rparr>"
  have px3: "?px3 = (set_out b3 px)\<lparr>px_world := w2\<rparr>" by (simp add: set_out_def set_session_def)
  have c3: "contents b3 = queued px @ wire (copy_messages ds @ (MSG_COPY_DONE, []) # copy_tail fin)"
    using b1(3) b2(3) b3(3) by (simp add: queued_def)
  note c = calm_out [OF b3(2) c3 assms(1,2)]
  note c = calm_trans [OF c calm_world [OF calmD(1,2) [OF c], of w2]]
  have "backend_conn (px_session ?px3) \<noteq> None" "calm_step others px ?px3" using assms(3) c by (simp_all add: px3)
  from ready_release_facts [OF calmD(1,2) [OF this(2)] this(1), of E] obtain px4 b4 where
    px4: "ready_release E ?px3 = Some px4" "calm_step others ?px3 px4"
      "px_session px4 = (if releases E ?px3 then (px_session ?px3)\<lparr>send_buf := b4, backend_conn := None, backend_shard := None\<rparr>
         else (px_session ?px3)\<lparr>send_buf := b4\<rparr>)" "contents b4 = queued ?px3 @ wire [ready_message E ?px3]" .
  have r: "releases E ?px3 = releases E ?w" "ready_message E ?px3 = ready_message E ?w"
    by (simp_all add: releases_def ready_message_def)
  let ?px' = "set_session (\<lambda>s. s\<lparr>sess_state := SESSION_STATE_READY\<rparr>) px4"
  have "PQgetResult E (backend_conn (px_session (set_out b2 ?px1))) (px_world (set_out b2 ?px1)) = (fin, w2)" using assms(5) by simp
  then have "copy_out_read E px = Some ?px'"
    unfolding copy_out_read_def b1(1) bind.simps prod.case using b2(1) b3(1) px4(1) by (simp del: set_out_simps)
  moreover have "sess_inv others ?px'" using calmD(1) [OF calm_state [OF calmD(1,2) [OF px4(2)]]] by simp
  ultimately show ?thesis
    using that [of ?px'] px4(3,4) r c3 by (simp add: queued_def)
qed

lemma copy_out_read_more:
  assumes "copies E (backend_conn (px_session px)) (px_world px) ds e w1" "e \<noteq> - 1" "sess_inv others px"
    and "sess_state (px_session px) \<noteq> SESSION_STATE_SCATTER"
  obtains px' where "copy_out_read E px = Some px'" "sess_inv others px'" "sess_state (px_session px') = sess_state (px_session px)"
    "queued px' = queued px @ wire (copy_messages ds)"
proof -
  from assms(1) inv_out [OF assms(3)] obtain b where b: "copy_out_loop E px = Some ((set_out b px)\<lparr>px_world := w1\<rparr>, e)" "buf_ok b"
    "contents b = queued px @ wire (copy_messages ds)" by (rule copy_out_loop_copies)
  note c = calm_out [OF b(2,3) assms(3,4)]
  from that [OF _ calmD(1) [OF calm_world [OF calmD(1,2) [OF c], of w1]]] show ?thesis
    using assms(2) b by (simp add: copy_out_read_def queued_def)
qed

text \<open>C26: A COPY to the client: each chunk that libpq has is passed on as one CopyData message, unchanged and in
  order. At the end of the data follow CopyDone, the tag of the final result if it is a success, and
  ReadyForQuery, and the session is ready. When more data is to come (0), and also when libpq reports
  an error (- 2), the session stays in COPY OUT; its next event starts with PQgetResult again, which
  during a COPY answers the same, and so sends one more CopyOutResponse in the middle of the data.\<close>

theorem copy_out_forwarded:
  assumes "sess_inv others px" "sess_state (px_session px) \<noteq> SESSION_STATE_SCATTER"
    and "backend_conn (px_session px) \<noteq> None" "EPOLLERR \<notin> events" "EPOLLHUP \<notin> events"
    and "PQconsumeInput E (backend_conn (px_session px)) (px_world px) = (ok, w1)" "ok \<noteq> 0"
    and "PQisBusy E (backend_conn (px_session px)) w1 = (False, w2)"
    and "PQgetResult E (backend_conn (px_session px)) w2 = (Some r, w3)" "PQresultStatus r = PGRES_COPY_OUT"
    and "copies E (backend_conn (px_session px)) w3 ds e w4" "PQgetResult E (backend_conn (px_session px)) w4 = (fin, w5)"
  shows "\<exists>px'. session_on_backend_readable E events px = flush_or_destroy E px' \<and> sess_inv others px' \<and>
    (if e = - 1 then sess_state (px_session px') = SESSION_STATE_READY \<and>
       queued px' = queued px @ wire ((MSG_COPY_OUT_RESP, formats_payload (PQnfields r)) # copy_messages ds @
         (MSG_COPY_DONE, []) # copy_tail fin @ [ready_message E (px\<lparr>px_world := w5\<rparr>)])
     else sess_state (px_session px') = SESSION_STATE_COPY_OUT \<and>
       queued px' = queued px @ wire ((MSG_COPY_OUT_RESP, formats_payload (PQnfields r)) # copy_messages ds))"
proof -
  note c = calm_world [OF assms(1,2), of w3]
  obtain b where b: "forward_one r False (px\<lparr>px_world := w3\<rparr>) =
      Some (set_session (\<lambda>s. s\<lparr>sess_state := SESSION_STATE_COPY_OUT\<rparr>) (set_out b (px\<lparr>px_world := w3\<rparr>)), False, Some Copy_Out_Started)"
    "buf_ok b" "contents b = queued (px\<lparr>px_world := w3\<rparr>) @ wire [(MSG_COPY_OUT_RESP, formats_payload (PQnfields r))]"
    using forward_one_ok [OF inv_out [OF calmD(1) [OF c]], of r False] assms(10)
    by (auto simp: stop_state_def copy_stop_def has_rows_def reply_messages_def)
  let ?px1 = "set_session (\<lambda>s. s\<lparr>sess_state := SESSION_STATE_COPY_OUT\<rparr>) (set_out b (px\<lparr>px_world := w3\<rparr>))"
  have code: "session_on_backend_readable E events px = Option.bind (copy_out_read E ?px1) (flush_or_destroy E)"
    unfolding backend_readable_code [OF assms(4,5,3,6-8)] using assms(9) b(1)
    by (subst backend_results.simps) (simp add: after_results_def)
  note c1 = calm_out [OF b(2,3) calmD(1,2) [OF c]]
  note c2 = calm_state [OF calmD(1,2) [OF c1], of SESSION_STATE_COPY_OUT]
  have conn: "backend_conn (px_session ?px1) \<noteq> None" "copies E (backend_conn (px_session ?px1)) (px_world ?px1) ds e w4"
    "PQgetResult E (backend_conn (px_session ?px1)) w4 = (fin, w5)" using assms(3,11,12) by simp_all
  have q: "queued ?px1 = queued px @ wire [(MSG_COPY_OUT_RESP, formats_payload (PQnfields r))]" using b(3) by (simp add: queued_def)
  have i: "sess_inv others ?px1" "sess_state (px_session ?px1) \<noteq> SESSION_STATE_SCATTER" using calmD(1) [OF c2] by simp_all
  show ?thesis
  proof (cases "e = - 1")
    case True
    from copy_out_read_end [OF i conn(1) conn(2) [unfolded True] conn(3)] obtain px' where
      "copy_out_read E ?px1 = Some px'" "sess_inv others px'" "sess_state (px_session px') = SESSION_STATE_READY"
      "queued px' = queued ?px1 @ wire (copy_messages ds @ (MSG_COPY_DONE, []) # copy_tail fin @ [ready_message E (?px1\<lparr>px_world := w5\<rparr>)])" .
    with True code q show ?thesis by (intro exI [of _ px']) (simp add: ready_message_def)
  next
    case False
    from copy_out_read_more [OF conn(2) False i] obtain px' where "copy_out_read E ?px1 = Some px'" "sess_inv others px'"
      "sess_state (px_session px') = sess_state (px_session ?px1)" "queued px' = queued ?px1 @ wire (copy_messages ds)" .
    with False code q show ?thesis by (intro exI [of _ px']) simp
  qed
qed

text \<open>A backend with two chunks of data.\<close>

definition copy_ext :: "lab ext" where
  "copy_ext = lab_ext\<lparr>PQgetCopyData := (\<lambda>c w. case lab_copied w of
     [] \<Rightarrow> ((- 1, []), w)
   | (k, d) # ds \<Rightarrow> ((int (length d), d @ [NUL]), w\<lparr>lab_copied := ds\<rparr>))\<rparr>"

definition copy_start :: PGresult where
  "copy_start = demo_result\<lparr>PQresultStatus := PGRES_COPY_OUT\<rparr>"

definition copy_final :: PGresult where
  "copy_final = demo_result\<lparr>PQresultStatus := PGRES_COMMAND_OK, PQcmdStatus := ''COPY 2''\<rparr>"

definition demo_copying :: "lab proxy" where
  "demo_copying = (demo_ready [] SESSION_STATE_QUERY)\<lparr>px_world := demo_world\<lparr>lab_results := [(4, [copy_start, copy_final])],
     lab_copied := [(4, ''1''), (4, ''2'')]\<rparr>\<rparr>"

theorem copy_out_forwarded_witness:
  "\<exists>px'. session_on_backend_readable copy_ext {EPOLLIN} demo_copying = flush_or_destroy copy_ext px' \<and>
    sess_state (px_session px') = SESSION_STATE_READY \<and>
    queued px' = wire [(MSG_COPY_OUT_RESP, formats_payload (PQnfields copy_start)), (MSG_COPY_DATA, ''1''), (MSG_COPY_DATA, ''2''),
      (MSG_COPY_DONE, []), (MSG_CMD_COMPLETE, ''COPY 2'' @ [NUL]), (MSG_READY_FOR_QUERY, [TXN_IDLE])]"
proof -
  let ?w = "px_world demo_copying"
  let ?w3 = "?w\<lparr>lab_results := [(4, [copy_final]), (4, [copy_start, copy_final])]\<rparr>"
  let ?w4 = "?w3\<lparr>lab_copied := []\<rparr>"
  let ?w5 = "?w4\<lparr>lab_results := [(4, []), (4, [copy_final]), (4, [copy_start, copy_final])]\<rparr>"
  have inv: "sess_inv (\<lambda>i. 0) demo_copying"
    using world_step(1) [OF demo_ready_inv [of "[]" SESSION_STATE_QUERY], of demo_copying] by (simp add: demo_copying_def step_ok_def)
  have st: "sess_state (px_session demo_copying) = SESSION_STATE_QUERY" "backend_conn (px_session demo_copying) = Some 4"
    "queued demo_copying = []" "lab_results ?w = [(4, [copy_start, copy_final])]" "lab_copied ?w = [(4, ''1''), (4, ''2'')]" "lab_txn ?w = []"
    by (simp_all add: demo_copying_def demo_ready_def demo_busy_def demo_proxy_def fresh_session_def queued_def demo_world_def lab_zero_def)
  have e: "PQconsumeInput copy_ext (backend_conn (px_session demo_copying)) ?w = (1, ?w)"
    "PQisBusy copy_ext (backend_conn (px_session demo_copying)) ?w = (False, ?w)"
    "PQgetResult copy_ext (backend_conn (px_session demo_copying)) ?w = (Some copy_start, ?w3)"
    "copies copy_ext (backend_conn (px_session demo_copying)) ?w3 [''1'', ''2''] (- 1) ?w4"
    "PQgetResult copy_ext (backend_conn (px_session demo_copying)) ?w4 = (Some copy_final, ?w5)"
    by (simp_all add: st copy_ext_def lab_ext_def lab_get_result_def)
  have m: "copy_tail (Some copy_final) = [(MSG_CMD_COMPLETE, ''COPY 2'' @ [NUL])]" "PQresultStatus copy_start = PGRES_COPY_OUT"
    "ready_message copy_ext (demo_copying\<lparr>px_world := ?w5\<rparr>) = (MSG_READY_FOR_QUERY, [TXN_IDLE])"
    by (simp_all add: copy_tail_def copy_final_def copy_start_def ready_message_def st copy_ext_def lab_ext_def txn_char_def)
  from copy_out_forwarded [OF inv _ _ _ _ e(1) _ e(2,3) m(2) e(4,5), of "{EPOLLIN}"] st(1-3) m(1,3) show ?thesis
    by (auto simp: copy_messages_def)
qed

end
