(* ===== verification/Spec2Isabelle.thy ===== *)
theory Spec2Isabelle
  imports Proxy_System Copy_Responses
begin

text \<open>
  A verification library for Sharegres, a proxy that speaks the PostgreSQL protocol with its
  clients and sends each statement to the PostgreSQL servers (shards) that hold its rows.

  \<^bold>\<open>The program.\<close> One process waits on epoll (\<open>event/event_loop.c\<close>) and calls the handler of each
  event. A connecting client gets a session (\<open>session/session.c\<close>); the bytes it sends are cut into
  messages (\<open>protocol/fe_protocol.c\<close>, \<open>protocol/message.c\<close>). A query is parsed by libpg_query, whose
  parse tree in JSON text is searched for the table and the shard key (\<open>parser/query_parser.c\<close> on
  \<open>parser/json_util.c\<close>); the router (\<open>router/router.c\<close> on \<open>router/shard_map.c\<close>) decides on one shard, on
  several (a scatter) or on an answer by the proxy itself. The connections to the shards come from
  one pool per shard (\<open>pool/conn_pool.c\<close>), which a timer (\<open>event/timer.c\<close>) sweeps
  (\<open>pool/health_check.c\<close>). The results of libpq are written back as protocol messages, and COPY data
  is passed through (\<open>executor/copy_handler.c\<close>). \<open>config.c\<close> reads the shards and the rules from a file,
  \<open>log.c\<close> prints, and \<open>main.c\<close> puts the parts together.

  \<^bold>\<open>The theories.\<close> Definitions keep the names of the C functions and structures; a field whose name
  two structures share carries a prefix.
  \<^item> \<open>Sharegres_Prelude\<close>: bytes, C strings, big-endian words, failure as \<open>None\<close>, shared lemmas.
  \<^item> \<open>Json_Util\<close> models \<open>json_util.c\<close>: a pointer into the text is the text from the pointer on.
    \<open>Json_Tree\<close> has the trees, their printing, and what each search returns on a printed tree.
  \<^item> \<open>Query_Parser\<close> models \<open>query_parser.c\<close>; its specification is a set of functions on trees.
  \<^item> \<open>Externals\<close>: libpq and the socket calls as a record of functions on an arbitrary outside world,
    and one concrete instance on which the witnesses run.
  \<^item> \<open>Conn_Pool\<close> models \<open>conn_pool.c\<close>; \<open>Shard_Map\<close> models \<open>shard_map.c\<close> and \<open>health_check.c\<close>; \<open>Router\<close>
    models \<open>router.c\<close>. A \<open>Shard\<close> is named by its index in the map.
  \<^item> \<open>Message\<close> models \<open>message.c\<close>: the growing buffer with its three positions, and the writers.
  \<^item> \<open>Log\<close>, \<open>Config\<close>, \<open>Timer\<close>, \<open>Event_Loop\<close> model the files of those names. The event loop takes the
    wait, the handlers and the clock as arguments.
  \<^item> \<open>Session_State\<close> has the structure of a session and the functions of \<open>session.c\<close> that the protocol
    calls (buffers, sending, the state of epoll, destruction); \<open>Copy_Handler\<close> models \<open>copy_handler.c\<close>;
    \<open>Fe_Protocol\<close> models \<open>fe_protocol.c\<close>; \<open>Session\<close> models the event handlers of \<open>session.c\<close>. The state
    they pass on, \<open>proxy\<close>, is one session, the shard map with its pools, and the outside world.
  \<^item> \<open>Sharegres_Main\<close> models \<open>main.c\<close>: options, start, listener, and the handlers of all sessions on one
    state \<open>sys\<close>, which has a list of sessions in place of the one.
  \<^item> \<open>Fe_Queries\<close>, \<open>Fe_Messages\<close>, \<open>Session_Handlers\<close>, \<open>Responses\<close>, \<open>Copy_Responses\<close> and \<open>Proxy_System\<close>
    hold the lemmas on the query path, on the message loop, on the event handlers, on the answers to
    queries, on COPY to the client, and on the whole process. This theory has the properties that lead
    from the bytes of a client and the text of a statement to a shard.

  \<^bold>\<open>What is shown.\<close>
  \<^item> Parser: on the text of every well-formed tree the searches and \<open>parse_query\<close> compute exactly the
    search on the tree, and the second pass over an INSERT picks the constant at the position of the
    shard column. Where the text is not a tree the loops may run for ever (shown for one shape).
  \<^item> Routing: range and hash lookup, the targets of a decision, and that an INSERT and a SELECT that
    name the same key other than 0 go to the same one shard.
  \<^item> Pools: every connection is idle or held, once; a session destroyed gives back all it holds; in
    every state that a sequence of events reaches (\<open>proxy_reach\<close>), each pool counts exactly the
    connections of the live sessions. A run of the event loop is such a sequence. One event is
    excluded, a readable backend of a session that is gathering a scatter, since the handler is wrong
    there (\<open>scatter_interrupted\<close>).
  \<^item> Protocol: writers and the forwarding of results produce frames that parse back; the message loop
    ends and keeps the invariant of the session; login, query and COPY are answered as the protocol
    says; sending loses and repeats no byte over partial sends.
  \<^item> Answers: what a backend or the shards of a scatter returned, COPY data included, is queued for the
    client in order, and the session is ready again with its connections given back.
  \<^item> Behaviour that the source does not intend is stated as such: a length field that makes the loop
    run for ever, a pipelined query replaced by the bytes behind it, a dead shard counted twice, a
    scatter interrupted by an idle backend, an event for a freed session, the key 0.

  \<^bold>\<open>Interfaces.\<close> \<open>json_search\<close> (a search on text that implements a search on trees) is interpreted by
  both searches; \<open>byte_sink\<close> (a buffer that appends) by the message buffer; \<open>shard_lookup\<close> by the lookup
  of integers and of strings; \<open>session_handler\<close> (what the loop may rely on when it calls a handler of a
  session) by the four event handlers and by the call through the stored callback; \<open>loop_handlers\<close>
  (handlers that keep a property of the state) by the handlers of the whole proxy.

  \<^bold>\<open>Termination.\<close> No definition uses fuel. Loops that may run for ever (the searches on arbitrary text,
  the message loop, the reading of results, the event loop) are \<open>partial_function (option)\<close>, where
  running for ever is \<open>None\<close>, as undefined behaviour is. That they return is proved: for the searches on
  the text of trees, for the message loop short of a wrapped length, for the reading of the results
  that libpq delivers, and for the event loop when it is asked to stop.

  \<^bold>\<open>What is assumed, where a theorem says so.\<close> Of libpq: that NULL is no good connection
  (\<open>null_is_bad\<close>), that a new connection is a new pointer, that it delivers the results a statement
  names (\<open>delivers\<close>, \<open>answers\<close>). Of \<open>calloc\<close>: that it does not return memory in use. Of libpg_query:
  the parse tree of the statement at hand.

  \<^bold>\<open>Not modelled.\<close> libpq, libpg_query, the system calls and \<open>getopt\<close> are parameters. Log calls inside
  the components, the usage text and the installing of signal handlers have no effect on the state;
  a signal is taken to arrive during a wait. Of the allocations only that of a session can fail. The scripts under \<open>scripts/\<close> and
  \<open>tests/\<close> run the proxy and are not part of it.
\<close>

section \<open>From the text of a statement to its shards\<close>

text \<open>The two calls of \<open>handle_query\<close> that decide where a statement goes.\<close>

definition route_of :: "(cstring \<Rightarrow> PgQueryError + cstring) \<Rightarrow> ShardMap \<Rightarrow> cstring \<Rightarrow> RouteDecision option" where
  "route_of pg m sql = do {
     (parsed, rc) \<leftarrow> parse_query pg sql;
     if rc < 0 then None
     else do {
       (parsed, decision) \<leftarrow> router_decide m parsed;
       Some decision
     }
   }"

text \<open>Where an integer key goes; 0 is not found in the parse tree, which leaves out fields that are 0.\<close>

definition key_decision :: "ShardMap \<Rightarrow> TableRule \<Rightarrow> int \<Rightarrow> RouteDecision" where
  "key_decision m r k =
     (if k = 0 then scatter r (route_zero\<lparr>route_rule := Some r\<rparr>)
      else route_zero\<lparr>route_rule := Some r, route_type := ROUTE_SINGLE,
        target_shards := [the (shard_of m r (word_of_int k))], target_count := 1\<rparr>)"

lemma key_decision_target:
  assumes "rule_ok m r" "rule_shards r \<noteq> []" "shard_column r = Some col"
    and "shard_key_found p = (k \<noteq> 0)" "k \<noteq> 0 \<Longrightarrow> shard_key_column p = Some col \<and> shard_key_is_int p \<and> shard_key_int p = k"
  shows "Option.bind (key_target m r p) (\<lambda>t. case t of
      Some s \<Rightarrow> Some (p, route_zero\<lparr>route_rule := Some r, route_type := ROUTE_SINGLE, target_shards := [s], target_count := 1\<rparr>)
    | None \<Rightarrow> Some (p, scatter r (route_zero\<lparr>route_rule := Some r\<rparr>))) = Some (p, key_decision m r k)"
proof (cases "k = 0")
  case True
  with assms(4) show ?thesis by (simp add: key_target_def key_decision_def)
next
  case False
  with assms(4,5) have "key_target m r p = Some (shard_of m r (word_of_int k))"
    using keyed_target [OF assms(1), of p] assms(3) by simp
  with False shard_of_member [OF assms(2), of m "word_of_int k"] show ?thesis by (auto simp: key_decision_def)
qed

lemma route_select:
  assumes "map_ok m" "find (\<lambda>r. rule_table_name r = Some table) (table_rules m) = Some r" "\<not> broadcast r" "rule_shards r \<noteq> []"
    and "shard_column r = Some col" "body_ok table" "body_ok col" "- (2 ^ 63) \<le> k" "k < 2 ^ 63"
    and "pg sql = Inr (render (select_doc table (eq_node col (int_node k))))"
  shows "route_of pg m sql = Some (key_decision m r k)"
proof -
  let ?doc = "select_doc table (eq_node col (int_node k))"
  have "wf_json ?doc" using assms(6,7) by (simp add: doc_wf)
  from parse_query_text [where pg = pg and sql = sql, OF this assms(10)]
  have parse: "parse_query pg sql = Some (fst (spec_parse_query ?doc), 0)" by (simp add: spec_select_doc)
  define p where "p = fst (spec_parse_query ?doc)"
  have p: "stmt_type p = STMT_SELECT" "table_name p = Some table" "shard_key_found p = (k \<noteq> 0)"
    "k \<noteq> 0 \<Longrightarrow> shard_key_column p = Some col \<and> shard_key_is_int p \<and> shard_key_int p = k"
    using assms(8,9) by (simp_all add: p_def spec_select_doc spec_eq_node parse_result_zero_def)
  have "router_decide m p = decide_rule m p r"
    using assms(2) p(1,2) by (simp add: router_decide_cases [OF assms(1)] is_local_def is_default_def)
  also have "\<dots> = Some (p, key_decision m r k)"
    using key_decision_target [OF map_ok_find(1) [OF assms(1,2)] assms(4,5) p(3,4)] assms(3) p(1) by (simp add: decide_rule_def)
  finally show ?thesis using parse by (simp add: route_of_def p_def)
qed

lemma route_insert:
  assumes "map_ok m" "find (\<lambda>r. rule_table_name r = Some table) (table_rules m) = Some r" "\<not> broadcast r" "rule_shards r \<noteq> []"
    and "shard_column r = Some col" "body_ok table" "list_all body_ok cols" "list_all wf_json vals"
    and "index_of col cols = Some pos" "pos < length vals" "vals ! pos = int_node k" "- (2 ^ 63) \<le> k" "k < 2 ^ 63"
    and "pg sql = Inr (render (insert_doc table cols vals))"
  shows "route_of pg m sql = Some (key_decision m r k)"
proof -
  let ?doc = "insert_doc table cols vals"
  have wf: "wf_json ?doc" using assms(6-8) by (rule insert_doc_wf)
  from parse_query_text [where pg = pg and sql = sql, OF this assms(14)]
  have parse: "parse_query pg sql = Some (fst (spec_parse_query ?doc), 0)" by (simp add: spec_insert_doc)
  define p where "p = fst (spec_parse_query ?doc)"
  have p: "stmt_type p = STMT_INSERT" "table_name p = Some table" "\<not> shard_key_found p" "parse_tree_json p = Some (render ?doc)"
    by (simp_all add: p_def spec_insert_doc parse_result_zero_def)
  define q where "q = (if k = 0 then p else p\<lparr>shard_key_int := k, shard_key_is_int := True, shard_key_found := True, shard_key_column := Some col\<rparr>)"
  have "parse_extract_insert_shard_key p (Some col) = Some q"
    using second_pass_doc [OF wf p(1,4) assms(9)] assms(10-13)
    by (simp add: insert_const_node int_node_def spec_const_def tree_int_text q_def)
  moreover have q: "shard_key_found q = (k \<noteq> 0)" "k \<noteq> 0 \<Longrightarrow> shard_key_column q = Some col \<and> shard_key_is_int q \<and> shard_key_int q = k"
    using p(3) by (simp_all add: q_def)
  moreover have "router_decide m p = decide_rule m p r"
    using assms(2) p(1,2) by (simp add: router_decide_cases [OF assms(1)] is_local_def is_default_def)
  ultimately have "router_decide m p = Some (q, key_decision m r k)"
    using key_decision_target [OF map_ok_find(1) [OF assms(1,2)] assms(4,5) q] assms(3,5) p(1,3) by (simp add: decide_rule_def)
  then show ?thesis using parse by (simp add: route_of_def p_def)
qed


definition demo_pg :: "int \<Rightarrow> cstring \<Rightarrow> PgQueryError + cstring" where
  "demo_pg k sql = Inr (render
     (if sql = ''INSERT'' then insert_doc ''users'' [''name'', ''user_id''] [string_node ''x'', int_node k]
      else select_doc ''users'' (eq_node ''user_id'' (int_node k))))"




section \<open>A routed query reaches its shard\<close>

text \<open>The query text was handed to libpq on connection \<open>conn\<close>, as the last thing before the flush.\<close>

definition sent_on :: "'w ext \<Rightarrow> PGconn \<Rightarrow> cstring \<Rightarrow> 'w \<Rightarrow> bool" where
  "sent_on E conn sql w' \<longleftrightarrow> (\<exists>w. fst (PQsendQuery E conn sql w) \<noteq> 0 \<and> w' = PQflush E conn (snd (PQsendQuery E conn sql w)))"

lemma watch_backend_kept [simp]:
  "backend_conn (px_session (watch_backend E px)) = backend_conn (px_session px)"
  "backend_shard (px_session (watch_backend E px)) = backend_shard (px_session px)"
  by (simp_all add: watch_backend_facts)

lemma connect_to_shard_target:
  assumes "connect_to_shard E i px = Some (px', rc)" "\<not> rc < 0"
  shows "backend_shard (px_session px') = Some i \<and> backend_conn (px_session px') \<noteq> None"
  using assms by (auto simp: connect_to_shard_def bind_eq_Some_conv Let_def split: if_splits)

lemma send_query_sent:
  assumes "send_query E sql px = (px', rc)" "\<not> rc < 0"
  shows "sent_on E (backend_conn (px_session px')) sql (px_world px') \<and>
    backend_conn (px_session px') = backend_conn (px_session px) \<and> backend_shard (px_session px') = backend_shard (px_session px)"
proof -
  obtain n w where n: "PQsendQuery E (backend_conn (px_session px)) sql (px_world px) = (n, w)" by fastforce
  with assms have "n \<noteq> 0" "px' = set_session (\<lambda>s. s\<lparr>sess_state := SESSION_STATE_QUERY, backend_busy := True\<rparr>)
      (px\<lparr>px_world := PQflush E (backend_conn (px_session px)) w\<rparr>)"
    by (auto simp: send_query_def split: if_splits)
  then show ?thesis using n by (auto simp: sent_on_def intro!: exI [of _ "px_world px"])
qed

lemma execute_single_sent:
  assumes "execute_single E sql (Some i) px = Some (px', rc)" "\<not> rc < 0"
  shows "backend_shard (px_session px') = Some i \<and> backend_conn (px_session px') \<noteq> None \<and>
    sent_on E (backend_conn (px_session px')) sql (px_world px')"
proof -
  let ?A = "if backend_conn (px_session px) \<noteq> None \<and> backend_shard (px_session px) \<noteq> Some i then drop_backend E px else Some px"
  let ?B = "\<lambda>p. if backend_conn (px_session p) = None then connect_to_shard E i p else Some (p, 0)"
  have "Option.bind ?A (\<lambda>p. Option.bind (?B p) (\<lambda>(p, c). if c < 0 then Some (p, - 1) else Some (send_query E sql p))) = Some (px', rc)"
    using assms(1) unfolding execute_single_def option.case .
  then obtain px1 px2 rc2 where a: "?A = Some px1" "?B px1 = Some (px2, rc2)"
      "(if rc2 < 0 then Some (px2, - 1) else Some (send_query E sql px2)) = Some (px', rc)"
    unfolding bind_eq_Some_conv by auto
  from a(3) assms(2) have px1: "\<not> rc2 < 0" "send_query E sql px2 = (px', rc)" by (auto split: if_splits)
  have "backend_conn (px_session px1) \<noteq> None \<Longrightarrow> backend_shard (px_session px1) = Some i"
    using a(1) by (auto simp: drop_backend_def end_backend_def bind_eq_Some_conv Let_def split: if_splits)
  then have "backend_shard (px_session px2) = Some i \<and> backend_conn (px_session px2) \<noteq> None"
    using a(2) px1(1) connect_to_shard_target [of E i px1 px2 rc2] by (auto split: if_splits simp del: not_None_eq)
  with send_query_sent [OF px1(2) assms(2)] show ?thesis by metis
qed

lemma routed_query_sent:
  assumes "null_is_bad E" "conns_ok others px" "buf_ok (send_buf (px_session px))" "px_map px = Some m" "map_shard_count m \<noteq> 0"
    and "route_of pg m sql = Some d" "route_type d = ROUTE_SINGLE" "target_shards d = [s]"
  shows "\<exists>px'. handle_query E pg sql px = Some (px', 0) \<and>
    (backend_shard (px_session px') = Some s \<and> sent_on E (backend_conn (px_session px')) sql (px_world px') \<and>
       sess_state (px_session px') = SESSION_STATE_QUERY \<and> queued px' = queued px \<or>
     sess_state (px_session px') = sess_state (px_session px) \<and>
       queued px' = queued px @ error_frames ''ERROR'' ''08001'' ''cannot connect to shard'')"
proof -
  from assms(6) obtain parsed c parsed' where p: "parse_query pg sql = Some (parsed, c)" "\<not> c < 0" "router_decide m parsed = Some (parsed', d)"
    by (auto simp: route_of_def bind_eq_Some_conv split: if_splits)
  have code: "handle_query E pg sql px = Option.bind (execute_single E sql (Some s) px) (\<lambda>(px, rc). if rc < 0 then
      Option.bind (error_ready ''ERROR'' ''08001'' ''cannot connect to shard'' px) (\<lambda>px. Some (px, 0)) else Some (px, rc))"
    using p assms(4,5,7,8) by (simp add: handle_query_def)
  have "map_ok m" using conns_okD(1) [OF assms(2)] assms(4) by (simp add: pools_hold_def)
  from decision_valid(1) [OF this p(3)] have "\<And>i. Some s = Some i \<Longrightarrow> i < nshards px" using assms(4,8) by (simp add: nshards_def)
  from execute_single_facts [OF assms(1,2) this, where sql = sql] obtain px1 rc where
    e: "execute_single E sql (Some s) px = Some (px1, rc)" "same_but_backend px px1"
      "rc = 0 \<and> sess_state (px_session px1) = SESSION_STATE_QUERY \<or> rc = - 1 \<and> sess_state (px_session px1) = sess_state (px_session px)"
    by metis
  note q = same_but_backend_queued [OF e(2)] same_but_backendD(7) [OF e(2)]
  show ?thesis
  proof (cases "rc < 0")
    case False
    with e execute_single_sent [OF e(1) False] q show ?thesis by (intro exI [of _ px1]) (auto simp: code)
  next
    case True
    have "buf_ok (send_buf (px_session px1))" using assms(3) q(2) by simp
    with queues_error_ready obtain b where "error_ready ''ERROR'' ''08001'' ''cannot connect to shard'' px1 = Some (set_out b px1)"
      "contents b = queued px1 @ error_frames ''ERROR'' ''08001'' ''cannot connect to shard''" by (rule queuesD)
    with True e q show ?thesis by (intro exI [of _ "set_out b px1"]) (auto simp: code queued_def)
  qed
qed

text \<open>A query that is routed to one shard either runs on a connection of exactly that shard, its text
  handed to libpq there unchanged and nothing queued for the client yet, or the client is told that
  the shard cannot be reached and that the session is ready again. No other shard gets it.\<close>

theorem routed_query_runs_on_shard:
  assumes "null_is_bad E" "conns_ok others px" "buf_ok (send_buf (px_session px))" "px_map px = Some m" "map_shard_count m \<noteq> 0"
    and "route_of pg m sql = Some d" "route_type d = ROUTE_SINGLE" "target_shards d = [s]"
  shows "\<exists>px'. handle_query E pg sql px = Some (px', 0) \<and>
    (backend_shard (px_session px') = Some s \<and> sent_on E (backend_conn (px_session px')) sql (px_world px') \<and>
       sess_state (px_session px') = SESSION_STATE_QUERY \<and> queued px' = queued px \<or>
     sess_state (px_session px') = sess_state (px_session px) \<and>
       queued px' = queued px @ error_frames ''ERROR'' ''08001'' ''cannot connect to shard'')"
  using assms by (rule routed_query_sent)

text \<open>A session on the map of three shards.\<close>

definition demo_session :: "lab proxy" where
  "demo_session = demo_proxy (Some ((demo_map SHARD_HASH)\<lparr>map_shards := map (\<lambda>s. s\<lparr>shard_pool :=
     demo_pool\<lparr>active_count := 0\<rparr>\<rparr>) (map_shards (demo_map SHARD_HASH))\<rparr>)) demo_world"

lemma demo_session_ok: "conns_ok (\<lambda>i. 0) demo_session" "buf_ok (send_buf (px_session demo_session))"
proof -
  have "borrowed (px_session demo_session) = (\<lambda>i. 0)"
    by (rule ext) (simp add: demo_session_def demo_proxy_def fresh_borrowed)
  moreover have "pool_inv (demo_pool\<lparr>active_count := 0\<rparr>)" by (simp add: pool_inv_def demo_pool_def idle_list_def)
  ultimately show "conns_ok (\<lambda>i. 0) demo_session"
    by (simp add: conns_ok_def Let_def pools_hold_def nshards_def)
      (simp add: demo_session_def demo_proxy_def demo_map_def demo_rule_def map_ok_def rule_ok_def fresh_session_def
        list_all_iff scatter_ok_def scatter_conn_zero_def nth_Cons' )
  show "buf_ok (send_buf (px_session demo_session))"
    by (simp add: demo_session_def demo_proxy_def fresh_session_def SEND_BUF_INITIAL_def)
qed

definition demo_shards :: ShardMap where
  "demo_shards = (demo_map SHARD_HASH)\<lparr>map_shards := map (\<lambda>s. s\<lparr>shard_pool := demo_pool\<lparr>active_count := 0\<rparr>\<rparr>)
     (map_shards (demo_map SHARD_HASH))\<rparr>"

lemma demo_session_map: "px_map demo_session = Some demo_shards" "map_shard_count demo_shards \<noteq> 0" "queued demo_session = []"
  by (simp_all add: demo_session_def demo_shards_def demo_proxy_def demo_map_def fresh_session_def queued_def)

lemma demo_routed:
  "k \<in> {0, 1500} \<Longrightarrow> route_of (demo_pg k) demo_shards ''SELECT'' = Some (key_decision demo_shards (demo_rule SHARD_HASH) k)"
proof -
  have ok: "map_ok demo_shards" using conns_okD(1) [OF demo_session_ok(1)] demo_session_map(1) by (simp add: pools_hold_def)
  have "find (\<lambda>r. rule_table_name r = Some ''users'') (table_rules demo_shards) = Some (demo_rule SHARD_HASH)"
    "\<not> broadcast (demo_rule SHARD_HASH)" "rule_shards (demo_rule SHARD_HASH) \<noteq> []" "shard_column (demo_rule SHARD_HASH) = Some ''user_id''"
    using demo_find [of SHARD_HASH] by (simp_all add: demo_rule_def demo_shards_def)
  then show "route_of (demo_pg k) demo_shards ''SELECT'' = Some (key_decision demo_shards (demo_rule SHARD_HASH) k)"
    if "k \<in> {0, 1500}"
    using that by (intro route_select [where pg = "demo_pg k" and sql = "''SELECT''", OF ok]) (auto simp: demo_pg_def)
qed

theorem routed_query_runs_on_shard_witness:
  "\<exists>px' s. handle_query lab_ext (demo_pg 1500) ''SELECT'' demo_session = Some (px', 0) \<and>
    (backend_shard (px_session px') = Some s \<and> sent_on lab_ext (backend_conn (px_session px')) ''SELECT'' (px_world px') \<or>
     queued px' = error_frames ''ERROR'' ''08001'' ''cannot connect to shard'')"
  using routed_query_runs_on_shard [OF lab_hyps(1) demo_session_ok demo_session_map(1,2) demo_routed [of 1500]] demo_session_map(3)
  by (auto simp: key_decision_def)

lemma unsent_nil: "sess_inv others px \<Longrightarrow> unsent px = [] \<longleftrightarrow> \<not> send_pos (px_session px) < mb_len (send_buf (px_session px))"
  by (auto simp: sess_inv_def out_ok_def unsent_def queued_def buf_ok_def contents_def)

text \<open>C3: A query from the socket to its shard: the last bytes of a query message arrive from a client whose
  session is ready, however the message was cut into receives; if the statement is routed to one shard,
  its text is sent on a connection of that shard and the session waits for the answer, or the client
  is told that the shard cannot be reached and stays ready. The handler flushes what is unsent.\<close>

theorem client_query_reaches_shard:
  assumes "null_is_bad E" "sess_inv others px" "sess_state (px_session px) = SESSION_STATE_READY"
    and "px_map px = Some m" "map_shard_count m \<noteq> 0"
    and "EPOLLERR \<notin> events" "EPOLLHUP \<notin> events" "d \<noteq> []" "length d \<le> 4096"
    and "\<forall>n \<ge> 4096. sys_recv E (client_fd (px_session px)) n (px_world px) = (Received d, w1)"
    and "received px @ d = frame MSG_QUERY (sql @ [NUL])" "NUL \<notin> set sql" "6 + length sql \<le> 16777216"
    and "route_of pg m sql = Some dec" "route_type dec = ROUTE_SINGLE" "target_shards dec = [s]"
  shows "\<exists>px'. session_on_client_readable E pg events px = (if unsent px' = [] then Some px' else flush_or_destroy E px') \<and>
    sess_inv others px' \<and> received px' = [] \<and>
    (backend_shard (px_session px') = Some s \<and> sent_on E (backend_conn (px_session px')) sql (px_world px') \<and>
       sess_state (px_session px') = SESSION_STATE_QUERY \<and> queued px' = queued px \<or>
     sess_state (px_session px') = SESSION_STATE_READY \<and>
       queued px' = queued px @ error_frames ''ERROR'' ''08001'' ''cannot connect to shard'')"
proof -
  have "in_ok px" using assms(2) by (simp add: sess_inv_def)
  from readable_received [OF this assms(6-10)] obtain rb where rb: "rb_ok rb" "received (set_rb rb px) = received px @ d"
    "session_on_client_readable E pg events px = after_recv E pg ((set_rb rb px)\<lparr>px_world := w1\<rparr>)" .
  let ?px1 = "(set_rb rb px)\<lparr>px_world := w1\<rparr>"
  have in1: "in_ok ?px1" "sess_state (px_session ?px1) = SESSION_STATE_READY" "received ?px1 = frame MSG_QUERY (sql @ [NUL])"
    using rb(1,2) assms(3,11) by (simp_all add: received_def)
  obtain rb2 where rb2: "rb_ok rb2" "received (set_rb rb2 ?px1) = []" "fe_protocol_process E pg ?px1 = handle_query E pg sql (set_rb rb2 ?px1)"
    using query_alone [OF in1(1,2) assms(12,13) in1(3)] by blast
  let ?px2 = "set_rb rb2 ?px1"
  have s1: "sess_inv others ?px1" using step_ok_inv [OF world_step(1) [OF step_ok_inv [OF set_rb_step [OF assms(2) rb(1)]]]] by simp
  have s2: "sess_inv others ?px2" by (rule step_ok_inv [OF set_rb_step [OF s1 rb2(1)]])
  have ok2: "conns_ok others ?px2" "out_ok ?px2" "buf_ok (send_buf (px_session ?px2))" "px_map ?px2 = Some m" "queued ?px2 = queued px"
    using s2 assms(4) by (simp_all add: sess_inv_def out_ok_def queued_def)
  from routed_query_sent [OF assms(1) ok2(1,3,4) assms(5,14-16)] obtain px' where px': "handle_query E pg sql ?px2 = Some (px', 0)"
    "backend_shard (px_session px') = Some s \<and> sent_on E (backend_conn (px_session px')) sql (px_world px') \<and>
       sess_state (px_session px') = SESSION_STATE_QUERY \<and> queued px' = queued px \<or>
     sess_state (px_session px') = SESSION_STATE_READY \<and>
       queued px' = queued px @ error_frames ''ERROR'' ''08001'' ''cannot connect to shard''"
    using assms(3) ok2(5) by auto
  have "fe_protocol_process E pg ?px1 = Some (px', 0)" by (simp add: rb2(3) px'(1))
  from step_ok_inv [OF process_ok [OF assms(1) this s1]] have "sess_inv others px'" .
  moreover have "routable pg m sql" using assms(14) by (auto simp: route_of_def routable_def bind_eq_Some_conv split: if_splits)
  then have "query_done others ?px2 px' 0"
    using handle_query_facts [OF assms(1) ok2(1) _ ok2(3), of pg sql] s2 assms(3) px'(1) ok2(4) by (auto simp: sess_inv_def)
  then have "recv_buf (px_session px') = rb2" using same_but_queryD(6) [of ?px2 px'] by (simp add: query_done_def)
  then have "received px' = []" using rb2(2) by (simp add: received_def)
  ultimately show ?thesis
    using rb(3) rb2(3) px' by (intro exI [of _ px']) (auto simp: unsent_nil after_recv_def)
qed

definition demo_query :: "lab proxy" where
  "demo_query = (set_session (\<lambda>s. s\<lparr>sess_state := SESSION_STATE_READY\<rparr>) demo_session)
     \<lparr>px_world := demo_world\<lparr>lab_input := [frame MSG_QUERY (''SELECT'' @ [NUL])]\<rparr>\<rparr>"

lemma demo_query_inv: "sess_inv (\<lambda>i. 0) demo_query"
proof -
  have "conns_ok (\<lambda>i. 0) demo_query = conns_ok (\<lambda>i. 0) demo_session" by (rule conns_ok_cong) (simp_all add: demo_query_def)
  with demo_session_ok show ?thesis
    by (simp add: sess_inv_def out_ok_def) (simp add: demo_query_def demo_session_def demo_proxy_def fresh_session_def no_scatter_def
      scatter_conn_zero_def list_all_iff rb_ok_def RECV_BUF_INITIAL_def recvbuf_init_def SEND_BUF_INITIAL_def)
qed

theorem client_query_reaches_shard_witness:
  "\<exists>px' s. session_on_client_readable lab_ext (demo_pg 1500) {EPOLLIN} demo_query =
      (if unsent px' = [] then Some px' else flush_or_destroy lab_ext px') \<and>
    (backend_shard (px_session px') = Some s \<and> sent_on lab_ext (backend_conn (px_session px')) ''SELECT'' (px_world px') \<or>
     queued px' = error_frames ''ERROR'' ''08001'' ''cannot connect to shard'')"
proof -
  let ?d = "frame MSG_QUERY (''SELECT'' @ [NUL])"
  have m: "px_map demo_query = Some demo_shards" "queued demo_query = []"
    using demo_session_map by (simp_all add: demo_query_def queued_def)
  have r: "received demo_query @ ?d = ?d" "sess_state (px_session demo_query) = SESSION_STATE_READY"
    by (simp_all add: demo_query_def demo_session_def demo_proxy_def fresh_session_def received_def recvbuf_init_def)
  have recv: "\<forall>n \<ge> 4096. sys_recv lab_ext (client_fd (px_session demo_query)) n (px_world demo_query) = (Received ?d, demo_world)"
    by (simp add: demo_query_def lab_ext_def demo_world_def lab_zero_def frame_def)
  have "\<exists>px'. session_on_client_readable lab_ext (demo_pg 1500) {EPOLLIN} demo_query =
      (if unsent px' = [] then Some px' else flush_or_destroy lab_ext px') \<and> sess_inv (\<lambda>i. 0) px' \<and> received px' = [] \<and>
    (backend_shard (px_session px') = Some (the (shard_of demo_shards (demo_rule SHARD_HASH) (word_of_int 1500))) \<and>
       sent_on lab_ext (backend_conn (px_session px')) ''SELECT'' (px_world px') \<and>
       sess_state (px_session px') = SESSION_STATE_QUERY \<and> queued px' = queued demo_query \<or>
     sess_state (px_session px') = SESSION_STATE_READY \<and>
       queued px' = queued demo_query @ error_frames ''ERROR'' ''08001'' ''cannot connect to shard'')"
    by (rule client_query_reaches_shard [OF lab_hyps(1) demo_query_inv r(2) m(1) demo_session_map(2) _ _ _ _ recv r(1) _ _ demo_routed [of 1500]])
      (simp_all add: key_decision_def frame_def)
  with m(2) show ?thesis by auto
qed

section \<open>A scatter from the query to the answer\<close>

lemma open_count:
  "n \<le> length xs \<Longrightarrow> length (filter failed (take n xs)) + card {i. i < n \<and> sc_conn (xs ! i) \<noteq> None} = n"
proof (induction n)
  case (Suc n)
  have "{i. i < Suc n \<and> sc_conn (xs ! i) \<noteq> None} =
      (if failed (xs ! n) then {} else {n}) \<union> {i. i < n \<and> sc_conn (xs ! i) \<noteq> None}"
    by (auto simp: failed_def less_Suc_eq)
  with Suc show ?case by (simp add: take_Suc_conv_app_nth)
qed simp

lemma open_order:
  assumes "sess_inv others px" "scattering shards px" "length shards \<le> MAX_SCATTER_SHARDS"
    and "set order = {i. i < length shards \<and> sconn px i \<noteq> None}" "distinct (map (sconn px) order)"
  shows "order \<noteq> []" "scatter_count (px_session px) = scatter_done (px_session px) + int (length order)"
    "list_all (\<lambda>i. i < length (scatter_conns (px_session px)) \<and> sconn px i \<noteq> None) order"
proof -
  let ?s = "px_session px"
  have len: "length (scatter_conns ?s) = MAX_SCATTER_SHARDS" using assms(1) by (simp add: sess_inv_def conns_ok_def Let_def)
  have c: "scatter_count ?s = int (length shards)" "scatter_done ?s = int (length (filter failed (take (length shards) (scatter_conns ?s))))"
    "scatter_done ?s < scatter_count ?s" using assms(2) by (simp_all add: scattering_def Let_def)
  have "length order = card {i. i < length shards \<and> sconn px i \<noteq> None}"
    using distinct_card [of order] assms(4,5) by (simp add: distinct_map)
  with open_count [of "length shards" "scatter_conns ?s"] assms(3) len
  have "length (filter failed (take (length shards) (scatter_conns ?s))) + length order = length shards" by simp
  with c show sum: "scatter_count ?s = scatter_done ?s + int (length order)" by simp
  with c(3) show "order \<noteq> []" by auto
  show "list_all (\<lambda>i. i < length (scatter_conns ?s) \<and> sconn px i \<noteq> None) order"
    using assms(3,4) len by (auto simp: list_all_iff)
qed



end
